(* ===== verification/Prelude.thy ===== *)
theory Prelude
  imports Main "HOL-Library.Word"
begin

text \<open>
  What every component shares: the result type of code that can fail and the combinator that
  sequences it, lemmas on lists, on the position of the first match in an array and on
  little-endian byte strings, and the two interfaces (\<open>invariante\<close>, \<open>refinamiento\<close>)
  through which a component's step lemmas become statements about whole runs.

  A byte is a \<^typ>\<open>char\<close>, as in the C sources, and a C string is a \<^typ>\<open>string\<close> without its
  terminating zero.
\<close>

unbundle bit_operations_syntax

section \<open>Fallible code\<close>

text \<open>
  A C function that can stop (a crash, an undefined access, a kernel panic, a jump that never
  returns) is a function into \<^typ>\<open>'e + 'a\<close>: \<^term>\<open>Inl e\<close> when control does not come back,
  \<^term>\<open>Inr x\<close> when it returns \<open>x\<close>. Statements are sequenced with \<open>and_then\<close>.
\<close>

fun and_then :: "'e + 'a \<Rightarrow> ('a \<Rightarrow> 'e + 'b) \<Rightarrow> 'e + 'b" where
  "and_then (Inl e) f = Inl e"
| "and_then (Inr x) f = f x"

definition check_that :: "bool \<Rightarrow> 'e \<Rightarrow> 'e + 'a \<Rightarrow> 'e + 'a" where
  "check_that b e k = (if b then k else Inl e)"

lemma and_then_eq_Inr: "and_then m f = Inr y \<longleftrightarrow> (\<exists>x. m = Inr x \<and> f x = Inr y)"
  by (cases m) auto

lemma and_then_eq_Inl: "and_then m f = Inl e \<longleftrightarrow> m = Inl e \<or> (\<exists>x. m = Inr x \<and> f x = Inl e)"
  by (cases m) auto

lemma and_then_InrE:
  assumes "and_then m f = Inr y"
  obtains x where "m = Inr x" and "f x = Inr y"
  using assms by (auto simp: and_then_eq_Inr)

lemma and_then_cong [fundef_cong]:
  "m = m' \<Longrightarrow> (\<And>x. m' = Inr x \<Longrightarrow> f x = g x) \<Longrightarrow> and_then m f = and_then m' g"
  by (cases m') auto

lemma and_then_assoc: "and_then (and_then m f) g = and_then m (\<lambda>x. and_then (f x) g)"
  by (cases m) auto

lemma check_that_eq_Inr [simp]: "check_that b e k = Inr y \<longleftrightarrow> b \<and> k = Inr y"
  by (simp add: check_that_def)

lemma check_that_simps [simp]: "check_that True e k = k" "check_that False e k = Inl e"
  by (simp_all add: check_that_def)


section \<open>The first match in an array\<close>

text \<open>The loop \<open>for (i = 0; i < n; i++) if (P(a[i])) break;\<close>.\<close>

fun first_index :: "('a \<Rightarrow> bool) \<Rightarrow> 'a list \<Rightarrow> nat option" where
  "first_index P [] = None"
| "first_index P (x # xs) = (if P x then Some 0 else map_option Suc (first_index P xs))"

lemma first_index_None: "first_index P xs = None \<longleftrightarrow> (\<forall>x\<in>set xs. \<not> P x)"
  by (induction xs) auto

lemma first_index_Some:
  "first_index P xs = Some i \<longleftrightarrow> i < length xs \<and> P (xs ! i) \<and> (\<forall>j<i. \<not> P (xs ! j))"
proof (induction xs arbitrary: i)
  case Nil
  then show ?case by simp
next
  case (Cons x xs)
  show ?case
    by (cases i) (auto simp: Cons.IH nth_Cons split: nat.split)
qed

lemma first_index_lt: "first_index P xs = Some i \<Longrightarrow> i < length xs"
  and first_index_P: "first_index P xs = Some i \<Longrightarrow> P (xs ! i)"
  by (simp_all add: first_index_Some)

lemma first_index_distinct:
  assumes "distinct (map f xs)" and "i < length xs"
  shows "first_index (\<lambda>x. f x = f (xs ! i)) xs = Some i"
  using assms by (auto simp: first_index_Some distinct_conv_nth)

lemma first_index_snoc:
  "first_index P (xs @ [y]) =
     (case first_index P xs of Some i \<Rightarrow> Some i
      | None \<Rightarrow> if P y then Some (length xs) else None)"
  by (induction xs) (auto split: option.split)

lemma first_index_update:
  assumes "i < length xs" and "P v = P (xs ! i)"
  shows "first_index P (xs[i := v]) = first_index P xs"
  using assms
proof (induction xs arbitrary: i)
  case Nil
  then show ?case by simp
next
  case (Cons x xs)
  then show ?case by (cases i) auto
qed


section \<open>Removing an element of an array\<close>

text \<open>The shift-left loop \<open>for (j = i; j < n - 1; j++) a[j] = a[j + 1]; n--;\<close>.\<close>

definition remove_nth :: "nat \<Rightarrow> 'a list \<Rightarrow> 'a list" where
  "remove_nth i xs = take i xs @ drop (Suc i) xs"

lemma length_remove_nth [simp]:
  "i < length xs \<Longrightarrow> length (remove_nth i xs) = length xs - 1"
  by (simp add: remove_nth_def)

lemma set_remove_nth: "set (remove_nth i xs) \<subseteq> set xs"
  by (auto simp: remove_nth_def dest: in_set_takeD in_set_dropD)

lemma map_remove_nth: "map f (remove_nth i xs) = remove_nth i (map f xs)"
  by (simp add: remove_nth_def take_map drop_map)

lemma nth_remove_nth:
  "j < length xs - 1 \<Longrightarrow> i < length xs \<Longrightarrow>
   remove_nth i xs ! j = (if j < i then xs ! j else xs ! Suc j)"
  by (auto simp: remove_nth_def nth_append min_def)

lemma distinct_remove_nth: "distinct xs \<Longrightarrow> distinct (remove_nth i xs)"
  unfolding remove_nth_def
  by (metis append_take_drop_id distinct_append distinct_drop distinct_take set_drop_subset_set_drop
      le_SucI order_refl set_take_disj_set_drop_if_distinct)

lemma distinct_remove_nth_notin:
  assumes "distinct xs" and "i < length xs"
  shows "xs ! i \<notin> set (remove_nth i xs)"
proof -
  have "xs = take i xs @ xs ! i # drop (Suc i) xs"
    using assms(2) by (rule id_take_nth_drop)
  then have "distinct (take i xs @ xs ! i # drop (Suc i) xs)"
    using assms(1) by simp
  then show ?thesis
    by (auto simp: remove_nth_def)
qed

lemma set_remove_nth_distinct:
  assumes "distinct xs" and "i < length xs"
  shows "set (remove_nth i xs) = set xs - {xs ! i}"
proof -
  have "set xs = set (take i xs @ xs ! i # drop (Suc i) xs)"
    using assms(2) by (metis id_take_nth_drop)
  then have "set xs = insert (xs ! i) (set (remove_nth i xs))"
    by (auto simp: remove_nth_def)
  then show ?thesis
    using distinct_remove_nth_notin [OF assms] by auto
qed


lemma distinct_concat_upt:
  assumes "\<And>i. i < n \<Longrightarrow> distinct (L i)"
    and "\<And>i j. i < n \<Longrightarrow> j < n \<Longrightarrow> i \<noteq> j \<Longrightarrow> set (L i) \<inter> set (L j) = {}"
  shows "distinct (concat (map L [0..<n]))"
  using assms
proof (induction n)
  case 0
  then show ?case by simp
next
  case (Suc n)
  have "distinct (concat (map L [0..<n]))"
    using Suc.prems by (intro Suc.IH) auto
  moreover have "set (L i) \<inter> set (L n) = {}" if "i < n" for i
    using that by (intro Suc.prems(2)) auto
  ultimately show ?case
    using Suc.prems(1) [of n] by (fastforce simp: disjoint_iff)
qed

section \<open>From one step to every run\<close>

text \<open>
  A component with state is a machine: an operation takes the state and either stops or returns a
  reply and the next state. \<open>corre\<close> runs a list of operations, collecting the replies.
\<close>

fun corre :: "('o \<Rightarrow> 's \<Rightarrow> 'e + 'r \<times> 's) \<Rightarrow> 'o list \<Rightarrow> 's \<Rightarrow> 'e + 'r list \<times> 's" where
  "corre opera [] s = Inr ([], s)"
| "corre opera (c # cs) s =
     and_then (opera c s) (\<lambda>(r, t). and_then (corre opera cs t) (\<lambda>(rs, u). Inr (r # rs, u)))"

text \<open>A run of the abstract machine that gives the same replies.\<close>

fun corre_espec :: "('o \<Rightarrow> 'a \<Rightarrow> 'r \<Rightarrow> 'a \<Rightarrow> bool) \<Rightarrow> 'o list \<Rightarrow> 'a \<Rightarrow> 'r list \<Rightarrow> 'a \<Rightarrow> bool" where
  "corre_espec espec [] a rs b = (rs = [] \<and> a = b)"
| "corre_espec espec (c # cs) a [] b = False"
| "corre_espec espec (c # cs) a (r # rs) b = (\<exists>m. espec c a r m \<and> corre_espec espec cs m rs b)"

lemma corre_ConsE:
  assumes "corre opera (c # cs) s = Inr (rs, u)"
  obtains r t rs' where "opera c s = Inr (r, t)" "corre opera cs t = Inr (rs', u)" "rs = r # rs'"
  using assms by (auto simp: and_then_eq_Inr)

text \<open>The interface of a component that keeps an invariant.\<close>

locale invariante =
  fixes opera :: "'o \<Rightarrow> 's \<Rightarrow> 'e + 'r \<times> 's" and inv :: "'s \<Rightarrow> bool"
  assumes inv_opera: "inv s \<Longrightarrow> opera c s = Inr (r, t) \<Longrightarrow> inv t"
begin

lemma inv_corre: "inv s \<Longrightarrow> corre opera cs s = Inr (rs, t) \<Longrightarrow> inv t"
proof (induction cs arbitrary: s rs)
  case Nil
  then show ?case by simp
next
  case (Cons c cs)
  from Cons.prems(2) obtain r m rs' where "opera c s = Inr (r, m)" "corre opera cs m = Inr (rs', t)"
    by (rule corre_ConsE)
  with Cons show ?case by (blast intro: inv_opera)
qed

end

text \<open>The interface of a component whose operations simulate an abstract specification.\<close>

locale refinamiento = invariante opera inv
  for opera :: "'o \<Rightarrow> 's \<Rightarrow> 'e + 'r \<times> 's" and inv :: "'s \<Rightarrow> bool" +
  fixes abstrae :: "'s \<Rightarrow> 'a" and espec :: "'o \<Rightarrow> 'a \<Rightarrow> 'r \<Rightarrow> 'a \<Rightarrow> bool"
  assumes simula: "inv s \<Longrightarrow> opera c s = Inr (r, t) \<Longrightarrow> espec c (abstrae s) r (abstrae t)"
begin

lemma simula_corre:
  "inv s \<Longrightarrow> corre opera cs s = Inr (rs, t) \<Longrightarrow> corre_espec espec cs (abstrae s) rs (abstrae t)"
proof (induction cs arbitrary: s rs)
  case Nil
  then show ?case by simp
next
  case (Cons c cs)
  from Cons.prems(2) obtain r m rs'
    where step: "opera c s = Inr (r, m)" and rest: "corre opera cs m = Inr (rs', t)"
      and rs: "rs = r # rs'"
    by (rule corre_ConsE)
  have "inv m" using Cons.prems(1) step by (rule inv_opera)
  then have "corre_espec espec cs (abstrae m) rs' (abstrae t)" using rest by (rule Cons.IH)
  then show ?case using simula [OF Cons.prems(1) step] rs by auto
qed

end

text \<open>The interface of a component that also answers every request that fits.\<close>

locale servicio = refinamiento opera inv abstrae espec
  for opera :: "'o \<Rightarrow> 's \<Rightarrow> 'e + 'r \<times> 's" and inv :: "'s \<Rightarrow> bool" and abstrae :: "'s \<Rightarrow> 'a"
    and espec :: "'o \<Rightarrow> 'a \<Rightarrow> 'r \<Rightarrow> 'a \<Rightarrow> bool" +
  fixes cabe :: "'o \<Rightarrow> bool"
  assumes progreso: "inv s \<Longrightarrow> cabe c \<Longrightarrow> \<exists>r t. opera c s = Inr (r, t)"
begin

lemma progreso_corre:
  "inv s \<Longrightarrow> \<forall>c\<in>set cs. cabe c \<Longrightarrow> \<exists>rs t. corre opera cs s = Inr (rs, t)"
proof (induction cs arbitrary: s)
  case Nil
  then show ?case by simp
next
  case (Cons c cs)
  then obtain r m where step: "opera c s = Inr (r, m)"
    using progreso [of s c] by auto
  have "inv m" using Cons.prems(1) step by (rule inv_opera)
  then obtain rs t where "corre opera cs m = Inr (rs, t)"
    using Cons.IH [of m] Cons.prems(2) by auto
  with step show ?case by simp
qed

lemma servicio_corre:
  assumes "inv s" and "\<forall>c\<in>set cs. cabe c"
  shows "\<exists>rs t. corre opera cs s = Inr (rs, t) \<and> inv t \<and> corre_espec espec cs (abstrae s) rs (abstrae t)"
  using progreso_corre [OF assms] inv_corre [OF assms(1)] simula_corre [OF assms(1)] by blast

end

section \<open>Interleaved processes\<close>

text \<open>The interface of a step relation that keeps an invariant, and of one that also ends.\<close>

locale sistema =
  fixes paso :: "'s \<Rightarrow> 's \<Rightarrow> bool" and ini :: 's and inv :: "'s \<Rightarrow> bool"
  assumes inv_ini: "inv ini"
    and inv_sig: "paso s t \<Longrightarrow> inv s \<Longrightarrow> inv t"
begin

lemma inv_alcanzable: "paso\<^sup>*\<^sup>* ini s \<Longrightarrow> inv s"
  by (induction rule: rtranclp_induct) (auto intro: inv_ini inv_sig)

end

locale sistema_acotado = sistema paso ini inv
  for paso :: "'s \<Rightarrow> 's \<Rightarrow> bool" and ini :: 's and inv :: "'s \<Rightarrow> bool" +
  fixes medida :: "'s \<Rightarrow> nat"
  assumes decrece: "paso s t \<Longrightarrow> inv s \<Longrightarrow> medida t < medida s"
begin

lemma cota: "(paso ^^ k) ini s \<Longrightarrow> inv s \<and> k + medida s \<le> medida ini"
proof (induction k arbitrary: s)
  case 0
  then have "s = ini" by simp
  then show ?case by (simp add: inv_ini)
next
  case (Suc k)
  then obtain m where m: "(paso ^^ k) ini m" "paso m s" by auto
  from Suc.IH [OF m(1)] decrece [OF m(2)] inv_sig [OF m(2)] show ?case by auto
qed

lemma llega: "paso\<^sup>*\<^sup>* ini s \<Longrightarrow> \<exists>t. paso\<^sup>*\<^sup>* s t \<and> (\<nexists>u. paso t u)"
proof (induction "medida s" arbitrary: s rule: less_induct)
  case less
  show ?case
  proof (cases "\<exists>u. paso s u")
    case True
    then obtain u where u: "paso s u" by blast
    have "medida u < medida s" using u inv_alcanzable [OF less.prems] by (rule decrece)
    from less.hyps [OF this] less.prems u show ?thesis
      by (metis (no_types, lifting) converse_rtranclp_into_rtranclp rtranclp.rtrancl_into_rtrancl)
  qed auto
qed

end

end
