(* ===== verification/Fisop_Inode.thy ===== *)
theory Fisop_Inode
  imports Prelude
begin

text \<open>
  The inode tree of \<^verbatim>\<open>fisopfs/fisopfs.c\<close>: \<^verbatim>\<open>inode_t\<close>, \<^verbatim>\<open>filesystem_t\<close>, the lookups
  \<^verbatim>\<open>buscar_inode\<close> and \<^verbatim>\<open>buscar_padre\<close>, and the two operations that change the shape of the tree,
  \<^verbatim>\<open>agregar_hijo\<close> and \<^verbatim>\<open>eliminar_inode\<close>.

  Every inode but the root sits in exactly one slot of its parent's \<^verbatim>\<open>hijos\<close> array, so the heap of
  inodes is a tree and an \<^verbatim>\<open>inode_t *\<close> is the list of array indices that leads to it from
  \<^verbatim>\<open>fs.raiz\<close>; two pointers are equal when these lists are, and a null pointer is \<^term>\<open>None\<close>.
  No pointer is kept from one FUSE call to the next. The field \<^verbatim>\<open>cantidad_hijos\<close> is the length of
  the array. Sizes, times and modes keep the widths of the 64-bit Linux ABI that fisopfs runs on.
\<close>

section \<open>Data\<close>

record atributos =
  nombre :: string
  modo :: "32 word"
  usuario_id :: "32 word"
  grupo_id :: "32 word"
  tamano :: "64 word"
  acceso :: "64 word"
  modificacion :: "64 word"
  cambio_estado :: "64 word"
  enlaces :: "64 word"
  es_directorio :: "32 word"

datatype inode = Inode (atr: atributos) (contenido: "string option") (hijos: "inode list")

text \<open>
  The host: \<open>tiempo k\<close> is the result of the \<open>k\<close>-th call of \<^verbatim>\<open>time(NULL)\<close>, \<open>basura i\<close> the byte
  that uninitialised memory holds at offset \<open>i\<close>, \<open>realloc_ok n\<close> says whether \<^verbatim>\<open>realloc\<close> finds
  \<open>n\<close> bytes, \<open>abre_escritura\<close> whether \<^verbatim>\<open>fopen(.., "wb")\<close> succeeds and \<open>error_lectura\<close> whether
  the disk file reports a read error. Small allocations (\<^verbatim>\<open>calloc\<close>, \<^verbatim>\<open>strdup\<close>) succeed, which
  is what the code assumes of them.
\<close>

record anfitrion =
  uid :: "32 word"
  gid :: "32 word"
  tiempo :: "nat \<Rightarrow> 64 word"
  basura :: "nat \<Rightarrow> char"
  realloc_ok :: "nat \<Rightarrow> bool"
  abre_escritura :: bool
  error_lectura :: bool

text \<open>
  The file system: the root pointer, the name of the persistence file, the files of the host's disk,
  the number of calls of \<^verbatim>\<open>time\<close> so far, and the host.
\<close>

record filesystem =
  raiz :: "inode option"
  archivo_disco :: "string option"
  disco :: "string \<Rightarrow> string option"
  reloj :: nat
  host :: anfitrion

text \<open>Where the C has undefined behaviour or crashes.\<close>

datatype fallo = PunteroNulo | DesbordePila | DesbordeHeap | HijoNulo | NoInicializado

type_synonym puntero = "nat list"

definition MAX_FILENAME_LENGTH :: nat where "MAX_FILENAME_LENGTH = 64"

definition S_IFDIR :: "32 word" where "S_IFDIR = 0x4000"
definition S_IFREG :: "32 word" where "S_IFREG = 0x8000"

definition ENOENT :: int where "ENOENT = 2"
definition ENOMEM :: int where "ENOMEM = 12"
definition EACCES :: int where "EACCES = 13"
definition EEXIST :: int where "EEXIST = 17"
definition ENOTDIR :: int where "ENOTDIR = 20"
definition EISDIR :: int where "EISDIR = 21"
definition ENOTEMPTY :: int where "ENOTEMPTY = 39"

lemmas errno_defs =
  ENOENT_def ENOMEM_def EACCES_def EEXIST_def ENOTDIR_def EISDIR_def ENOTEMPTY_def

abbreviation es_dir :: "inode \<Rightarrow> bool" where
  "es_dir n \<equiv> es_directorio (atr n) \<noteq> 0"

abbreviation nom :: "inode \<Rightarrow> string" where
  "nom n \<equiv> nombre (atr n)"

definition bytes :: "inode \<Rightarrow> string" where
  "bytes n = (case contenido n of None \<Rightarrow> [] | Some c \<Rightarrow> c)"

lemma bytes_simps [simp]: "bytes (Inode a None hs) = []" "bytes (Inode a (Some c) hs) = c"
  by (simp_all add: bytes_def)

section \<open>Pointers into the tree\<close>

text \<open>Reading through a pointer, and writing through it.\<close>

fun nodo :: "inode \<Rightarrow> puntero \<Rightarrow> inode option" where
  "nodo n [] = Some n"
| "nodo n (i # p) = (if i < length (hijos n) then nodo (hijos n ! i) p else None)"

fun en_nodo :: "(inode \<Rightarrow> inode) \<Rightarrow> puntero \<Rightarrow> inode \<Rightarrow> inode" where
  "en_nodo f [] n = f n"
| "en_nodo f (i # p) n =
     (if i < length (hijos n)
      then Inode (atr n) (contenido n) ((hijos n)[i := en_nodo f p (hijos n ! i)])
      else n)"

definition deref :: "filesystem \<Rightarrow> puntero \<Rightarrow> inode option" where
  "deref s p = (case raiz s of None \<Rightarrow> None | Some r \<Rightarrow> nodo r p)"

definition modifica :: "(inode \<Rightarrow> inode) \<Rightarrow> puntero \<Rightarrow> filesystem \<Rightarrow> filesystem" where
  "modifica f p s = s\<lparr>raiz := map_option (en_nodo f p) (raiz s)\<rparr>"

definition con_atr :: "(atributos \<Rightarrow> atributos) \<Rightarrow> inode \<Rightarrow> inode" where
  "con_atr f n = Inode (f (atr n)) (contenido n) (hijos n)"

definition con_contenido :: "string option \<Rightarrow> inode \<Rightarrow> inode" where
  "con_contenido c n = Inode (atr n) c (hijos n)"

definition con_hijos :: "inode list \<Rightarrow> inode \<Rightarrow> inode" where
  "con_hijos hs n = Inode (atr n) (contenido n) hs"

lemma con_sel [simp]:
  "atr (con_atr f n) = f (atr n)" "contenido (con_atr f n) = contenido n"
  "hijos (con_atr f n) = hijos n"
  "atr (con_contenido c n) = atr n" "contenido (con_contenido c n) = c"
  "hijos (con_contenido c n) = hijos n"
  "atr (con_hijos hs n) = atr n" "contenido (con_hijos hs n) = contenido n"
  "hijos (con_hijos hs n) = hs"
  by (simp_all add: con_atr_def con_contenido_def con_hijos_def)

lemma bytes_con [simp]:
  "bytes (con_atr f n) = bytes n" "bytes (con_hijos hs n) = bytes n"
  "bytes (con_contenido c n) = (case c of None \<Rightarrow> [] | Some b \<Rightarrow> b)"
  by (simp_all add: bytes_def)

text \<open>\<^verbatim>\<open>time(NULL)\<close>: the clock's next reading.\<close>

definition ahora :: "filesystem \<Rightarrow> 64 word" where
  "ahora s = tiempo (host s) (reloj s)"

definition tic :: "filesystem \<Rightarrow> filesystem" where
  "tic s = s\<lparr>reloj := Suc (reloj s)\<rparr>"

section \<open>crear\_inode\<close>

definition crear_inode :: "string \<Rightarrow> 32 word \<Rightarrow> 32 word \<Rightarrow> filesystem \<Rightarrow> inode option \<times> filesystem" where
  "crear_inode nomb md dir s =
     (if length nomb \<ge> MAX_FILENAME_LENGTH then (None, s)
      else
        let t1 = ahora s; s1 = tic s; t2 = ahora s1; s2 = tic s1; t3 = ahora s2; s3 = tic s2
        in (Some (Inode
              \<lparr>nombre = nomb, modo = md, usuario_id = uid (host s), grupo_id = gid (host s),
               tamano = 0, acceso = t1, modificacion = t2, cambio_estado = t3, enlaces = 1,
               es_directorio = dir\<rparr> None []), s3))"

section \<open>buscar\_inode\<close>

text \<open>The tokens that successive calls of \<^verbatim>\<open>strtok(.., "/")\<close> return.\<close>

function tokens :: "string \<Rightarrow> string list" where
  "tokens s =
     (let r = dropWhile (\<lambda>c. c = CHR ''/'') s
      in if r = [] then []
         else takeWhile (\<lambda>c. c \<noteq> CHR ''/'') r # tokens (dropWhile (\<lambda>c. c \<noteq> CHR ''/'') r))"
  by pat_completeness auto
termination
proof (relation "measure length", goal_cases)
  case 1
  show ?case by simp
next
  case (2 s r)
  have "length (dropWhile (\<lambda>c. c \<noteq> CHR ''/'') r) < length r"
  proof (cases r)
    case Nil
    with 2 show ?thesis by simp
  next
    case (Cons a r')
    then have "a \<noteq> CHR ''/''"
      using 2 hd_dropWhile [of "\<lambda>c. c = CHR ''/''" s] by auto
    with Cons show ?thesis by (simp add: le_imp_less_Suc length_dropWhile_le)
  qed
  also have "\<dots> \<le> length s"
    using 2 by (simp add: length_dropWhile_le)
  finally show ?case by simp
qed

declare tokens.simps [simp del]

text \<open>
  The loop of \<^verbatim>\<open>buscar_inode\<close>: it goes down while there is a token and the current inode is a
  directory, so it stops, and returns the inode reached, at the first inode that is not one.
\<close>

definition hijo_llamado :: "string \<Rightarrow> inode \<Rightarrow> nat option" where
  "hijo_llamado t n = first_index (\<lambda>h. nom h = t) (hijos n)"

fun seguir :: "inode \<Rightarrow> string list \<Rightarrow> puntero option" where
  "seguir n [] = Some []"
| "seguir n (t # ts) =
     (if es_dir n
      then (case hijo_llamado t n of
              None \<Rightarrow> None
            | Some i \<Rightarrow> map_option (\<lambda>p. i # p) (seguir (hijos n ! i) ts))
      else Some [])"

definition buscar_inode :: "string \<Rightarrow> filesystem \<Rightarrow> puntero option" where
  "buscar_inode path s =
     (case raiz s of
        None \<Rightarrow> None
      | Some r \<Rightarrow> if path = ''/'' then Some [] else seguir r (tokens path))"

section \<open>buscar\_padre\<close>

text \<open>\<^verbatim>\<open>strrchr(path, '/')\<close>: what stands before the last slash and after it.\<close>

definition ultima_barra :: "string \<Rightarrow> (string \<times> string) option" where
  "ultima_barra path =
     (if CHR ''/'' \<in> set path
      then Some (rev (tl (dropWhile (\<lambda>c. c \<noteq> CHR ''/'') (rev path))),
                 rev (takeWhile (\<lambda>c. c \<noteq> CHR ''/'') (rev path)))
      else None)"

text \<open>
  \<^verbatim>\<open>nombre_out\<close> is an array of \<^verbatim>\<open>MAX_FILENAME_LENGTH\<close> bytes on the caller's stack, and the
  \<^verbatim>\<open>strcpy\<close> into it is unchecked.
\<close>

definition buscar_padre :: "string \<Rightarrow> filesystem \<Rightarrow> fallo + (puntero option \<times> string)" where
  "buscar_padre path s =
     (case ultima_barra path of
        None \<Rightarrow> Inr (None, [])
      | Some (prefijo, ultimo) \<Rightarrow>
          if path = ''/'' then Inr (None, [])
          else check_that (length ultimo < MAX_FILENAME_LENGTH) DesbordePila
            (if prefijo = [] then Inr (map_option (\<lambda>r. []) (raiz s), ultimo)
             else Inr (buscar_inode prefijo s, ultimo)))"

section \<open>agregar\_hijo and eliminar\_inode\<close>

definition agregar_hijo :: "puntero option \<Rightarrow> inode option \<Rightarrow> filesystem \<Rightarrow> fallo + (int \<times> filesystem)" where
  "agregar_hijo padre hijo s =
     (case padre of
        None \<Rightarrow> Inr (- ENOTDIR, s)
      | Some p \<Rightarrow>
          (case deref s p of
             None \<Rightarrow> Inl PunteroNulo
           | Some n \<Rightarrow>
               if \<not> es_dir n then Inr (- ENOTDIR, s)
               else
                 (case hijo of
                    None \<Rightarrow> Inl HijoNulo
                  | Some h \<Rightarrow>
                      Inr (0, tic (modifica
                        (\<lambda>n. con_atr (\<lambda>a. a\<lparr>modificacion := ahora s\<rparr>)
                               (con_hijos (hijos n @ [h]) n)) p s)))))"

text \<open>
  A null \<^verbatim>\<open>hijo\<close> would be stored in the array and dereferenced by the next lookup in this
  directory; the model reports \<^const>\<open>HijoNulo\<close> at once. \<^verbatim>\<open>eliminar_inode\<close> finds the child by
  pointer: \<open>target\<close> is a child of \<open>padre\<close> when it is \<open>padre\<close> followed by an index.
\<close>

definition eliminar_inode :: "puntero option \<Rightarrow> puntero \<Rightarrow> filesystem \<Rightarrow> fallo + filesystem" where
  "eliminar_inode padre target s =
     (case padre of
        None \<Rightarrow> Inr s
      | Some p \<Rightarrow>
          (case deref s p of
             None \<Rightarrow> Inl PunteroNulo
           | Some n \<Rightarrow>
               if \<not> es_dir n then Inr s
               else
                 (case first_index (\<lambda>i. p @ [i] = target) [0..<length (hijos n)] of
                    None \<Rightarrow> Inr s
                  | Some i \<Rightarrow>
                      Inr (tic (modifica
                        (\<lambda>n. con_atr (\<lambda>a. a\<lparr>modificacion := ahora s\<rparr>)
                               (con_hijos (remove_nth i (hijos n)) n)) p s)))))"

end
