(* ===== verification/Fisop_Vista.thy ===== *)
theory Fisop_Vista
  imports Fisop_Inode
begin

text \<open>
  The abstract view of the inode tree: a partial map from paths (lists of names) to entries, an
  entry being a directory or the bytes of a file. This theory holds the invariant of the tree, the
  laws that relate pointers, lookups and the view, and the effect of each tree operation on the
  view.
\<close>

section \<open>Paths\<close>

definition componente_ok :: "string \<Rightarrow> bool" where
  "componente_ok t \<longleftrightarrow> t \<noteq> [] \<and> CHR ''/'' \<notin> set t"

definition nombre_ok :: "string \<Rightarrow> bool" where
  "nombre_ok t \<longleftrightarrow> componente_ok t \<and> length t < MAX_FILENAME_LENGTH"

text \<open>The path string that FUSE passes for a list of names.\<close>

definition ruta :: "string list \<Rightarrow> string" where
  "ruta ts = (if ts = [] then ''/'' else concat (map (\<lambda>t. CHR ''/'' # t) ts))"

lemma tokens_Nil [simp]: "tokens [] = []"
  by (subst tokens.simps) simp

lemma tokens_slash [simp]: "tokens (CHR ''/'' # s) = tokens s"
  by (subst (1 2) tokens.simps) simp

lemma tokens_component:
  assumes "componente_ok t" and "r = [] \<or> hd r = CHR ''/''"
  shows "tokens (t @ r) = t # tokens r"
proof -
  have t: "t \<noteq> []" "\<And>c. c \<in> set t \<Longrightarrow> c \<noteq> CHR ''/''"
    using assms(1) by (auto simp: componente_ok_def)
  have drop: "dropWhile (\<lambda>c. c = CHR ''/'') (t @ r) = t @ r"
    using t by (cases t) auto
  have take: "takeWhile (\<lambda>c. c \<noteq> CHR ''/'') (t @ r) = t"
    using t(2) assms(2) by (cases r) (auto simp: takeWhile_append)
  have rest: "dropWhile (\<lambda>c. c \<noteq> CHR ''/'') (t @ r) = r"
    using t(2) assms(2) by (cases r) (auto simp: dropWhile_append)
  show ?thesis
    by (subst tokens.simps) (simp add: drop take rest t(1))
qed

lemma tokens_concat:
  "\<forall>t\<in>set ts. componente_ok t \<Longrightarrow> tokens (concat (map (\<lambda>t. CHR ''/'' # t) ts)) = ts"
proof (induction ts)
  case Nil
  then show ?case by simp
next
  case (Cons t ts)
  have "tokens (t @ concat (map (\<lambda>t. CHR ''/'' # t) ts))
        = t # tokens (concat (map (\<lambda>t. CHR ''/'' # t) ts))"
    by (rule tokens_component) (use Cons.prems in \<open>cases ts; auto\<close>)+
  then show ?case using Cons by simp
qed

lemma tokens_ruta: "\<forall>t\<in>set ts. componente_ok t \<Longrightarrow> tokens (ruta ts) = ts"
  by (simp add: ruta_def tokens_concat)

lemma ruta_snoc_not_root:
  assumes "componente_ok t"
  shows "ruta (ts @ [t]) \<noteq> ''/''"
proof -
  have "length (ruta (ts @ [t])) \<ge> length t + 1"
    by (simp add: ruta_def)
  moreover have "length t > 0" using assms by (simp add: componente_ok_def)
  ultimately show ?thesis by (metis One_nat_def Suc_eq_plus1 length_Cons list.size(3) not_less_eq_eq
      less_eq_Suc_le Suc_leI)
qed

lemma ultima_barra_ruta:
  assumes "componente_ok t"
  shows "ultima_barra (ruta (ts @ [t])) = Some (if ts = [] then [] else ruta ts, t)"
proof -
  have noslash: "\<forall>c\<in>set (rev t). c \<noteq> CHR ''/''"
    using assms by (auto simp: componente_ok_def)
  let ?P = "concat (map (\<lambda>t. CHR ''/'' # t) ts)"
  have r: "rev (ruta (ts @ [t])) = rev t @ CHR ''/'' # rev ?P"
    by (simp add: ruta_def)
  have "takeWhile (\<lambda>c. c \<noteq> CHR ''/'') (rev t @ CHR ''/'' # rev ?P) = rev t"
    using noslash by (subst takeWhile_append2) auto
  moreover have "dropWhile (\<lambda>c. c \<noteq> CHR ''/'') (rev t @ CHR ''/'' # rev ?P) = CHR ''/'' # rev ?P"
    using noslash by (subst dropWhile_append2) auto
  moreover have "CHR ''/'' \<in> set (ruta (ts @ [t]))"
    by (simp add: ruta_def)
  ultimately show ?thesis
    unfolding ultima_barra_def r by (simp add: ruta_def)
qed

section \<open>The invariant of the tree\<close>

text \<open>
  A directory has no contents, size 0 and children with distinct proper names; a file has no
  children and as many bytes as its size says; every inode has one link.
\<close>

fun inode_ok :: "inode \<Rightarrow> bool" where
  "inode_ok (Inode a c hs) \<longleftrightarrow>
     enlaces a = 1 \<and>
     (if es_directorio a \<noteq> 0
      then c = None \<and> tamano a = 0 \<and> distinct (map nom hs) \<and>
           (\<forall>h\<in>set hs. nombre_ok (nom h) \<and> inode_ok h)
      else hs = [] \<and> length (case c of None \<Rightarrow> [] | Some b \<Rightarrow> b) = unat (tamano a))"

lemma inode_ok_iff:
  "inode_ok n \<longleftrightarrow>
     enlaces (atr n) = 1 \<and>
     (if es_dir n
      then contenido n = None \<and> tamano (atr n) = 0 \<and> distinct (map nom (hijos n)) \<and>
           (\<forall>h\<in>set (hijos n). nombre_ok (nom h) \<and> inode_ok h)
      else hijos n = [] \<and> length (bytes n) = unat (tamano (atr n)))"
  by (cases n) (simp add: bytes_def)

declare inode_ok.simps [simp del]

lemma inode_ok_child: "inode_ok n \<Longrightarrow> i < length (hijos n) \<Longrightarrow> inode_ok (hijos n ! i)"
  by (subst (asm) inode_ok_iff) (auto split: if_splits)

lemma inode_ok_nodo: "inode_ok n \<Longrightarrow> nodo n p = Some m \<Longrightarrow> inode_ok m"
  by (induction n p rule: nodo.induct) (auto simp: inode_ok_child split: if_splits)

lemma en_nodo_nom: "(p = [] \<Longrightarrow> nom (f n) = nom n) \<Longrightarrow> nom (en_nodo f p n) = nom n"
  by (cases p) auto

lemma map_update_same: "i < length xs \<Longrightarrow> g v = g (xs ! i) \<Longrightarrow> map g (xs[i := v]) = map g xs"
  by (simp add: map_update list_update_same_conv)

lemma inode_ok_en_nodo:
  assumes "inode_ok n" and "nodo n p = Some m" and "inode_ok (f m)" and "nom (f m) = nom m"
  shows "inode_ok (en_nodo f p n)"
  using assms
proof (induction n p rule: nodo.induct)
  case (1 n)
  then show ?case by simp
next
  case (2 n i p)
  then have i: "i < length (hijos n)" and m: "nodo (hijos n ! i) p = Some m"
    by (auto split: if_splits)
  let ?h = "en_nodo f p (hijos n ! i)"
  have ok: "inode_ok ?h"
    using 2 i m by (auto intro: inode_ok_child)
  have nom: "nom ?h = nom (hijos n ! i)"
    using 2(5) m by (intro en_nodo_nom) auto
  have "es_dir n"
    using 2(2) i by (subst (asm) inode_ok_iff) (auto split: if_splits)
  with 2(2) i ok nom show ?case
    by (subst inode_ok_iff, subst (asm) inode_ok_iff)
       (auto simp: map_update_same dest!: set_update_subset_insert [THEN subsetD])
qed

section \<open>The view\<close>

datatype entrada = EDir | EArch string

definition entrada_de :: "inode \<Rightarrow> entrada" where
  "entrada_de n = (if es_dir n then EDir else EArch (bytes n))"

fun vista :: "inode \<Rightarrow> string list \<Rightarrow> entrada option" where
  "vista n [] = Some (entrada_de n)"
| "vista n (t # ts) =
     (if es_dir n
      then (case hijo_llamado t n of None \<Rightarrow> None | Some i \<Rightarrow> vista (hijos n ! i) ts)
      else None)"

text \<open>
  The path at which a lookup of \<open>ts\<close> stops: the code goes down no further than the first file on
  the way, so it answers for that file.
\<close>

fun resuelve :: "(string list \<Rightarrow> entrada option) \<Rightarrow> string list \<Rightarrow> string list" where
  "resuelve a [] = []"
| "resuelve a (t # ts) =
     (case a [] of Some (EArch c) \<Rightarrow> [] | _ \<Rightarrow> t # resuelve (\<lambda>us. a (t # us)) ts)"

lemma resuelve_Nil: "a [] = Some (EArch c) \<Longrightarrow> resuelve a ts = []"
  by (cases ts) auto

lemma resuelve_None: "resuelve (\<lambda>us. None) ts = ts"
  by (induction ts) auto

lemma vista_archivo_final: "vista n ts = Some (EArch c) \<Longrightarrow> us \<noteq> [] \<Longrightarrow> vista n (ts @ us) = None"
  by (induction ts arbitrary: n)
     (auto simp: entrada_de_def neq_Nil_conv split: if_splits option.splits)

lemma resuelve_archivo:
  "vista n ts = Some (EArch c) \<Longrightarrow> resuelve (vista n) (ts @ us) = ts"
  by (induction ts arbitrary: n)
     (auto simp: entrada_de_def resuelve_Nil split: if_splits option.splits)

lemma hijo_llamado_lt: "hijo_llamado t n = Some i \<Longrightarrow> i < length (hijos n)"
  and hijo_llamado_nom: "hijo_llamado t n = Some i \<Longrightarrow> nom (hijos n ! i) = t"
  by (auto simp: hijo_llamado_def dest: first_index_lt first_index_P)

lemma resuelve_vista:
  "resuelve (vista n) ts = (case seguir n ts of None \<Rightarrow> ts | Some p \<Rightarrow> take (length p) ts)"
proof (induction ts arbitrary: n)
  case Nil
  then show ?case by simp
next
  case (Cons t ts)
  show ?case
  proof (cases "es_dir n \<and> (\<exists>i. hijo_llamado t n = Some i)")
    case True
    then obtain i where i: "hijo_llamado t n = Some i" and d: "es_dir n" by blast
    have "(\<lambda>us. vista n (t # us)) = vista (hijos n ! i)"
      using i d by auto
    then show ?thesis
      using i d Cons.IH [of "hijos n ! i"]
      by (auto simp: entrada_de_def split: option.splits)
  next
    case False
    then show ?thesis
      by (auto simp: entrada_de_def resuelve_None split: option.splits)
  qed
qed

lemma seguir_Some:
  assumes "seguir n ts = Some p"
  obtains m where "nodo n p = Some m" "length p \<le> length ts"
    "vista n (take (length p) ts) = Some (entrada_de m)"
    "seguir n (take (length p) ts) = Some p" "length p < length ts \<longrightarrow> \<not> es_dir m"
  using assms
proof (induction ts arbitrary: n p thesis)
  case Nil
  then show ?case by (auto simp: entrada_de_def)
next
  case (Cons t ts)
  show ?case
  proof (cases "es_dir n")
    case False
    with Cons.prems show ?thesis by (auto simp: entrada_de_def)
  next
    case True
    with Cons.prems(2) obtain i q
      where i: "hijo_llamado t n = Some i" and q: "seguir (hijos n ! i) ts = Some q" and p: "p = i # q"
      by (auto split: option.splits)
    from Cons.IH [OF _ q] obtain m where m: "nodo (hijos n ! i) q = Some m" "length q \<le> length ts"
      "vista (hijos n ! i) (take (length q) ts) = Some (entrada_de m)"
      "seguir (hijos n ! i) (take (length q) ts) = Some q" "length q < length ts \<longrightarrow> \<not> es_dir m"
      by blast
    show ?thesis
      by (rule Cons.prems(1) [of m]) (use True i p m hijo_llamado_lt [OF i] in auto)
  qed
qed

lemma seguir_None_vista: "seguir n ts = None \<Longrightarrow> vista n ts = None"
  by (induction ts arbitrary: n) (auto split: option.splits if_splits)

lemma seguir_vista:
  assumes "vista n ts = Some e"
  shows "\<exists>p m. seguir n ts = Some p \<and> nodo n p = Some m \<and> e = entrada_de m \<and> length p = length ts"
  using assms
proof (induction ts arbitrary: n)
  case Nil
  then show ?case by simp
next
  case (Cons t ts)
  then obtain i where d: "es_dir n" and i: "hijo_llamado t n = Some i"
    and v: "vista (hijos n ! i) ts = Some e"
    by (auto split: if_splits option.splits)
  from Cons.IH [OF v] obtain q m where "seguir (hijos n ! i) ts = Some q"
    "nodo (hijos n ! i) q = Some m" "e = entrada_de m" "length q = length ts" by blast
  then show ?case
    using d i hijo_llamado_lt [OF i] by (intro exI [of _ "i # q"] exI [of _ m]) auto
qed

lemma seguir_dir_full:
  assumes "seguir n ts = Some p" and "nodo n p = Some m" and "es_dir m"
  shows "length p = length ts" and "vista n ts = Some EDir"
proof -
  from assms obtain "length p \<le> length ts" "vista n (take (length p) ts) = Some (entrada_de m)"
    "length p < length ts \<longrightarrow> \<not> es_dir m"
    by (metis option.sel seguir_Some)
  with assms(3) show "length p = length ts" "vista n ts = Some EDir"
    by (auto simp: entrada_de_def)
qed

section \<open>The effect of a write through a pointer on the view\<close>

lemma vista_en_nodo:
  assumes "seguir n ts = Some p" and "length p = length ts" and "nodo n p = Some m"
    and "nom (f m) = nom m"
  shows "vista (en_nodo f p n) us =
    (if take (length ts) us = ts then vista (f m) (drop (length ts) us) else vista n us)"
  using assms
proof (induction ts arbitrary: n p us)
  case Nil
  then show ?case by simp
next
  case (Cons t ts)
  then obtain i q where d: "es_dir n" and i: "hijo_llamado t n = Some i"
    and q: "seguir (hijos n ! i) ts = Some q" and p: "p = i # q" and len: "length q = length ts"
    by (auto split: if_splits option.splits)
  have lt: "i < length (hijos n)" using i by (rule hijo_llamado_lt)
  with Cons.prems(3) p have m: "nodo (hijos n ! i) q = Some m" by simp
  let ?h = "en_nodo f q (hijos n ! i)"
  have nomh: "nom ?h = nom (hijos n ! i)"
    using m Cons.prems(4) by (intro en_nodo_nom) auto
  have same: "hijo_llamado u (en_nodo f p n) = hijo_llamado u n" for u
    using lt nomh by (simp add: p hijo_llamado_def first_index_update)
  show ?case
  proof (cases us)
    case Nil
    then show ?thesis using p lt by (simp add: entrada_de_def bytes_def)
  next
    case (Cons u us')
    have IH: "vista ?h us' = (if take (length ts) us' = ts
        then vista (f m) (drop (length ts) us') else vista (hijos n ! i) us')"
      using Cons.IH [OF q len m Cons.prems(4)] .
    show ?thesis
    proof (cases "hijo_llamado u n")
      case None
      with i have "u \<noteq> t" by auto
      with None d lt p Cons same show ?thesis by (simp add: p)
    next
      case (Some j)
      show ?thesis
      proof (cases "u = t")
        case True
        with i Some have "j = i" by simp
        with True Some d lt p Cons same [of u] IH show ?thesis by simp
      next
        case False
        with i Some have ji: "j \<noteq> i" by (metis hijo_llamado_nom)
        then have "hijos (en_nodo f p n) ! j = hijos n ! j" using lt p by simp
        with False Some d lt Cons same [of u] show ?thesis by (simp add: p)
      qed
    qed
  qed
qed

text \<open>A new child, a child less and new contents, seen from the directory or file itself.\<close>

lemma vista_con_hijos_append:
  assumes "es_dir m" and "hijo_llamado t m = None" and "nom h = t"
    and "es_directorio (g (atr m)) = es_directorio (atr m)"
  shows "vista (con_atr g (con_hijos (hijos m @ [h]) m)) vs =
    (case vs of [] \<Rightarrow> vista m vs
     | v # vs' \<Rightarrow> if v = t then vista h vs' else vista m vs)"
proof (cases vs)
  case Nil
  then show ?thesis using assms by (simp add: entrada_de_def)
next
  case (Cons v vs')
  have "hijo_llamado v (con_atr g (con_hijos (hijos m @ [h]) m)) =
      (if v = t then Some (length (hijos m)) else hijo_llamado v m)"
    using assms(2,3) by (auto simp: hijo_llamado_def first_index_snoc split: option.split)
  then show ?thesis
    using Cons assms by (auto simp: nth_append split: option.splits dest: hijo_llamado_lt)
qed

lemma vista_con_hijos_remove:
  assumes d: "es_dir m" and dist: "distinct (map nom (hijos m))" and i: "i < length (hijos m)"
    and dg: "es_directorio (g (atr m)) = es_directorio (atr m)"
  shows "vista (con_atr g (con_hijos (remove_nth i (hijos m)) m)) vs =
    (case vs of [] \<Rightarrow> vista m vs
     | v # vs' \<Rightarrow> if v = nom (hijos m ! i) then None else vista m vs)"
proof (cases vs)
  case Nil
  then show ?thesis using d dg by (simp add: entrada_de_def)
next
  case (Cons v vs')
  let ?m = "con_atr g (con_hijos (remove_nth i (hijos m)) m)"
  show ?thesis
  proof (cases "v = nom (hijos m ! i)")
    case True
    have "v \<notin> nom ` set (remove_nth i (hijos m))"
      using distinct_remove_nth_notin [OF dist, of i] i True
      by (simp flip: map_remove_nth)
    then have "hijo_llamado v ?m = None"
      by (auto simp: hijo_llamado_def first_index_None)
    with True Cons d dg show ?thesis by simp
  next
    case False
    show ?thesis
    proof (cases "hijo_llamado v m")
      case None
      then have "hijo_llamado v ?m = None"
        using set_remove_nth [of i "hijos m"] by (auto simp: hijo_llamado_def first_index_None)
      with None False Cons d dg show ?thesis by simp
    next
      case (Some j)
      have j: "j < length (hijos m)" "nom (hijos m ! j) = v"
        using Some by (auto dest: hijo_llamado_lt hijo_llamado_nom)
      with False have ji: "j \<noteq> i" by auto
      define k where "k = (if j < i then j else j - 1)"
      have k: "k < length (remove_nth i (hijos m))" "remove_nth i (hijos m) ! k = hijos m ! j"
        using j(1) i ji by (auto simp: k_def nth_remove_nth)
      have "distinct (map nom (remove_nth i (hijos m)))"
        using dist by (simp add: map_remove_nth distinct_remove_nth)
      then have "first_index (\<lambda>h. nom h = nom (remove_nth i (hijos m) ! k)) (remove_nth i (hijos m)) = Some k"
        using k(1) by (rule first_index_distinct)
      then have "hijo_llamado v ?m = Some k"
        using j k by (simp add: hijo_llamado_def)
      with False Cons d dg Some k show ?thesis by simp
    qed
  qed
qed

lemma vista_hoja:
  "\<not> es_dir m \<or> hijos m = [] \<Longrightarrow> vista m vs = (if vs = [] then Some (entrada_de m) else None)"
  by (cases vs) (auto simp: hijo_llamado_def)

end
