(* ===== verification/Fisop_Persist.thy ===== *)
theory Fisop_Persist
  imports Fisop_Vista "HOL-Library.Monad_Syntax"
begin

text \<open>
  Persistence in \<^verbatim>\<open>fisopfs/fisopfs.c\<close>: \<^verbatim>\<open>guardar_inode\<close> and \<^verbatim>\<open>cargar_inode\<close> (the binary
  format of the disk file), \<^verbatim>\<open>liberar_inode\<close>, \<^verbatim>\<open>guardar_fs\<close> and \<^verbatim>\<open>cargar_fs\<close>. The main
  facts: loading what was saved gives the same tree up to the representation of empty contents, and
  freeing a tree frees every block of it exactly once.

  \<^verbatim>\<open>fwrite\<close> is taken to write everything it is given. A short \<^verbatim>\<open>fread\<close> leaves \<^verbatim>\<open>nombre_len\<close>
  uninitialised, which the model reports as \<^const>\<open>NoInicializado\<close>.
\<close>

section \<open>Little-endian numbers\<close>

fun le :: "nat \<Rightarrow> nat \<Rightarrow> string" where
  "le 0 n = []"
| "le (Suc k) n = char_of n # le k (n div 256)"

fun unle :: "string \<Rightarrow> nat" where
  "unle [] = 0"
| "unle (c # cs) = of_char c + 256 * unle cs"

lemma length_le [simp]: "length (le k n) = k"
  by (induction k arbitrary: n) auto

lemma unle_le: "unle (le k n) = n mod 256 ^ k"
  by (induction k arbitrary: n)
     (simp_all add: mod_mult2_eq mult.commute)

lemma unle_le_unat:
  fixes w :: "'a::len word"
  assumes "LENGTH('a) \<le> 8 * k"
  shows "unle (le k (unat w)) = unat w"
proof -
  have "unat w < 2 ^ LENGTH('a)" by (rule unsigned_less)
  also have "\<dots> \<le> 2 ^ (8 * k)" using assms by (intro power_increasing) auto
  also have "\<dots> = 256 ^ k" by (simp add: power_mult)
  finally show ?thesis by (simp add: unle_le)
qed

section \<open>guardar\_inode\<close>

text \<open>The \<^verbatim>\<open>sizeof\<close> of each field; \<^verbatim>\<open>enlaces\<close>, an 8-byte \<^verbatim>\<open>nlink_t\<close>, is written as an \<^verbatim>\<open>int\<close>.\<close>

definition cabecera :: "atributos \<Rightarrow> string" where
  "cabecera a =
     le 4 (unat (modo a)) @ le 4 (unat (usuario_id a)) @ le 4 (unat (grupo_id a)) @
     le 8 (unat (tamano a)) @ le 8 (unat (acceso a)) @ le 8 (unat (modificacion a)) @
     le 8 (unat (cambio_estado a)) @ le 4 (unat (enlaces a)) @ le 4 (unat (es_directorio a)) @
     le 8 (length (nombre a)) @ nombre a"

fun guardar_inode :: "inode \<Rightarrow> fallo + string"
  and guardar_hijos :: "inode list \<Rightarrow> fallo + string" where
  "guardar_inode (Inode a c hs) =
     (if es_directorio a \<noteq> 0
      then and_then (guardar_hijos hs) (\<lambda>bs. Inr (cabecera a @ le 8 (length hs) @ bs))
      else let b = (case c of None \<Rightarrow> [] | Some b \<Rightarrow> b)
           in check_that (unat (tamano a) \<le> length b) DesbordeHeap
                (Inr (cabecera a @ take (unat (tamano a)) b)))"
| "guardar_hijos [] = Inr []"
| "guardar_hijos (h # hs) =
     and_then (guardar_inode h) (\<lambda>b. and_then (guardar_hijos hs) (\<lambda>bs. Inr (b @ bs)))"

section \<open>cargar\_inode\<close>

definition lee :: "nat \<Rightarrow> string \<Rightarrow> (string \<times> string) option" where
  "lee k s = (if length s < k then None else Some (take k s, drop k s))"

definition lee_num :: "nat \<Rightarrow> string \<Rightarrow> (nat \<times> string) option" where
  "lee_num k s = map_option (\<lambda>(b, r). (unle b, r)) (lee k s)"

text \<open>
  The recursion goes to whatever depth the file says, so it carries fuel; the length of the file is
  enough, as every inode takes at least one byte of it.
\<close>

fun cargar_inode :: "nat \<Rightarrow> string \<Rightarrow> (inode \<times> string) option"
  and cargar_hijos :: "nat \<Rightarrow> nat \<Rightarrow> string \<Rightarrow> (inode list \<times> string) option" where
  "cargar_inode 0 s = None"
| "cargar_inode (Suc f) s = do {
     (md, s) \<leftarrow> lee_num 4 s;
     (us, s) \<leftarrow> lee_num 4 s;
     (gr, s) \<leftarrow> lee_num 4 s;
     (tam, s) \<leftarrow> lee_num 8 s;
     (ac, s) \<leftarrow> lee_num 8 s;
     (mo, s) \<leftarrow> lee_num 8 s;
     (ca, s) \<leftarrow> lee_num 8 s;
     (en, s) \<leftarrow> lee_num 4 s;
     (di, s) \<leftarrow> lee_num 4 s;
     (len, s) \<leftarrow> lee_num 8 s;
     (nomb, s) \<leftarrow> lee len s;
     let a = \<lparr>nombre = nomb, modo = of_nat md, usuario_id = of_nat us, grupo_id = of_nat gr,
              tamano = of_nat tam, acceso = of_nat ac, modificacion = of_nat mo,
              cambio_estado = of_nat ca, enlaces = of_nat en, es_directorio = of_nat di\<rparr>;
     if es_directorio a \<noteq> 0
     then do {
       (k, s) \<leftarrow> lee_num 8 s;
       (hs, s) \<leftarrow> cargar_hijos f k s;
       Some (Inode a None hs, s)
     }
     else do {
       (b, s) \<leftarrow> lee tam s;
       Some (Inode a (Some b) [], s)
     }
   }"
| "cargar_hijos f 0 s = Some ([], s)"
| "cargar_hijos 0 (Suc k) s = None"
| "cargar_hijos (Suc f) (Suc k) s = do {
     (h, s) \<leftarrow> cargar_inode f s;
     (hs, s) \<leftarrow> cargar_hijos f k s;
     Some (h # hs, s)
   }"

section \<open>liberar\_inode\<close>

text \<open>The heap blocks an inode owns, and the order in which they are freed.\<close>

datatype bloque = BNombre puntero | BHijos puntero | BContenido puntero | BNodo puntero

function liberar_inode :: "puntero \<Rightarrow> inode \<Rightarrow> bloque list" where
  "liberar_inode p (Inode a c hs) =
     BNombre p #
     (if es_directorio a \<noteq> 0
      then concat (map (\<lambda>i. if i < length hs then liberar_inode (p @ [i]) (hs ! i) else [])
             [0..<length hs]) @ [BHijos p]
      else [BContenido p]) @ [BNodo p]"
  by pat_completeness auto
termination
  by (relation "measure (size \<circ> snd)") (auto simp: less_Suc_eq_le intro: size_list_estimation' [OF nth_mem])

section \<open>guardar\_fs and cargar\_fs\<close>

definition guardar_fs :: "filesystem \<Rightarrow> fallo + filesystem" where
  "guardar_fs s =
     (case archivo_disco s of
        None \<Rightarrow> Inl PunteroNulo
      | Some f \<Rightarrow>
          if \<not> abre_escritura (host s) then Inr s
          else
            (case raiz s of
               None \<Rightarrow> Inl PunteroNulo
             | Some r \<Rightarrow>
                 and_then (guardar_inode r) (\<lambda>b. Inr (s\<lparr>disco := (disco s)(f \<mapsto> b)\<rparr>))))"

definition nueva_raiz :: "filesystem \<Rightarrow> filesystem" where
  "nueva_raiz s =
     (let (r, s') = crear_inode ''/'' (S_IFDIR OR 493) 1 s in s'\<lparr>raiz := r\<rparr>)"

definition cargar_fs :: "filesystem \<Rightarrow> fallo + filesystem" where
  "cargar_fs s =
     (case archivo_disco s of
        None \<Rightarrow> Inr (nueva_raiz s)
      | Some f \<Rightarrow>
          (case disco s f of
             None \<Rightarrow> Inr (nueva_raiz s)
           | Some img \<Rightarrow>
               (case cargar_inode (length img) img of
                  None \<Rightarrow> Inl NoInicializado
                | Some (r, _) \<Rightarrow>
                    if error_lectura (host s) then Inr (s\<lparr>raiz := None\<rparr>)
                    else Inr (s\<lparr>raiz := Some r\<rparr>))))"

section \<open>Saving a well-formed tree\<close>

text \<open>The tree a load gives back: a file with no contents gets an empty block.\<close>

fun recargado :: "inode \<Rightarrow> inode" where
  "recargado (Inode a c hs) =
     Inode a (if es_directorio a \<noteq> 0 then c else Some (case c of None \<Rightarrow> [] | Some b \<Rightarrow> b))
       (map recargado hs)"

text \<open>The number of children fits in a \<^verbatim>\<open>size_t\<close>.\<close>

fun cabe :: "inode \<Rightarrow> bool" where
  "cabe (Inode a c hs) \<longleftrightarrow> length hs < 2 ^ 64 \<and> (\<forall>h\<in>set hs. cabe h)"

lemma guardar_total:
  "inode_ok n \<Longrightarrow> \<exists>b. guardar_inode n = Inr b"
  "\<forall>h\<in>set hs. inode_ok h \<Longrightarrow> \<exists>b. guardar_hijos hs = Inr b"
  by (induction n and hs rule: guardar_inode_guardar_hijos.induct)
     (auto simp: inode_ok.simps and_then_eq_Inr)

lemma lee_num_le [simp]: "lee_num k (le k n @ r) = Some (n mod 256 ^ k, r)"
  by (simp add: lee_num_def lee_def unle_le)

lemma lee_append [simp]: "lee (length b) (b @ r) = Some (b, r)"
  by (simp add: lee_def)

lemma lee_num_le_unat [simp]:
  fixes w :: "'a::len word"
  assumes "LENGTH('a) \<le> 8 * k"
  shows "lee_num k (le k (unat w) @ r) = Some (unat w, r)"
  using unle_le_unat [OF assms, of w] by (simp add: unle_le)

lemma lee_num_8_length [simp]:
  "n < 2 ^ 64 \<Longrightarrow> lee_num 8 (le 8 n @ r) = Some (n, r)"
  by simp

text \<open>The header of an inode, read back.\<close>

lemma cargar_cabecera:
  assumes "length (nombre a) < 2 ^ 64" and "enlaces a = 1"
  shows "cargar_inode (Suc f) (cabecera a @ r) =
    (if es_directorio a \<noteq> 0
     then do {
       (k, s) \<leftarrow> lee_num 8 r; (hs, s) \<leftarrow> cargar_hijos f k s; Some (Inode a None hs, s)
     }
     else do { (b, s) \<leftarrow> lee (unat (tamano a)) r; Some (Inode a (Some b) [], s) })"
proof -
  have en: "lee_num 4 (le 4 (Suc 0) @ x) = Some (Suc 0, x)" for x
    by simp
  have nom: "lee_num 8 (le 8 (length (nombre a)) @ x) = Some (length (nombre a), x)" for x
    using assms(1) by (rule lee_num_8_length)
  show ?thesis
    using nom assms(2)
    by (cases a) (simp add: cabecera_def en del: lee_num_le lee_num_8_length)
qed

lemma length_cabecera: "2 \<le> length (cabecera a)"
  by (simp add: cabecera_def)

lemma nombre_ok_length:
  "nombre_ok t \<Longrightarrow> length t < 2 ^ 64" "nombre_ok t \<Longrightarrow> length t < 18446744073709551616"
  by (simp_all add: nombre_ok_def MAX_FILENAME_LENGTH_def)

lemma guardar_nonempty: "guardar_inode n = Inr b \<Longrightarrow> 1 \<le> length b"
  using length_cabecera [of "atr n"]
  by (cases n) (auto simp: and_then_eq_Inr Let_def split: if_splits)

lemma cargar_guardar_aux:
  "guardar_inode n = Inr b \<Longrightarrow> inode_ok n \<Longrightarrow> cabe n \<Longrightarrow> length (nom n) < 2 ^ 64 \<Longrightarrow>
   length b \<le> f \<Longrightarrow> cargar_inode f (b @ r) = Some (recargado n, r)"
  "guardar_hijos hs = Inr b \<Longrightarrow> \<forall>h\<in>set hs. inode_ok h \<and> cabe h \<and> length (nom h) < 2 ^ 64 \<Longrightarrow>
   length b < f \<Longrightarrow> cargar_hijos f (length hs) (b @ r) = Some (map recargado hs, r)"
proof (induction n and hs arbitrary: b f r and b f r rule: guardar_inode_guardar_hijos.induct)
  case (1 a c hs)
  have en: "enlaces a = 1" using 1 by (simp add: inode_ok.simps)
  have "2 \<le> length b" using 1(2) length_cabecera [of a] by (auto simp: and_then_eq_Inr Let_def split: if_splits)
  with 1 obtain g where f: "f = Suc g" by (cases f) auto
  have nom: "length (nombre a) < 2 ^ 64" using 1 by simp
  note hd = cargar_cabecera [OF nom en]
  show ?case
  proof (cases "es_directorio a \<noteq> 0")
    case True
    with 1(2) obtain bs where bs: "guardar_hijos hs = Inr bs" "b = cabecera a @ le 8 (length hs) @ bs"
      by (auto simp: and_then_eq_Inr)
    have len: "length hs < 2 ^ 64" using 1 by simp
    have "\<forall>h\<in>set hs. inode_ok h \<and> cabe h \<and> length (nom h) < 2 ^ 64"
      using 1 True by (auto simp: inode_ok.simps nombre_ok_length)
    moreover have "length bs < g" using 1(6) bs(2) f by simp
    ultimately have "cargar_hijos g (length hs) (bs @ r) = Some (map recargado hs, r)"
      using 1(1) True bs(1) by blast
    moreover have "c = None" using 1 True by (simp add: inode_ok.simps)
    ultimately show ?thesis
      using True by (simp add: bs(2) f hd lee_num_8_length [OF len] del: cargar_inode.simps lee_num_le)
  next
    case False
    then have b: "b = cabecera a @ take (unat (tamano a)) (case c of None \<Rightarrow> [] | Some b \<Rightarrow> b)"
      and len: "length (case c of None \<Rightarrow> [] | Some b \<Rightarrow> b) = unat (tamano a)" and hs: "hs = []"
      using 1 by (auto simp: inode_ok.simps Let_def)
    then have "b = cabecera a @ (case c of None \<Rightarrow> [] | Some b \<Rightarrow> b)" by simp
    then show ?thesis
      using False len hs lee_append [of "case c of None \<Rightarrow> [] | Some b \<Rightarrow> b" r]
      by (simp add: f hd del: cargar_inode.simps)
  qed
next
  case 2
  then show ?case by simp
next
  case (3 h hs)
  then obtain b1 bs where b1: "guardar_inode h = Inr b1" and bs: "guardar_hijos hs = Inr bs"
    and b: "b = b1 @ bs"
    by (auto simp: and_then_eq_Inr)
  have "1 \<le> length b1" using b1 by (rule guardar_nonempty)
  with 3(5) b obtain g where f: "f = Suc g" and l1: "length b1 \<le> g" and l2: "length bs < g"
    by (cases f) auto
  have "cargar_inode g (b1 @ (bs @ r)) = Some (recargado h, bs @ r)"
    using 3(1) b1 3(4) l1 by simp
  moreover have "cargar_hijos g (length hs) (bs @ r) = Some (map recargado hs, r)"
    using 3(2) b1 bs 3(4) l2 by simp
  ultimately show ?case
    by (simp add: b f)
qed

lemma cargar_guardar:
  assumes "guardar_inode n = Inr b" and "inode_ok n" and "cabe n" and "length (nom n) < 2 ^ 64"
  shows "cargar_inode (length b) b = Some (recargado n, [])"
  using cargar_guardar_aux(1) [OF assms, of "length b" "[]"] by simp

text \<open>A reload is invisible in the view.\<close>

lemma atr_recargado [simp]: "atr (recargado n) = atr n"
  and hijos_recargado [simp]: "hijos (recargado n) = map recargado (hijos n)"
  by (cases n; simp)+

lemma entrada_recargado [simp]: "entrada_de (recargado n) = entrada_de n"
  by (cases n) (simp add: entrada_de_def bytes_def)

lemma hijo_llamado_recargado [simp]: "hijo_llamado t (recargado n) = hijo_llamado t n"
proof -
  have "first_index P (map recargado hs) = first_index (P \<circ> recargado) hs" for P hs
    by (induction hs) auto
  then show ?thesis by (simp add: hijo_llamado_def comp_def)
qed

lemma vista_recargado: "vista (recargado n) ts = vista n ts"
proof (induction ts arbitrary: n)
  case Nil
  then show ?case by simp
next
  case (Cons t ts)
  then show ?case by (auto split: option.split dest: hijo_llamado_lt)
qed

lemma inode_ok_recargado: "inode_ok n \<Longrightarrow> inode_ok (recargado n)"
  by (induction n rule: recargado.induct) (auto simp: inode_ok.simps comp_def)

section \<open>Freeing a tree\<close>

text \<open>The blocks that the inode at a pointer owns.\<close>

definition bloques :: "puntero \<Rightarrow> inode \<Rightarrow> bloque set" where
  "bloques p m = {BNombre p, BNodo p, if es_dir m then BHijos p else BContenido p}"

fun dueno :: "bloque \<Rightarrow> puntero" where
  "dueno (BNombre p) = p"
| "dueno (BHijos p) = p"
| "dueno (BContenido p) = p"
| "dueno (BNodo p) = p"

declare liberar_inode.simps [simp del]

lemma set_liberar:
  "inode_ok n \<Longrightarrow> set (liberar_inode p n) = {b. \<exists>q m. nodo n q = Some m \<and> b \<in> bloques (p @ q) m}"
proof (induction p n rule: liberar_inode.induct)
  case (1 p a c hs)
  let ?n = "Inode a c hs"
  have cases: "(\<exists>q m. nodo ?n q = Some m \<and> b \<in> bloques (p @ q) m) \<longleftrightarrow>
      b \<in> bloques p ?n \<or>
      (\<exists>i<length hs. \<exists>q m. nodo (hs ! i) q = Some m \<and> b \<in> bloques ((p @ [i]) @ q) m)" for b
  proof
    assume "\<exists>q m. nodo ?n q = Some m \<and> b \<in> bloques (p @ q) m"
    then obtain q m where "nodo ?n q = Some m" "b \<in> bloques (p @ q) m" by blast
    then show "b \<in> bloques p ?n \<or>
      (\<exists>i<length hs. \<exists>q m. nodo (hs ! i) q = Some m \<and> b \<in> bloques ((p @ [i]) @ q) m)"
      by (cases q) (auto split: if_splits)
  next
    assume "b \<in> bloques p ?n \<or>
      (\<exists>i<length hs. \<exists>q m. nodo (hs ! i) q = Some m \<and> b \<in> bloques ((p @ [i]) @ q) m)"
    then show "\<exists>q m. nodo ?n q = Some m \<and> b \<in> bloques (p @ q) m"
    proof
      assume "b \<in> bloques p ?n"
      then show ?thesis by (intro exI [of _ "[]"]) simp
    next
      assume "\<exists>i<length hs. \<exists>q m. nodo (hs ! i) q = Some m \<and> b \<in> bloques ((p @ [i]) @ q) m"
      then obtain i q m where "i < length hs" "nodo (hs ! i) q = Some m"
        "b \<in> bloques (p @ i # q) m" by auto
      then show ?thesis by (intro exI [of _ "i # q"] exI [of _ m]) simp
    qed
  qed
  show ?case
  proof (cases "es_directorio a \<noteq> 0")
    case True
    have "set (liberar_inode (p @ [i]) (hs ! i)) =
        {b. \<exists>q m. nodo (hs ! i) q = Some m \<and> b \<in> bloques ((p @ [i]) @ q) m}" if "i < length hs" for i
      using 1(1) [of i] 1(2) True that by (simp add: inode_ok.simps)
    moreover have "set (liberar_inode p ?n) =
        bloques p ?n \<union> (\<Union>i<length hs. set (liberar_inode (p @ [i]) (hs ! i)))"
      using True by (subst liberar_inode.simps) (auto simp: bloques_def)
    ultimately show ?thesis
      unfolding set_eq_iff mem_Collect_eq cases by auto
  next
    case False
    then have "hs = []" using 1(2) by (simp add: inode_ok.simps)
    then show ?thesis
      using False unfolding set_eq_iff mem_Collect_eq cases
      by (subst liberar_inode.simps) (auto simp: bloques_def)
  qed
qed

lemma dueno_liberar:
  assumes "b \<in> set (liberar_inode p n)"
  shows "\<exists>q. dueno b = p @ q"
  using assms
proof (induction p n rule: liberar_inode.induct)
  case (1 p a c hs)
  from 1(2) consider "dueno b = p"
    | i where "es_directorio a \<noteq> 0" "i < length hs" "b \<in> set (liberar_inode (p @ [i]) (hs ! i))"
    by (subst (asm) liberar_inode.simps) (auto split: if_splits)
  then show ?case
  proof cases
    case 1
    then show ?thesis by simp
  next
    case (2 i)
    then show ?thesis using "1.IH" [of i] by auto
  qed
qed

lemma distinct_liberar: "distinct (liberar_inode p n)"
proof (induction p n rule: liberar_inode.induct)
  case (1 p a c hs)
  let ?L = "\<lambda>i. if i < length hs then liberar_inode (p @ [i]) (hs ! i) else []"
  have own: "b \<in> set (?L i) \<Longrightarrow> \<exists>q. dueno b = p @ i # q" for b i
    using dueno_liberar [of b "p @ [i]"] by (auto split: if_splits)
  show ?case
  proof (cases "es_directorio a \<noteq> 0")
    case True
    have "set (?L i) \<inter> set (?L j) = {}" if "i \<noteq> j" for i j
      using own [of _ i] own [of _ j] that by fastforce
    moreover have "distinct (?L i)" for i
      using 1 True by simp
    ultimately have "distinct (concat (map ?L [0..<length hs]))"
      by (intro distinct_concat_upt)
    moreover have "b \<notin> set (concat (map ?L [0..<length hs]))" if "dueno b = p" for b
      using own that by fastforce
    ultimately show ?thesis
      using True by (subst liberar_inode.simps) auto
  next
    case False
    then show ?thesis by (subst liberar_inode.simps) auto
  qed
qed

end
