(* ===== verification/Fisop_Ops.thy ===== *)
theory Fisop_Ops
  imports Fisop_Persist
begin

text \<open>
  The FUSE operations of \<^verbatim>\<open>fisopfs/fisopfs.c\<close>, one definition per handler of the \<^verbatim>\<open>operations\<close>
  table, with the code's checks in the code's order, and the handling of \<^verbatim>\<open>--filedisk\<close> in
  \<^verbatim>\<open>main\<close>. A handler returns its reply and the next state, or a \<^typ>\<open>fallo\<close> where the C crashes
  or accesses memory out of bounds. An \<^verbatim>\<open>off_t\<close> is the 64-bit pattern that the comparisons with
  \<^verbatim>\<open>size_t\<close> convert it to. The debug output is left out.
\<close>

record estado =
  st_mode :: "32 word"
  st_uid :: "32 word"
  st_gid :: "32 word"
  st_size :: "64 word"
  st_nlink :: "64 word"
  st_atime :: "64 word"
  st_mtime :: "64 word"
  st_ctime :: "64 word"

datatype respuesta = Cod int | REstado int estado | RNombres int "string list" | RDatos int string

definition estado_nulo :: estado where
  "estado_nulo = \<lparr>st_mode = 0, st_uid = 0, st_gid = 0, st_size = 0, st_nlink = 0, st_atime = 0,
     st_mtime = 0, st_ctime = 0\<rparr>"

definition O_ACCMODE :: "32 word" where "O_ACCMODE = 3"
definition O_RDONLY :: "32 word" where "O_RDONLY = 0"
definition O_WRONLY :: "32 word" where "O_WRONLY = 1"
definition O_RDWR :: "32 word" where "O_RDWR = 2"
definition O_TRUNC :: "32 word" where "O_TRUNC = 0x200"
definition S_IRUSR :: "32 word" where "S_IRUSR = 0x100"
definition S_IWUSR :: "32 word" where "S_IWUSR = 0x80"

text \<open>A \<^verbatim>\<open>size_t\<close> returned as an \<^verbatim>\<open>int\<close>.\<close>

definition a_int :: "64 word \<Rightarrow> int" where
  "a_int w = sint (ucast w :: 32 word)"

text \<open>The inode behind a pointer that a lookup returned.\<close>

definition con_inode ::
  "puntero \<Rightarrow> filesystem \<Rightarrow> (inode \<Rightarrow> fallo + 'r) \<Rightarrow> fallo + 'r" where
  "con_inode p s k = (case deref s p of None \<Rightarrow> Inl PunteroNulo | Some n \<Rightarrow> k n)"

definition fisopfs_init :: "string \<Rightarrow> filesystem \<Rightarrow> fallo + respuesta \<times> filesystem" where
  "fisopfs_init filedisk s =
     and_then (cargar_fs (s\<lparr>archivo_disco := Some filedisk\<rparr>)) (\<lambda>s. Inr (Cod 0, s))"

definition fisopfs_getattr :: "string \<Rightarrow> filesystem \<Rightarrow> fallo + respuesta \<times> filesystem" where
  "fisopfs_getattr path s =
     (case buscar_inode path s of
        None \<Rightarrow> Inr (REstado (- ENOENT) estado_nulo, s)
      | Some p \<Rightarrow> con_inode p s (\<lambda>n. let a = atr n in
          Inr (REstado 0
            \<lparr>st_mode = modo a, st_uid = usuario_id a, st_gid = grupo_id a, st_size = tamano a,
             st_nlink = enlaces a, st_atime = acceso a, st_mtime = modificacion a,
             st_ctime = cambio_estado a\<rparr>, s)))"

definition fisopfs_readdir :: "string \<Rightarrow> filesystem \<Rightarrow> fallo + respuesta \<times> filesystem" where
  "fisopfs_readdir path s =
     (case buscar_inode path s of
        None \<Rightarrow> Inr (RNombres (- ENOENT) [], s)
      | Some p \<Rightarrow> con_inode p s (\<lambda>n.
          if \<not> es_dir n then Inr (RNombres (- ENOENT) [], s)
          else Inr (RNombres 0 (''.'' # ''..'' # map nom (hijos n)), s)))"

text \<open>
  \<^verbatim>\<open>fisopfs_mkdir\<close> and \<^verbatim>\<open>fisopfs_create\<close>: the disk is written before the new inode is linked.
\<close>

definition crea_en :: "string \<Rightarrow> 32 word \<Rightarrow> 32 word \<Rightarrow> filesystem \<Rightarrow> fallo + respuesta \<times> filesystem" where
  "crea_en path md dir s =
     and_then (buscar_padre path s) (\<lambda>(padre, nombre).
       case padre of
         None \<Rightarrow> Inr (Cod (- ENOENT), s)
       | Some p \<Rightarrow> con_inode p s (\<lambda>n.
           if \<not> es_dir n then Inr (Cod (- ENOENT), s)
           else if buscar_inode path s \<noteq> None then Inr (Cod (- EEXIST), s)
           else
             let (nuevo, s1) = crear_inode nombre md dir s
             in and_then (guardar_fs s1) (\<lambda>s2.
                  and_then (agregar_hijo padre nuevo s2) (\<lambda>(r, s3). Inr (Cod r, s3)))))"

definition fisopfs_mkdir :: "string \<Rightarrow> 32 word \<Rightarrow> filesystem \<Rightarrow> fallo + respuesta \<times> filesystem" where
  "fisopfs_mkdir path mode s = crea_en path (S_IFDIR OR mode) 1 s"

definition fisopfs_create :: "string \<Rightarrow> 32 word \<Rightarrow> filesystem \<Rightarrow> fallo + respuesta \<times> filesystem" where
  "fisopfs_create path mode s = crea_en path (S_IFREG OR (mode AND 0x1FF)) 0 s"

text \<open>The bytes \<open>[off, off + n)\<close> of a block, as \<^verbatim>\<open>memcpy\<close> reads or overwrites them.\<close>

definition lee_bloque :: "string \<Rightarrow> nat \<Rightarrow> nat \<Rightarrow> fallo + string" where
  "lee_bloque c off n = check_that (off + n \<le> length c) DesbordeHeap (Inr (take n (drop off c)))"

definition escribe_bloque :: "string \<Rightarrow> nat \<Rightarrow> string \<Rightarrow> fallo + string" where
  "escribe_bloque c off b =
     check_that (off + length b \<le> length c) DesbordeHeap
       (Inr (take off c @ b @ drop (off + length b) c))"

definition fisopfs_read ::
  "string \<Rightarrow> 64 word \<Rightarrow> 64 word \<Rightarrow> filesystem \<Rightarrow> fallo + respuesta \<times> filesystem" where
  "fisopfs_read path sz offset s =
     (case buscar_inode path s of
        None \<Rightarrow> Inr (RDatos (- EISDIR) [], s)
      | Some p \<Rightarrow> con_inode p s (\<lambda>n.
          if es_dir n then Inr (RDatos (- EISDIR) [], s)
          else
            let tam = tamano (atr n);
                sz' = (if offset < tam
                         then (if offset + sz > tam then tam - offset else sz) else 0)
            in and_then (if offset < tam then lee_bloque (bytes n) (unat offset) (unat sz') else Inr [])
                 (\<lambda>datos.
                   Inr (RDatos (a_int sz') datos,
                     tic (modifica (con_atr (\<lambda>a. a\<lparr>acceso := ahora s\<rparr>)) p s)))))"

text \<open>\<^verbatim>\<open>realloc(c, n)\<close> when it succeeds: the old bytes are kept, new ones are not initialised.\<close>

definition realloc :: "filesystem \<Rightarrow> string \<Rightarrow> nat \<Rightarrow> string" where
  "realloc s c n = take n c @ map (basura (host s)) [length c..<n]"

text \<open>
  In \<^verbatim>\<open>fisopfs_write\<close> a failed \<^verbatim>\<open>realloc\<close> leaves a null pointer, and the copy goes through it.
  \<open>buf\<close> holds the \<^verbatim>\<open>size\<close> bytes that FUSE passes.
\<close>

definition fisopfs_write ::
  "string \<Rightarrow> string \<Rightarrow> 64 word \<Rightarrow> filesystem \<Rightarrow> fallo + respuesta \<times> filesystem" where
  "fisopfs_write path buf offset s =
     (case buscar_inode path s of
        None \<Rightarrow> Inr (Cod (- EISDIR), s)
      | Some p \<Rightarrow> con_inode p s (\<lambda>n.
          if es_dir n then Inr (Cod (- EISDIR), s)
          else
            let sz = word_of_nat (length buf);
                new_size = offset + sz;
                crece = new_size > tamano (atr n);
                c = (if crece then realloc s (bytes n) (unat new_size) else bytes n);
                tam = (if crece then new_size else tamano (atr n))
            in check_that (crece \<longrightarrow> realloc_ok (host s) (unat new_size)) PunteroNulo
                 (and_then (escribe_bloque c (unat offset) buf) (\<lambda>c'.
                    let t1 = ahora s; s1 = tic s; t2 = ahora s1; s2 = tic s1;
                        s3 = modifica
                          (\<lambda>n. con_atr (\<lambda>a. a\<lparr>tamano := tam, modificacion := t1, cambio_estado := t2\<rparr>)
                                 (con_contenido (if crece then Some c' else map_option (\<lambda>_. c') (contenido n)) n)) p s2
                    in and_then (guardar_fs s3) (\<lambda>s4. Inr (Cod (a_int sz), s4))))))"

definition fisopfs_unlink :: "string \<Rightarrow> filesystem \<Rightarrow> fallo + respuesta \<times> filesystem" where
  "fisopfs_unlink path s =
     (case buscar_inode path s of
        None \<Rightarrow> Inr (Cod (- EISDIR), s)
      | Some p \<Rightarrow> con_inode p s (\<lambda>n.
          if es_dir n then Inr (Cod (- EISDIR), s)
          else and_then (buscar_padre path s) (\<lambda>(padre, nombre).
                 and_then (eliminar_inode padre p s) (\<lambda>s1.
                   and_then (guardar_fs s1) (\<lambda>s2. Inr (Cod 0, s2))))))"

definition fisopfs_rmdir :: "string \<Rightarrow> filesystem \<Rightarrow> fallo + respuesta \<times> filesystem" where
  "fisopfs_rmdir path s =
     (case buscar_inode path s of
        None \<Rightarrow> Inr (Cod (- ENOTEMPTY), s)
      | Some p \<Rightarrow> con_inode p s (\<lambda>n.
          if \<not> es_dir n \<or> length (hijos n) > 0 then Inr (Cod (- ENOTEMPTY), s)
          else and_then (buscar_padre path s) (\<lambda>(padre, nombre).
                 and_then (eliminar_inode padre p s) (\<lambda>s1.
                   and_then (guardar_fs s1) (\<lambda>s2. Inr (Cod 0, s2))))))"

text \<open>After \<^verbatim>\<open>fisopfs_destroy\<close> the root and the file name are freed; the model drops them.\<close>

definition fisopfs_destroy :: "filesystem \<Rightarrow> fallo + respuesta \<times> filesystem" where
  "fisopfs_destroy s =
     and_then (guardar_fs s) (\<lambda>s. Inr (Cod 0, s\<lparr>raiz := None, archivo_disco := None\<rparr>))"

definition fisopfs_open :: "string \<Rightarrow> 32 word \<Rightarrow> filesystem \<Rightarrow> fallo + respuesta \<times> filesystem" where
  "fisopfs_open path flags s =
     (case buscar_inode path s of
        None \<Rightarrow> Inr (Cod (- ENOENT), s)
      | Some p \<Rightarrow> con_inode p s (\<lambda>n.
          if es_dir n then Inr (Cod (- EISDIR), s)
          else if (flags AND O_ACCMODE = O_WRONLY \<or> flags AND O_ACCMODE = O_RDWR) \<and>
                  modo (atr n) AND S_IWUSR = 0 then Inr (Cod (- EACCES), s)
          else if flags AND O_ACCMODE = O_RDONLY \<and> modo (atr n) AND S_IRUSR = 0
          then Inr (Cod (- EACCES), s)
          else if flags AND O_TRUNC \<noteq> 0
          then
            let t1 = ahora s; s1 = tic s; t2 = ahora s1; s2 = tic s1;
                s3 = modifica
                  (\<lambda>n. con_atr (\<lambda>a. a\<lparr>tamano := 0, modificacion := t1, cambio_estado := t2\<rparr>)
                         (con_contenido None n)) p s2
            in and_then (guardar_fs s3) (\<lambda>s4. Inr (Cod 0, s4))
          else Inr (Cod 0, s)))"

text \<open>
  In \<^verbatim>\<open>fisopfs_truncate\<close> a failed \<^verbatim>\<open>realloc\<close> has already overwritten the pointer to the contents.
\<close>

definition fisopfs_truncate :: "string \<Rightarrow> 64 word \<Rightarrow> filesystem \<Rightarrow> fallo + respuesta \<times> filesystem" where
  "fisopfs_truncate path sz s =
     (case buscar_inode path s of
        None \<Rightarrow> Inr (Cod (- ENOENT), s)
      | Some p \<Rightarrow> con_inode p s (\<lambda>n.
          if es_dir n then Inr (Cod (- EISDIR), s)
          else if sz \<noteq> 0 \<and> \<not> realloc_ok (host s) (unat sz)
          then Inr (Cod (- ENOMEM), modifica (con_contenido None) p s)
          else
            let tam = tamano (atr n);
                c = realloc s (bytes n) (unat sz);
                c' = (if sz = 0 then None
                      else if sz > tam then Some (take (unat tam) c @ replicate (unat sz - unat tam) (CHR 0x00))
                      else Some c);
                t1 = ahora s; s1 = tic s; t2 = ahora s1; s2 = tic s1;
                s3 = modifica
                  (\<lambda>n. con_atr (\<lambda>a. a\<lparr>tamano := sz, modificacion := t1, cambio_estado := t2\<rparr>)
                         (con_contenido c' n)) p s2
            in and_then (guardar_fs s3) (\<lambda>s4. Inr (Cod 0, s4))))"

definition fisopfs_utimens ::
  "string \<Rightarrow> 64 word \<Rightarrow> 64 word \<Rightarrow> filesystem \<Rightarrow> fallo + respuesta \<times> filesystem" where
  "fisopfs_utimens path atime mtime s =
     (case buscar_inode path s of
        None \<Rightarrow> Inr (Cod (- ENOENT), s)
      | Some p \<Rightarrow>
          let s1 = modifica
            (con_atr (\<lambda>a. a\<lparr>acceso := atime, modificacion := mtime, cambio_estado := ahora s\<rparr>)) p (tic s)
          in and_then (guardar_fs s1) (\<lambda>s2. Inr (Cod 0, s2)))"

text \<open>The table of operations: a FUSE request and the handler that serves it.\<close>

datatype pedido =
    Getattr string
  | Readdir string
  | Mkdir string "32 word"
  | Rmdir string
  | Create string "32 word"
  | Read string "64 word" "64 word"
  | Write string string "64 word"
  | Unlink string
  | Open string "32 word"
  | Truncate string "64 word"
  | Utimens string "64 word" "64 word"

fun operations :: "pedido \<Rightarrow> filesystem \<Rightarrow> fallo + respuesta \<times> filesystem" where
  "operations (Getattr p) = fisopfs_getattr p"
| "operations (Readdir p) = fisopfs_readdir p"
| "operations (Mkdir p m) = fisopfs_mkdir p m"
| "operations (Rmdir p) = fisopfs_rmdir p"
| "operations (Create p m) = fisopfs_create p m"
| "operations (Read p n off) = fisopfs_read p n off"
| "operations (Write p b off) = fisopfs_write p b off"
| "operations (Unlink p) = fisopfs_unlink p"
| "operations (Open p f) = fisopfs_open p f"
| "operations (Truncate p n) = fisopfs_truncate p n"
| "operations (Utimens p a m) = fisopfs_utimens p a m"

text \<open>
  \<^verbatim>\<open>main\<close>: the persistence file and the arguments left for \<^verbatim>\<open>fuse_main\<close>. The argument vector
  ends with a null pointer, so the copy loop stays inside it.
\<close>

definition main_args :: "string list \<Rightarrow> string \<times> string list" where
  "main_args argv =
     (case first_index (\<lambda>i. argv ! i = ''--filedisk'') [1..<length argv - 1] of
        None \<Rightarrow> (''persistence_file.fisopfs'', argv)
      | Some k \<Rightarrow> (argv ! (k + 2), take (k + 1) argv @ drop (k + 3) argv))"

end
