(* ===== verification/Fisop_Props.thy ===== *)
theory Fisop_Props
  imports Fisop_Ops
begin

text \<open>
  The contract of fisopfs. \<open>fs_ok\<close> is the invariant of the running file system, \<open>vista_fs\<close> its
  abstract state (a partial map from paths to entries), and \<open>espec\<close> says for each FUSE request what
  reply and what next map the handler must give. The handlers are an interpretation of the
  interface \<open>refinamiento\<close> of the prelude, which extends the facts to every run.
\<close>

section \<open>The invariant and the abstract state\<close>

definition fs_ok :: "filesystem \<Rightarrow> bool" where
  "fs_ok s \<longleftrightarrow> (\<exists>r. raiz s = Some r \<and> es_dir r \<and> inode_ok r) \<and> archivo_disco s \<noteq> None \<and>
     (\<forall>n. realloc_ok (host s) n)"

definition vista_fs :: "filesystem \<Rightarrow> string list \<Rightarrow> entrada option" where
  "vista_fs s = (case raiz s of None \<Rightarrow> (\<lambda>ts. None) | Some r \<Rightarrow> vista r)"

definition canonica :: "string list \<Rightarrow> bool" where
  "canonica ts \<longleftrightarrow> (\<forall>t\<in>set ts. componente_ok t)"

lemma canonica_simps [simp]:
  "canonica []" "canonica (ts @ [t]) \<longleftrightarrow> canonica ts \<and> componente_ok t"
  by (auto simp: canonica_def)

text \<open>What the request says about the entries; \<open>us\<close> is where the lookup of \<open>ts\<close> stops.\<close>

definition hijos_de :: "(string list \<Rightarrow> entrada option) \<Rightarrow> string list \<Rightarrow> string set" where
  "hijos_de a ts = {t. a (ts @ [t]) \<noteq> None}"

definition espec_alta ::
  "entrada \<Rightarrow> string list \<Rightarrow> (string list \<Rightarrow> entrada option) \<Rightarrow> respuesta \<Rightarrow> (string list \<Rightarrow> entrada option) \<Rightarrow> bool" where
  "espec_alta e ts a r b \<longleftrightarrow>
     (if ts = [] \<or> a (butlast ts) \<noteq> Some EDir then r = Cod (- ENOENT) \<and> b = a
      else if a ts \<noteq> None then r = Cod (- EEXIST) \<and> b = a
      else r = Cod 0 \<and> b = a(ts \<mapsto> e))"

fun espec_en ::
  "pedido \<Rightarrow> string list \<Rightarrow> (string list \<Rightarrow> entrada option) \<Rightarrow> respuesta \<Rightarrow> (string list \<Rightarrow> entrada option) \<Rightarrow> bool" where
  "espec_en (Getattr _) ts a r b \<longleftrightarrow> b = a \<and>
     (case a (resuelve a ts) of
        None \<Rightarrow> r = REstado (- ENOENT) estado_nulo
      | Some EDir \<Rightarrow> (\<exists>st. r = REstado 0 st \<and> st_size st = 0)
      | Some (EArch c) \<Rightarrow> (\<exists>st. r = REstado 0 st \<and> unat (st_size st) = length c))"
| "espec_en (Readdir _) ts a r b \<longleftrightarrow> b = a \<and>
     (if a ts = Some EDir
      then \<exists>ns. r = RNombres 0 (''.'' # ''..'' # ns) \<and> distinct ns \<and> set ns = hijos_de a ts
      else r = RNombres (- ENOENT) [])"
| "espec_en (Mkdir _ _) ts a r b \<longleftrightarrow> espec_alta EDir ts a r b"
| "espec_en (Create _ _) ts a r b \<longleftrightarrow> espec_alta (EArch []) ts a r b"
| "espec_en (Rmdir _) ts a r b \<longleftrightarrow>
     (if a ts = Some EDir \<and> hijos_de a ts = {}
      then r = Cod 0 \<and> b = (if ts = [] then a else a(ts := None))
      else r = Cod (- ENOTEMPTY) \<and> b = a)"
| "espec_en (Unlink _) ts a r b \<longleftrightarrow>
     (case a (resuelve a ts) of
        Some (EArch c) \<Rightarrow> r = Cod 0 \<and> b = (if resuelve a ts = ts then a(ts := None) else a)
      | _ \<Rightarrow> r = Cod (- EISDIR) \<and> b = a)"
| "espec_en (Read _ n off) ts a r b \<longleftrightarrow> b = a \<and>
     (case a (resuelve a ts) of
        Some (EArch c) \<Rightarrow>
          (let d = take (unat n) (drop (unat off) c) in r = RDatos (a_int (word_of_nat (length d))) d)
      | _ \<Rightarrow> r = RDatos (- EISDIR) [])"
| "espec_en (Write _ buf off) ts a r b \<longleftrightarrow>
     (case a (resuelve a ts) of
        Some (EArch c) \<Rightarrow> r = Cod (a_int (word_of_nat (length buf))) \<and>
          (\<exists>c'. b = a(resuelve a ts \<mapsto> EArch c') \<and>
             length c' = max (length c) (unat off + length buf) \<and>
             take (length buf) (drop (unat off) c') = buf \<and>
             (\<forall>i<length c. i < unat off \<or> unat off + length buf \<le> i \<longrightarrow> c' ! i = c ! i))
      | _ \<Rightarrow> r = Cod (- EISDIR) \<and> b = a)"
| "espec_en (Open _ f) ts a r b \<longleftrightarrow>
     (case a (resuelve a ts) of
        None \<Rightarrow> r = Cod (- ENOENT) \<and> b = a
      | Some EDir \<Rightarrow> r = Cod (- EISDIR) \<and> b = a
      | Some (EArch c) \<Rightarrow>
          r = Cod (- EACCES) \<and> b = a \<or>
          r = Cod 0 \<and> b = (if f AND O_TRUNC \<noteq> 0 then a(resuelve a ts \<mapsto> EArch []) else a))"
| "espec_en (Truncate _ n) ts a r b \<longleftrightarrow>
     (case a (resuelve a ts) of
        None \<Rightarrow> r = Cod (- ENOENT) \<and> b = a
      | Some EDir \<Rightarrow> r = Cod (- EISDIR) \<and> b = a
      | Some (EArch c) \<Rightarrow> r = Cod 0 \<and>
          b = a(resuelve a ts \<mapsto>
                EArch (take (unat n) c @ replicate (unat n - length c) (CHR 0x00))))"
| "espec_en (Utimens _ _ _) ts a r b \<longleftrightarrow>
     b = a \<and> r = Cod (if a (resuelve a ts) = None then - ENOENT else 0)"

fun ruta_de :: "pedido \<Rightarrow> string" where
  "ruta_de (Getattr p) = p"
| "ruta_de (Readdir p) = p"
| "ruta_de (Mkdir p m) = p"
| "ruta_de (Rmdir p) = p"
| "ruta_de (Create p m) = p"
| "ruta_de (Read p n off) = p"
| "ruta_de (Write p b off) = p"
| "ruta_de (Unlink p) = p"
| "ruta_de (Open p f) = p"
| "ruta_de (Truncate p n) = p"
| "ruta_de (Utimens p a m) = p"

text \<open>The contract: for every path of the form \<^verbatim>\<open>/a/b/c\<close>.\<close>

definition espec ::
  "pedido \<Rightarrow> (string list \<Rightarrow> entrada option) \<Rightarrow> respuesta \<Rightarrow> (string list \<Rightarrow> entrada option) \<Rightarrow> bool" where
  "espec q a r b \<longleftrightarrow> (\<forall>ts. canonica ts \<and> ruta_de q = ruta ts \<longrightarrow> espec_en q ts a r b)"

section \<open>Lookups of canonical paths\<close>

lemma ruta_not_root: "canonica ts \<Longrightarrow> ts \<noteq> [] \<Longrightarrow> ruta ts \<noteq> ''/''"
  by (cases ts rule: rev_cases) (auto simp: ruta_snoc_not_root)

lemma buscar_ruta:
  assumes "raiz s = Some r" and "canonica ts"
  shows "buscar_inode (ruta ts) s = seguir r ts"
proof (cases "ts = []")
  case True
  then show ?thesis using assms by (simp add: buscar_inode_def ruta_def)
next
  case False
  then show ?thesis
    using assms ruta_not_root [OF assms(2)] tokens_ruta [of ts]
    by (simp add: buscar_inode_def canonica_def)
qed

lemma padre_ruta_Nil: "buscar_padre (ruta []) s = Inr (None, [])"
  by (simp add: buscar_padre_def ruta_def ultima_barra_def)

lemma padre_ruta:
  assumes "raiz s = Some r" and "canonica ts" and "componente_ok t"
  shows "buscar_padre (ruta (ts @ [t])) s =
    check_that (length t < MAX_FILENAME_LENGTH) DesbordePila (Inr (seguir r ts, t))"
proof (cases "ts = []")
  case True
  then show ?thesis
    using assms ultima_barra_ruta [OF assms(3), of ts] ruta_snoc_not_root [OF assms(3), of ts]
    by (simp add: buscar_padre_def)
next
  case False
  then have "ruta ts \<noteq> []" by (cases ts) (auto simp: ruta_def)
  then show ?thesis
    using False assms ultima_barra_ruta [OF assms(3), of ts] ruta_snoc_not_root [OF assms(3), of ts]
      buscar_ruta [OF assms(1,2)]
    by (simp add: buscar_padre_def)
qed

text \<open>The two outcomes of a lookup.\<close>

lemma seguir_cases:
  obtains (no) "seguir r ts = None" "vista r (resuelve (vista r) ts) = None"
      "resuelve (vista r) ts = ts"
  | (si) p m us where "seguir r ts = Some p" "nodo r p = Some m" "resuelve (vista r) ts = us"
      "vista r us = Some (entrada_de m)" "seguir r us = Some p" "length p = length us"
      "us = ts \<or> \<not> es_dir m"
proof (cases "seguir r ts")
  case None
  then show ?thesis
    using no seguir_None_vista [OF None] by (simp add: resuelve_vista)
next
  case (Some p)
  then obtain m where "nodo r p = Some m" "length p \<le> length ts"
    "vista r (take (length p) ts) = Some (entrada_de m)"
    "seguir r (take (length p) ts) = Some p" "length p < length ts \<longrightarrow> \<not> es_dir m"
    by (rule seguir_Some)
  then show ?thesis
    using si [of p m "take (length p) ts"] Some by (cases "length p = length ts") (simp_all add: resuelve_vista)
qed

lemma entrada_de_simps [simp]:
  "entrada_de m = EDir \<longleftrightarrow> es_dir m" "entrada_de m = EArch c \<longleftrightarrow> \<not> es_dir m \<and> c = bytes m"
  "EDir = entrada_de m \<longleftrightarrow> es_dir m"
  by (auto simp: entrada_de_def)

lemma en_nodo_id: "en_nodo id p n = n"
  by (induction p arbitrary: n) auto

lemma vista_append:
  assumes "seguir n ts = Some p" and "length p = length ts" and "nodo n p = Some m"
  shows "vista n (ts @ us) = vista m us"
  using vista_en_nodo [OF assms, of id "ts @ us"] by (simp add: en_nodo_id)

lemma take_eq_append: "take (length ts) us = ts \<longleftrightarrow> (\<exists>ws. us = ts @ ws)"
  by (metis append_eq_conv_conj append_take_drop_id)

lemma vista_en_nodo_eqI:
  assumes "seguir n ts = Some p" and "length p = length ts" and "nodo n p = Some m"
    and "nom (f m) = nom m"
    and "\<And>ws. vista (f m) ws = b (ts @ ws)"
    and "\<And>us. (\<nexists>ws. us = ts @ ws) \<Longrightarrow> b us = vista n us"
  shows "vista (en_nodo f p n) = b"
proof
  fix us
  show "vista (en_nodo f p n) us = b us"
    using vista_en_nodo [where f = f and us = us, OF assms(1-4)] assms(5,6)
    by (cases "\<exists>ws. us = ts @ ws") (auto simp: take_eq_append)
qed

text \<open>A write to a file, to the attributes, and the two changes of a directory, on the view.\<close>

lemma vista_archivo:
  assumes "seguir n ts = Some p" and "length p = length ts" and "nodo n p = Some m"
    and "\<not> es_dir m" and "\<not> es_dir (f m)" and "nom (f m) = nom m"
  shows "vista (en_nodo f p n) = (vista n)(ts \<mapsto> EArch (bytes (f m)))"
  by (rule vista_en_nodo_eqI [where f = f, OF assms(1-3,6)])
     (use assms(4,5) in \<open>auto simp: vista_hoja vista_append [OF assms(1-3)]\<close>)

lemma vista_igual:
  assumes "seguir n ts = Some p" and "length p = length ts" and "nodo n p = Some m"
    and "es_dir (f m) = es_dir m" and "nom (f m) = nom m" and "hijos (f m) = hijos m"
    and "bytes (f m) = bytes m"
  shows "vista (en_nodo f p n) = vista n"
proof (rule vista_en_nodo_eqI [where f = f, OF assms(1-3,5)])
  fix ws
  have "vista (f m) ws = vista m ws"
    using assms(4-7) by (cases ws) (auto simp: entrada_de_def hijo_llamado_def split: option.split)
  then show "vista (f m) ws = vista n (ts @ ws)"
    by (simp add: vista_append [OF assms(1-3)])
qed simp

lemma vista_alta:
  assumes "seguir n ts = Some p" and "length p = length ts" and "nodo n p = Some m" and "es_dir m"
    and "hijo_llamado t m = None" and "nom h = t" and "hijos h = []"
    and "nombre (g (atr m)) = nom m" and "es_directorio (g (atr m)) = es_directorio (atr m)"
  shows "vista (en_nodo (\<lambda>n. con_atr g (con_hijos (hijos n @ [h]) n)) p n) =
    (vista n)(ts @ [t] \<mapsto> entrada_de h)"
proof (rule vista_en_nodo_eqI [OF assms(1-3)])
  fix ws
  have "vista (con_atr g (con_hijos (hijos m @ [h]) m)) ws =
      (case ws of [] \<Rightarrow> vista m ws | v # vs' \<Rightarrow> if v = t then vista h vs' else vista m ws)"
    using assms by (intro vista_con_hijos_append)
  also have "\<dots> = ((vista m)([t] \<mapsto> entrada_de h)) ws"
    using assms(5,7) by (auto simp: vista_hoja split: list.splits)
  finally show "vista (con_atr g (con_hijos (hijos m @ [h]) m)) ws =
      ((vista n)(ts @ [t] \<mapsto> entrada_de h)) (ts @ ws)"
    by (simp add: vista_append [OF assms(1-3)])
qed (use assms(8) in auto)

lemma vista_baja:
  assumes "seguir n ts = Some p" and "length p = length ts" and "nodo n p = Some m" and "es_dir m"
    and "distinct (map nom (hijos m))" and "i < length (hijos m)" and "nom (hijos m ! i) = t"
    and "\<not> es_dir (hijos m ! i) \<or> hijos (hijos m ! i) = []"
    and "nombre (g (atr m)) = nom m" and "es_directorio (g (atr m)) = es_directorio (atr m)"
  shows "vista (en_nodo (\<lambda>n. con_atr g (con_hijos (remove_nth i (hijos n)) n)) p n) =
    (vista n)(ts @ [t] := None)"
proof (rule vista_en_nodo_eqI [OF assms(1-3)])
  fix ws
  have ht: "hijo_llamado t m = Some i"
    using first_index_distinct [OF assms(5,6)] assms(7) by (simp add: hijo_llamado_def)
  have "vista (con_atr g (con_hijos (remove_nth i (hijos m)) m)) ws = (case ws of [] \<Rightarrow> vista m ws
      | v # vs' \<Rightarrow> if v = nom (hijos m ! i) then None else vista m ws)"
    using assms by (intro vista_con_hijos_remove)
  also have "\<dots> = ((vista m)([t] := None)) ws"
    using assms(4,7,8) ht by (cases ws) (auto simp: vista_hoja)
  finally show "vista (con_atr g (con_hijos (remove_nth i (hijos m)) m)) ws =
      ((vista n)(ts @ [t] := None)) (ts @ ws)"
    by (simp add: vista_append [OF assms(1-3)])
qed (use assms(9) in auto)

section \<open>What the helpers keep\<close>

lemma fs_okE:
  assumes "fs_ok s"
  obtains r where "raiz s = Some r" "es_dir r" "inode_ok r" "vista_fs s = vista r"
  using assms by (auto simp: fs_ok_def vista_fs_def)

lemma deref_Some: "raiz s = Some r \<Longrightarrow> deref s p = nodo r p"
  by (simp add: deref_def)

lemma buscar_seguir:
  assumes "raiz s = Some r"
  shows "buscar_inode path s = seguir r (tokens path)"
proof -
  have "tokens ''/'' = []" by simp
  then show ?thesis using assms by (auto simp: buscar_inode_def)
qed

lemma tic_sel [simp]:
  "raiz (tic s) = raiz s" "host (tic s) = host s" "disco (tic s) = disco s"
  "archivo_disco (tic s) = archivo_disco s"
  by (simp_all add: tic_def)

lemma modifica_sel [simp]:
  "raiz (modifica f p s) = map_option (en_nodo f p) (raiz s)" "host (modifica f p s) = host s"
  "disco (modifica f p s) = disco s" "archivo_disco (modifica f p s) = archivo_disco s"
  by (simp_all add: modifica_def)

lemma guardar_fs_sel:
  assumes "guardar_fs s = Inr t"
  shows "raiz t = raiz s" "host t = host s" "archivo_disco t = archivo_disco s"
  using assms by (auto simp: guardar_fs_def and_then_eq_Inr split: option.splits if_splits)

lemma fs_ok_cong:
    "raiz t = raiz s \<Longrightarrow> host t = host s \<Longrightarrow> archivo_disco t = archivo_disco s \<Longrightarrow> fs_ok t = fs_ok s"
  and vista_fs_cong: "raiz t = raiz s \<Longrightarrow> vista_fs t = vista_fs s"
  by (simp_all add: fs_ok_def vista_fs_def)

lemma fs_ok_tic [simp]: "fs_ok (tic s) = fs_ok s" "vista_fs (tic s) = vista_fs s"
  by (simp_all add: fs_ok_def vista_fs_def)

lemma guardar_fs_ok:
  assumes "guardar_fs s = Inr t"
  shows "fs_ok t = fs_ok s" "vista_fs t = vista_fs s"
  using guardar_fs_sel [OF assms] by (auto simp: fs_ok_def vista_fs_def)

lemma en_nodo_es_dir:
  assumes "nodo n p = Some m" and "es_dir (f m) = es_dir m"
  shows "es_dir (en_nodo f p n) = es_dir n"
  using assms by (cases p) auto

lemma fs_ok_modifica:
  assumes "fs_ok s" and "deref s p = Some m" and "inode_ok (f m)" and "nom (f m) = nom m"
    and "es_dir (f m) = es_dir m"
  shows "fs_ok (modifica f p s)"
  using assms inode_ok_en_nodo [of _ p m f] en_nodo_es_dir [of _ p m f]
  by (auto simp: fs_ok_def deref_def)

lemma vista_modifica:
  "raiz s = Some r \<Longrightarrow> vista_fs (modifica f p s) = vista (en_nodo f p r)"
  by (simp add: vista_fs_def)

lemma con_inode_eq_Inr:
  "con_inode p s k = Inr y \<longleftrightarrow> (\<exists>n. deref s p = Some n \<and> k n = Inr y)"
  by (simp add: con_inode_def split: option.split)

lemma deref_ok: "fs_ok s \<Longrightarrow> deref s p = Some n \<Longrightarrow> inode_ok n"
  by (auto simp: fs_ok_def deref_def intro: inode_ok_nodo)

text \<open>The lookup of a canonical path, on the view.\<close>

lemma busqueda_cases [consumes 1, case_names no si]:
  fixes path :: string
  defines "ts \<equiv> tokens path"
  assumes "fs_ok s"
  obtains (no) "buscar_inode path s = None" "vista_fs s (resuelve (vista_fs s) ts) = None"
      "resuelve (vista_fs s) ts = ts"
  | (si) r p m us where "buscar_inode path s = Some p" "deref s p = Some m" "raiz s = Some r"
      "nodo r p = Some m" "resuelve (vista_fs s) ts = us" "vista_fs s us = Some (entrada_de m)"
      "seguir r us = Some p" "length p = length us" "inode_ok m" "vista_fs s = vista r"
      "us = ts \<or> \<not> es_dir m"
proof -
  obtain r where r: "raiz s = Some r" "es_dir r" "inode_ok r" "vista_fs s = vista r"
    using assms(2) by (rule fs_okE)
  have b: "buscar_inode path s = seguir r ts"
    using buscar_seguir [OF r(1)] by (simp add: ts_def)
  show thesis
  proof (cases r ts rule: seguir_cases)
    case no
    then show ?thesis using that(1) b r by simp
  next
    case (si p m us)
    then show ?thesis
      using that(2) [of p m r us] b r inode_ok_nodo [OF r(3)] by (simp add: deref_Some)
  qed
qed

section \<open>The handlers against the contract\<close>

definition cumple :: "pedido \<Rightarrow> filesystem \<Rightarrow> respuesta \<Rightarrow> filesystem \<Rightarrow> bool" where
  "cumple q s r t \<longleftrightarrow> fs_ok t \<and> espec q (vista_fs s) r (vista_fs t)"

lemma cumpleI:
  assumes "fs_ok t" and "espec_en q (tokens (ruta_de q)) (vista_fs s) r (vista_fs t)"
  shows "cumple q s r t"
  using assms tokens_ruta by (auto simp: cumple_def espec_def canonica_def)

lemma getattr_cumple:
  assumes "fs_ok s" and "fisopfs_getattr path s = Inr (r, t)"
  shows "cumple (Getattr path) s r t"
proof (rule cumpleI)
  have ts: "t = s"
    using assms(2) by (auto simp: fisopfs_getattr_def con_inode_eq_Inr Let_def split: option.splits)
  then show "fs_ok t" using assms(1) by simp
  show "espec_en (Getattr path) (tokens (ruta_de (Getattr path))) (vista_fs s) r (vista_fs t)"
    using assms(1)
  proof (cases rule: busqueda_cases [where path = path])
    case no
    then show ?thesis using assms(2) ts by (simp add: fisopfs_getattr_def)
  next
    case (si r' p m vs)
    then show ?thesis
      using assms(2) ts
      by (subst (asm) inode_ok_iff)
         (auto simp: fisopfs_getattr_def con_inode_eq_Inr Let_def entrada_de_def)
  qed
qed

lemma hijos_de_vista:
  assumes "seguir r ts = Some p" "nodo r p = Some m" "length p = length ts" "es_dir m"
  shows "hijos_de (vista r) ts = set (map nom (hijos m))"
proof -
  have "vista r (ts @ [t]) = (case hijo_llamado t m of None \<Rightarrow> None
      | Some i \<Rightarrow> Some (entrada_de (hijos m ! i)))" for t
    using vista_append [OF assms(1,3,2)] assms(4) by (simp split: option.split)
  moreover have "hijo_llamado t m = None \<longleftrightarrow> t \<notin> set (map nom (hijos m))" for t
    by (auto simp: hijo_llamado_def first_index_None)
  ultimately show ?thesis
    by (force simp: hijos_de_def split: option.splits)
qed

lemma readdir_cumple:
  assumes "fs_ok s" and "fisopfs_readdir path s = Inr (r, t)"
  shows "cumple (Readdir path) s r t"
proof (rule cumpleI)
  have ts: "t = s"
    using assms(2)
    by (auto simp: fisopfs_readdir_def con_inode_eq_Inr split: option.splits if_splits)
  then show "fs_ok t" using assms(1) by simp
  let ?us = "tokens path"
  have "espec_en (Readdir path) ?us (vista_fs s) r (vista_fs t)"
    using assms(1)
  proof (cases rule: busqueda_cases [where path = path])
    case no
    then show ?thesis using assms(2) ts by (simp add: fisopfs_readdir_def)
  next
    case (si r' p m vs)
    show ?thesis
    proof (cases "es_dir m")
      case True
      then have "vs = ?us" "hijos_de (vista r') ?us = set (map nom (hijos m))"
        "distinct (map nom (hijos m))"
        using si hijos_de_vista [of r' ?us p m] inode_ok_iff [of m] by auto
      then show ?thesis
        using si ts assms(2) True by (auto simp: fisopfs_readdir_def con_inode_eq_Inr)
    next
      case False
      then have "vista_fs s ?us \<noteq> Some EDir"
        using si seguir_vista [of r' ?us EDir] seguir_dir_full [of r' ?us] resuelve_vista [of r' ?us]
        by (auto split: option.splits)
      then show ?thesis
        using si ts assms(2) False by (auto simp: fisopfs_readdir_def con_inode_eq_Inr)
    qed
  qed
  then show "espec_en (Readdir path) (tokens (ruta_de (Readdir path))) (vista_fs s) r (vista_fs t)"
    by simp
qed

text \<open>A change of attributes only, and a change of a file's bytes.\<close>

lemma cambio_atr:
  assumes "fs_ok s" and "raiz s = Some r" and "nodo r p = Some m"
    and "seguir r us = Some p" and "length p = length us"
    and "nombre (g (atr m)) = nom m" and "es_directorio (g (atr m)) = es_directorio (atr m)"
    and "tamano (g (atr m)) = tamano (atr m)" and "enlaces (g (atr m)) = enlaces (atr m)"
  shows "fs_ok (modifica (con_atr g) p s)" and "vista_fs (modifica (con_atr g) p s) = vista_fs s"
proof -
  have m: "deref s p = Some m" using assms(2,3) by (simp add: deref_Some)
  have "inode_ok (con_atr g m)"
    using deref_ok [OF assms(1) m] assms(6-9) inode_ok_iff [of m] inode_ok_iff [of "con_atr g m"]
    by simp
  then show "fs_ok (modifica (con_atr g) p s)"
    using assms m by (intro fs_ok_modifica) auto
  show "vista_fs (modifica (con_atr g) p s) = vista_fs s"
    using vista_igual [where f = "con_atr g", OF assms(4,5,3)] assms(2,6,7)
    by (simp add: vista_fs_def)
qed

lemma cambio_archivo:
  assumes "fs_ok s" and "raiz s = Some r" and "nodo r p = Some m"
    and "seguir r us = Some p" and "length p = length us" and "\<not> es_dir m"
    and "nombre (g (atr m)) = nom m" and "es_directorio (g (atr m)) = es_directorio (atr m)"
    and "enlaces (g (atr m)) = enlaces (atr m)"
    and "length (case c of None \<Rightarrow> [] | Some b \<Rightarrow> b) = unat (tamano (g (atr m)))"
  defines "f \<equiv> \<lambda>n. con_atr g (con_contenido c n)"
  shows "fs_ok (modifica f p s)"
    and "vista_fs (modifica f p s) = (vista_fs s)(us \<mapsto> EArch (case c of None \<Rightarrow> [] | Some b \<Rightarrow> b))"
proof -
  have m: "deref s p = Some m" using assms(2,3) by (simp add: deref_Some)
  have "inode_ok (f m)"
    using deref_ok [OF assms(1) m] assms(6-10) inode_ok_iff [of m] inode_ok_iff [of "f m"]
    by (simp add: f_def)
  then show "fs_ok (modifica f p s)"
    using assms m by (intro fs_ok_modifica) (auto simp: f_def)
  show "vista_fs (modifica f p s) = (vista_fs s)(us \<mapsto> EArch (case c of None \<Rightarrow> [] | Some b \<Rightarrow> b))"
    using vista_archivo [where f = f, OF assms(4,5,3)] assms(2,6,7,8)
    by (simp add: vista_fs_def f_def)
qed

lemma utimens_cumple:
  assumes "fs_ok s" and "fisopfs_utimens path at mt s = Inr (r, t)"
  shows "cumple (Utimens path at mt) s r t"
  using assms(1)
proof (cases rule: busqueda_cases [where path = path])
  case no
  then show ?thesis using assms by (auto simp: fisopfs_utimens_def intro!: cumpleI)
next
  case (si r' p m us)
  let ?g = "\<lambda>a. a\<lparr>acceso := at, modificacion := mt, cambio_estado := ahora s\<rparr>"
  have g: "guardar_fs (modifica (con_atr ?g) p (tic s)) = Inr t" "r = Cod 0"
    using assms(2) si by (auto simp: fisopfs_utimens_def Let_def and_then_eq_Inr)
  show ?thesis
    using si assms(1) guardar_fs_ok [OF g(1)] g(2)
      cambio_atr [of "tic s" r' p m us ?g]
    by (intro cumpleI) auto
qed

text \<open>The bytes that a read returns; when the 64-bit sum wraps, the copy is out of bounds.\<close>

lemma lectura:
  fixes off n tam :: "64 word" and c :: string
  assumes "(if off < tam then lee_bloque c (unat off)
              (unat (if off < tam then (if off + n > tam then tam - off else n) else 0)) else Inr []) = Inr d"
    and "length c = unat tam"
  shows "d = take (unat n) (drop (unat off) c)"
    and "(if off < tam then (if off + n > tam then tam - off else n) else 0) = word_of_nat (length d)"
proof -
  have "d = take (unat n) (drop (unat off) c) \<and>
    (if off < tam then (if off + n > tam then tam - off else n) else 0) = word_of_nat (length d)"
  proof (cases "off < tam")
    case False
    then show ?thesis using assms by (simp add: word_less_nat_alt)
  next
    case True
    then have lt: "unat off < unat tam" by (simp add: word_less_nat_alt)
    then have sub: "unat (tam - off) = unat tam - unat off"
      using True by (simp add: unat_sub_if')
    show ?thesis
    proof (cases "off + n > tam")
      case gt: True
      have "unat (off + n) \<le> unat off + unat n"
        by (simp add: unat_word_ariths(1) mod_less_eq_dividend)
      with gt have "unat tam < unat off + unat n"
        by (simp add: word_less_nat_alt)
      moreover have d: "d = drop (unat off) c"
        using assms True gt sub by (simp add: lee_bloque_def)
      moreover have "tam - off = word_of_nat (length d)"
        unfolding d length_drop assms(2) sub [symmetric] by simp
      ultimately show ?thesis
        using assms(2) True gt by simp
    next
      case False
      then have d: "d = take (unat n) (drop (unat off) c)" and le: "unat off + unat n \<le> length c"
        using assms(1) True by (simp_all add: lee_bloque_def)
      have "length d = unat n"
        using le by (simp add: d)
      then show ?thesis
        using d True False by simp
    qed
  qed
  then show "d = take (unat n) (drop (unat off) c)"
    "(if off < tam then (if off + n > tam then tam - off else n) else 0) = word_of_nat (length d)"
    by auto
qed

lemma read_cumple:
  assumes "fs_ok s" and "fisopfs_read path n off s = Inr (r, t)"
  shows "cumple (Read path n off) s r t"
  using assms(1)
proof (cases rule: busqueda_cases [where path = path])
  case no
  then show ?thesis using assms by (auto simp: fisopfs_read_def intro!: cumpleI)
next
  case (si r' p m us)
  show ?thesis
  proof (cases "es_dir m")
    case True
    then show ?thesis using assms si
      by (auto simp: fisopfs_read_def con_inode_eq_Inr entrada_de_def intro!: cumpleI)
  next
    case False
    let ?g = "\<lambda>a. a\<lparr>acceso := ahora s\<rparr>"
    let ?sz = "if off < tamano (atr m) then (if off + n > tamano (atr m) then tamano (atr m) - off else n) else 0"
    obtain d where d: "(if off < tamano (atr m) then lee_bloque (bytes m) (unat off) (unat ?sz) else Inr []) = (Inr d :: fallo + string)"
      and r: "r = RDatos (a_int ?sz) d" and t: "t = tic (modifica (con_atr ?g) p s)"
      using assms(2) si False
      by (auto simp: fisopfs_read_def con_inode_eq_Inr and_then_eq_Inr Let_def simp del: if_split)
    have len: "length (bytes m) = unat (tamano (atr m))"
      using si False inode_ok_iff [of m] by simp
    note lectura [OF d len]
    then show ?thesis
      using si False r t assms(1) cambio_atr [of s r' p m us ?g]
      by (intro cumpleI) (auto simp: Let_def entrada_de_def)
  qed
qed

lemma datos_entrada:
  assumes "inode_ok m" and "\<not> es_dir m"
  shows "entrada_de m = EArch (bytes m)" and "length (bytes m) = unat (tamano (atr m))"
  using assms inode_ok_iff [of m] by (simp_all add: entrada_de_def)

lemma entrada_dir: "es_dir m \<Longrightarrow> entrada_de m = EDir"
  by (simp add: entrada_de_def)

lemma unat_of_length_le:
  fixes w :: "64 word"
  shows "unat (word_of_nat n :: 64 word) \<le> n"
  by (simp add: unat_of_nat take_bit_nat_eq_self_iff take_bit_nat_less_eq_self)

lemma open_cumple:
  assumes "fs_ok s" and "fisopfs_open path fl s = Inr (r, t)"
  shows "cumple (Open path fl) s r t"
  using assms(1)
proof (cases rule: busqueda_cases [where path = path])
  case no
  then show ?thesis using assms by (auto simp: fisopfs_open_def intro!: cumpleI)
next
  case (si r' p m us)
  show ?thesis
  proof (cases "es_dir m")
    case True
    then show ?thesis using assms si
      by (auto simp: fisopfs_open_def con_inode_eq_Inr entrada_dir intro!: cumpleI)
  next
    case False
    let ?g = "\<lambda>a. a\<lparr>tamano := 0, modificacion := ahora s, cambio_estado := ahora (tic s)\<rparr>"
    let ?s = "modifica (\<lambda>n. con_atr ?g (con_contenido None n)) p (tic (tic s))"
    consider "r = Cod (- EACCES)" "t = s"
      | "r = Cod 0" "fl AND O_TRUNC \<noteq> 0" "guardar_fs ?s = Inr t"
      | "r = Cod 0" "fl AND O_TRUNC = 0" "t = s"
      using assms(2) si False
      by (auto simp: fisopfs_open_def con_inode_eq_Inr and_then_eq_Inr Let_def split: if_splits)
    then show ?thesis
    proof cases
      case 2
      have "fs_ok ?s" "vista_fs ?s = (vista_fs s)(us \<mapsto> EArch [])"
        using cambio_archivo [of "tic (tic s)" r' p m us ?g None] assms(1) si False by simp_all
      then show ?thesis
        using 2 si False guardar_fs_ok [OF 2(3)]
        by (intro cumpleI) (simp_all add: datos_entrada)
    qed (use assms si False in \<open>auto simp: datos_entrada intro!: cumpleI\<close>)
  qed
qed

lemma truncate_cumple:
  assumes "fs_ok s" and "fisopfs_truncate path n s = Inr (r, t)"
  shows "cumple (Truncate path n) s r t"
  using assms(1)
proof (cases rule: busqueda_cases [where path = path])
  case no
  then show ?thesis using assms by (auto simp: fisopfs_truncate_def intro!: cumpleI)
next
  case (si r' p m us)
  show ?thesis
  proof (cases "es_dir m")
    case True
    then show ?thesis using assms si
      by (auto simp: fisopfs_truncate_def con_inode_eq_Inr entrada_dir intro!: cumpleI)
  next
    case False
    let ?g = "\<lambda>a. a\<lparr>tamano := n, modificacion := ahora s, cambio_estado := ahora (tic s)\<rparr>"
    let ?b = "realloc s (bytes m) (unat n)"
    let ?T = "unat (tamano (atr m))"
    let ?c = "if n = 0 then None
      else if n > tamano (atr m) then Some (take ?T ?b @ replicate (unat n - ?T) (CHR 0x00)) else Some ?b"
    let ?s = "modifica (\<lambda>n. con_atr ?g (con_contenido ?c n)) p (tic (tic s))"
    note m = datos_entrada [OF si(9) False]
    have c: "(case ?c of None \<Rightarrow> [] | Some b \<Rightarrow> b) =
        take (unat n) (bytes m) @ replicate (unat n - length (bytes m)) (CHR 0x00)"
      using m(2) by (auto simp: realloc_def word_less_nat_alt not_less unat_eq_zero)
    have "\<forall>n. realloc_ok (host s) n" using assms(1) by (simp add: fs_ok_def)
    then have g: "guardar_fs ?s = Inr t" "r = Cod 0"
      using assms(2) si False
      by (auto simp: fisopfs_truncate_def con_inode_eq_Inr and_then_eq_Inr Let_def)
    have "fs_ok ?s" "vista_fs ?s = (vista_fs s)(us \<mapsto>
        EArch (take (unat n) (bytes m) @ replicate (unat n - length (bytes m)) (CHR 0x00)))"
      using cambio_archivo [of "tic (tic s)" r' p m us ?g ?c] assms(1) si False
      unfolding c by simp_all
    then show ?thesis
      using g(2) si False m guardar_fs_ok [OF g(1)]
      by (intro cumpleI) simp_all
  qed
qed

text \<open>The block that a write leaves behind.\<close>

lemma escritura:
  assumes "escribe_bloque b off buf = Inr c'"
  shows "length c' = length b" and "take (length buf) (drop off c') = buf"
    and "\<And>i. i < length b \<Longrightarrow> i < off \<or> off + length buf \<le> i \<Longrightarrow> c' ! i = b ! i"
  using assms by (auto simp: escribe_bloque_def nth_append min_def)

lemma nth_realloc: "i < length c \<Longrightarrow> i < n \<Longrightarrow> realloc s c n ! i = c ! i"
  by (simp add: realloc_def nth_append)

lemma length_realloc [simp]: "length (realloc s c n) = n"
  by (simp add: realloc_def min_def)

lemma unat_64: "unat (w :: 64 word) < 2 ^ 64"
  using unsigned_less [of w] by simp

lemma suma_escritura:
  fixes off tam :: "64 word"
  assumes "if off + word_of_nat l > tam then unat off + l \<le> unat (off + word_of_nat l) else unat off + l \<le> unat tam"
  shows "unat (off + word_of_nat l) = unat off + l"
    and "off + word_of_nat l > tam \<longleftrightarrow> unat tam < unat off + l"
    and "unat (word_of_nat l :: 64 word) = l"
proof -
  have lt: "unat off + l < 2 ^ 64"
    using assms unat_64 [of "off + word_of_nat l"] unat_64 [of tam]
    by (auto split: if_splits)
  then show l: "unat (word_of_nat l :: 64 word) = l"
    by (simp add: unat_of_nat)
  show eq: "unat (off + word_of_nat l) = unat off + l"
    using lt l by (simp add: unat_word_ariths(1))
  show "off + word_of_nat l > tam \<longleftrightarrow> unat tam < unat off + l"
    by (simp add: word_less_nat_alt eq)
qed

lemma en_nodo_cong: "nodo n p = Some m \<Longrightarrow> f m = g m \<Longrightarrow> en_nodo f p n = en_nodo g p n"
  by (induction n p rule: nodo.induct) (auto split: if_splits)

lemma modifica_cong:
  "raiz s = Some r \<Longrightarrow> nodo r p = Some m \<Longrightarrow> f m = g m \<Longrightarrow> modifica f p s = modifica g p s"
  by (simp add: modifica_def en_nodo_cong [of r p m f g])

lemma write_cumple:
  assumes "fs_ok s" and "fisopfs_write path buf off s = Inr (r, t)"
  shows "cumple (Write path buf off) s r t"
  using assms(1)
proof (cases rule: busqueda_cases [where path = path])
  case no
  then show ?thesis using assms by (auto simp: fisopfs_write_def intro!: cumpleI)
next
  case (si r' p m us)
  show ?thesis
  proof (cases "es_dir m")
    case True
    then show ?thesis using assms si
      by (auto simp: fisopfs_write_def con_inode_eq_Inr entrada_dir intro!: cumpleI)
  next
    case False
    let ?fin = "off + word_of_nat (length buf)"
    let ?T = "tamano (atr m)"
    let ?b = "if ?fin > ?T then realloc s (bytes m) (unat ?fin) else bytes m"
    let ?g = "\<lambda>a. a\<lparr>tamano := if ?fin > ?T then ?fin else ?T, modificacion := ahora s,
        cambio_estado := ahora (tic s)\<rparr>"
    note m = datos_entrada [OF si(9) False]
    obtain c' where c': "escribe_bloque ?b (unat off) buf = (Inr c' :: fallo + string)"
      and r: "r = Cod (a_int (word_of_nat (length buf)))"
      and t: "guardar_fs (modifica (\<lambda>n. con_atr ?g (con_contenido
          (if ?fin > ?T then Some c' else map_option (\<lambda>_. c') (contenido n)) n)) p (tic (tic s))) = Inr t"
      using assms(2) si False
      by (auto simp: fisopfs_write_def con_inode_eq_Inr and_then_eq_Inr Let_def simp del: if_split)
    let ?c = "if ?fin > ?T then Some c' else map_option (\<lambda>_. c') (contenido m)"
    have "unat off + length buf \<le> length ?b"
      using c' by (simp add: escribe_bloque_def del: if_split)
    then have fin: "unat ?fin = unat off + length buf" "?fin > ?T \<longleftrightarrow> unat ?T < unat off + length buf"
      using suma_escritura [of ?T off "length buf"] m(2) by (auto split: if_splits)
    note e = escritura [OF c']
    have c: "(case ?c of None \<Rightarrow> [] | Some b \<Rightarrow> b) = c'"
      using e(1) by (cases "contenido m") (auto simp: bytes_def)
    have len: "length c' = max (length (bytes m)) (unat off + length buf)"
      using e(1) fin m(2) by auto
    have old: "c' ! i = bytes m ! i"
      if "i < length (bytes m)" "i < unat off \<or> unat off + length buf \<le> i" for i
      using that e(3) [of i] fin m(2) by (auto simp: nth_realloc split: if_splits)
    let ?f = "\<lambda>n. con_atr ?g (con_contenido ?c n)"
    have "modifica (\<lambda>n. con_atr ?g (con_contenido
          (if ?fin > ?T then Some c' else map_option (\<lambda>_. c') (contenido n)) n)) p (tic (tic s)) =
        modifica ?f p (tic (tic s))"
      using si(3,4) by (intro modifica_cong) auto
    then have g: "guardar_fs (modifica ?f p (tic (tic s))) = Inr t"
      using t by simp
    have "unat (if ?fin > ?T then ?fin else ?T) = length c'"
      using len fin m(2) by auto
    then have "fs_ok (modifica ?f p (tic (tic s)))"
      "vista_fs (modifica ?f p (tic (tic s))) = (vista_fs s)(us \<mapsto> EArch c')"
      using cambio_archivo [of "tic (tic s)" r' p m us ?g ?c] assms(1) si False
      unfolding c by simp_all
    then show ?thesis
      using r si False m(1) len old e(2) guardar_fs_ok [OF g]
      by (intro cumpleI) (auto intro!: exI [of _ c'])
  qed
qed

section \<open>The handlers that change the shape of the tree\<close>

lemma seguir_snoc:
  assumes "seguir n ts = Some q" and "nodo n q = Some d"
  shows "seguir n (ts @ [t]) =
    (if es_dir d then map_option (\<lambda>i. q @ [i]) (hijo_llamado t d) else Some q)"
  using assms
proof (induction ts arbitrary: n q)
  case Nil
  then show ?case by (auto simp: option.map_comp split: option.splits)
next
  case (Cons u ts)
  show ?case
  proof (cases "es_dir n")
    case False
    with Cons.prems show ?thesis by auto
  next
    case True
    with Cons.prems(1) obtain i q' where i: "hijo_llamado u n = Some i"
      and q': "seguir (hijos n ! i) ts = Some q'" "q = i # q'"
      by (auto split: option.splits)
    then have "nodo (hijos n ! i) q' = Some d"
      using Cons.prems(2) by (auto split: if_splits)
    from Cons.IH [OF q'(1) this] True i q' show ?thesis
      by (simp add: option.map_comp comp_def)
  qed
qed

lemma seguir_snoc_None: "seguir n ts = None \<Longrightarrow> seguir n (ts @ [t]) = None"
  by (induction ts arbitrary: n) (auto split: option.splits if_splits)

lemma tokens_nombre:
  assumes "CHR ''/'' \<notin> set t"
  shows "tokens t = (if t = [] then [] else [t])"
proof (cases "t = []")
  case False
  then have "componente_ok t" using assms by (simp add: componente_ok_def)
  from tokens_component [OF this, of "[]"] False show ?thesis by simp
qed simp

lemma takeWhile_corte: "\<not> P y \<Longrightarrow> takeWhile P (xs @ y # ys) = takeWhile P xs"
  and dropWhile_corte: "\<not> P y \<Longrightarrow> dropWhile P (xs @ y # ys) = dropWhile P xs @ y # ys"
  by (induction xs) auto

lemma tokens_corte: "CHR ''/'' \<notin> set t \<Longrightarrow> tokens (p @ CHR ''/'' # t) = tokens p @ (if t = [] then [] else [t])"
proof (induction p rule: tokens.induct)
  case (1 p)
  let ?r = "dropWhile (\<lambda>c. c = CHR ''/'') p"
  show ?case
  proof (cases "?r = []")
    case True
    then have "dropWhile (\<lambda>c. c = CHR ''/'') (p @ CHR ''/'' # t) = dropWhile (\<lambda>c. c = CHR ''/'') t"
      by (simp add: dropWhile_append)
    then have "tokens (p @ CHR ''/'' # t) = tokens t"
      by (subst (1 2) tokens.simps) simp
    moreover have "tokens p = []" using True by (subst tokens.simps) simp
    ultimately show ?thesis using 1(2) by (simp add: tokens_nombre)
  next
    case False
    let ?d = "dropWhile (\<lambda>c. c \<noteq> CHR ''/'') ?r"
    have split: "dropWhile (\<lambda>c. c = CHR ''/'') (p @ CHR ''/'' # t) = ?r @ CHR ''/'' # t"
      using False by (auto simp: dropWhile_append)
    have take: "takeWhile (\<lambda>c. c \<noteq> CHR ''/'') (?r @ CHR ''/'' # t) = takeWhile (\<lambda>c. c \<noteq> CHR ''/'') ?r"
      by (simp add: takeWhile_corte)
    have drop: "tokens (dropWhile (\<lambda>c. c \<noteq> CHR ''/'') (?r @ CHR ''/'' # t)) = tokens (?d @ CHR ''/'' # t)"
      by (simp add: dropWhile_corte)
    have "tokens (p @ CHR ''/'' # t) = takeWhile (\<lambda>c. c \<noteq> CHR ''/'') ?r # tokens (?d @ CHR ''/'' # t)"
      by (subst tokens.simps) (simp add: split take drop)
    moreover have "tokens p = takeWhile (\<lambda>c. c \<noteq> CHR ''/'') ?r # tokens ?d"
      using False by (subst tokens.simps) (auto simp: Let_def)
    ultimately show ?thesis using 1 False by simp
  qed
qed

lemma ultima_barra_Some:
  assumes "ultima_barra path = Some (pre, t)"
  shows "path = pre @ CHR ''/'' # t" and "CHR ''/'' \<notin> set t"
proof -
  let ?D = "dropWhile (\<lambda>c. c \<noteq> CHR ''/'') (rev path)"
  have in_set: "CHR ''/'' \<in> set path" and pre: "pre = rev (tl ?D)"
    and t: "t = rev (takeWhile (\<lambda>c. c \<noteq> CHR ''/'') (rev path))"
    using assms by (auto simp: ultima_barra_def split: if_splits)
  have ne: "?D \<noteq> []" using in_set by (auto simp: dropWhile_eq_Nil_conv)
  then have "?D = CHR ''/'' # tl ?D"
    using hd_dropWhile [OF ne] by (cases ?D) auto
  then have "rev path = rev t @ CHR ''/'' # rev pre"
    by (metis pre t rev_rev_ident takeWhile_dropWhile_id)
  then show "path = pre @ CHR ''/'' # t"
    by (metis append.assoc append_Cons append_Nil rev.simps(2) rev_append rev_rev_ident)
  show "CHR ''/'' \<notin> set t"
    by (auto simp: t dest: set_takeWhileD)
qed

lemma padre_cases [consumes 2, case_names nada si]:
  assumes "raiz s = Some r" and "buscar_padre path s = Inr (padre, nomb)"
  obtains (nada) "padre = None" "\<And>ts. canonica ts \<Longrightarrow> path = ruta ts \<Longrightarrow> ts = []"
  | (si) us where "padre = seguir r us" "tokens path = us @ (if nomb = [] then [] else [nomb])"
      "CHR ''/'' \<notin> set nomb" "length nomb < MAX_FILENAME_LENGTH"
      "\<And>ts. canonica ts \<Longrightarrow> path = ruta ts \<Longrightarrow> nomb \<noteq> []"
proof (cases "path = ''/''")
  case True
  then have "padre = None" using assms by (auto simp: buscar_padre_def split: option.splits)
  moreover have "ts = []" if "canonica ts" "path = ruta ts" for ts
    using that True ruta_not_root [of ts] by auto
  ultimately show ?thesis by (rule nada)
next
  case False
  have can: "\<exists>us t. ts = us @ [t] \<and> ultima_barra path = Some (if us = [] then [] else ruta us, t) \<and> t \<noteq> []"
    if "canonica ts" "path = ruta ts" for ts
    using that False ultima_barra_ruta
    by (cases ts rule: rev_cases) (auto simp: ruta_def componente_ok_def)
  show ?thesis
  proof (cases "ultima_barra path")
    case None
    then have "padre = None" using assms by (simp add: buscar_padre_def)
    moreover have "ts = []" if "canonica ts" "path = ruta ts" for ts
      using can [OF that] None by auto
    ultimately show ?thesis by (rule nada)
  next
    case (Some pt)
    obtain pre t where pt: "pt = (pre, t)" by fastforce
    have path: "path = pre @ CHR ''/'' # t" "CHR ''/'' \<notin> set t"
      using ultima_barra_Some Some pt by auto
    have "nomb = t" "length t < MAX_FILENAME_LENGTH" "padre = seguir r (tokens pre)"
      using assms Some pt False buscar_seguir [OF assms(1)]
      by (auto simp: buscar_padre_def split: if_splits)
    moreover have "t \<noteq> []" if "canonica ts" "path = ruta ts" for ts
      using can [OF that] Some pt by auto
    ultimately show ?thesis
      using si [of "tokens pre"] path tokens_corte [OF path(2), of pre] by simp
  qed
qed

lemma inode_ok_con_hijos:
  assumes "inode_ok m" and "es_dir m" and "distinct (map nom hs)"
    and "\<And>h. h \<in> set hs \<Longrightarrow> nombre_ok (nom h) \<and> inode_ok h"
    and "es_directorio (g (atr m)) = es_directorio (atr m)" "tamano (g (atr m)) = tamano (atr m)"
      "enlaces (g (atr m)) = enlaces (atr m)"
  shows "inode_ok (con_atr g (con_hijos hs m))"
proof -
  have "enlaces (atr m) = 1 \<and> contenido m = None \<and> tamano (atr m) = 0"
    using assms(1,2) inode_ok_iff [of m] by simp
  then show ?thesis
    using assms(2-7) by (subst inode_ok_iff) simp
qed

lemma eliminar_ok:
  assumes "fs_ok s" and "eliminar_inode padre tgt s = Inr t"
  shows "fs_ok t"
proof -
  let ?f = "\<lambda>i. \<lambda>n. con_atr (\<lambda>a. a\<lparr>modificacion := ahora s\<rparr>) (con_hijos (remove_nth i (hijos n)) n)"
  show ?thesis
  proof (cases "t = s")
    case False
    then obtain p where padre: "padre = Some p" using assms(2) by (cases padre) (auto simp: eliminar_inode_def)
    obtain n where n: "deref s p = Some n"
      using assms(2) padre by (cases "deref s p") (auto simp: eliminar_inode_def)
    then have d: "es_dir n" using assms(2) padre False by (cases "es_dir n") (auto simp: eliminar_inode_def)
    then obtain i where t: "t = tic (modifica (?f i) p s)"
      using assms(2) padre False n
      by (cases "first_index (\<lambda>i. p @ [i] = tgt) [0..<length (hijos n)]") (auto simp: eliminar_inode_def)
    have ok: "inode_ok n" using deref_ok [OF assms(1) n] .
    have "inode_ok (?f i n)"
      using ok d set_remove_nth [of i "hijos n"] inode_ok_iff [of n]
      by (intro inode_ok_con_hijos) (auto simp: map_remove_nth distinct_remove_nth)
    then show ?thesis
      unfolding t fs_ok_tic using assms(1) n by (rule_tac fs_ok_modifica) auto
  qed (use assms in simp)
qed

text \<open>Removing the inode that a canonical path leads to.\<close>

lemma eliminar_vista:
  assumes "fs_ok s" and "raiz s = Some r" and "seguir r (ts @ [t]) = Some p" and "nodo r p = Some m"
    and "length p = Suc (length ts)" and "\<not> es_dir m \<or> hijos m = []"
    and "eliminar_inode (seguir r ts) p s = Inr u"
  shows "vista_fs u = (vista_fs s)(ts @ [t] := None)"
proof -
  have ok: "inode_ok r" using assms(1,2) by (auto simp: fs_ok_def)
  obtain q where q: "seguir r ts = Some q"
    using assms(3) seguir_snoc_None [of r ts t] by (cases "seguir r ts") auto
  then obtain d where d: "nodo r q = Some d" and lq: "length q \<le> length ts" by (rule seguir_Some)
  then have dd: "es_dir d" using assms(3,5) seguir_snoc [OF q d, of t] by (auto split: if_splits)
  then obtain i where i: "hijo_llamado t d = Some i" and p: "p = q @ [i]"
    using assms(3) seguir_snoc [OF q d, of t] by auto
  have il: "i < length (hijos d)" and tn: "nom (hijos d ! i) = t"
    using i by (auto dest: hijo_llamado_lt hijo_llamado_nom)
  have "nodo r (q @ [i]) = Some (hijos d ! i)"
    using d il by (induction r q rule: nodo.induct) (auto split: if_splits)
  then have m: "m = hijos d ! i" using assms(4) p by simp
  have "first_index (\<lambda>j. q @ [j] = p) [0..<length (hijos d)] = Some i"
    using il by (auto simp: first_index_Some p)
  then have u: "u = tic (modifica (\<lambda>n. con_atr (\<lambda>a. a\<lparr>modificacion := ahora s\<rparr>)
        (con_hijos (remove_nth i (hijos n)) n)) q s)"
    using assms(2,7) d dd by (simp add: eliminar_inode_def q deref_Some)
  have "distinct (map nom (hijos d))"
    using inode_ok_nodo [OF ok d] dd inode_ok_iff [of d] by simp
  moreover have "length q = length ts"
    using p assms(5) by simp
  ultimately have "vista (en_nodo (\<lambda>n. con_atr (\<lambda>a. a\<lparr>modificacion := ahora s\<rparr>)
        (con_hijos (remove_nth i (hijos n)) n)) q r) = (vista r)(ts @ [t] := None)"
    using q d dd il tn assms(6) m by (intro vista_baja) auto
  then show ?thesis
    using assms(2) by (simp add: u vista_fs_def)
qed

lemma eliminar_archivo:
  assumes "deref s p = Some m" and "\<not> es_dir m" and "eliminar_inode (Some p) q s = Inr u"
  shows "u = s"
  using assms by (simp add: eliminar_inode_def)

lemma cumple_canonica:
  assumes "fs_ok t"
    and "\<And>ts. canonica ts \<Longrightarrow> ruta_de q = ruta ts \<Longrightarrow> espec_en q ts (vista_fs s) r (vista_fs t)"
  shows "cumple q s r t"
  using assms by (auto simp: cumple_def espec_def)

lemma cumple_en:
  "cumple q s r t \<Longrightarrow> canonica ts \<Longrightarrow> ruta_de q = ruta ts \<Longrightarrow> espec_en q ts (vista_fs s) r (vista_fs t)"
  and cumple_ok: "cumple q s r t \<Longrightarrow> fs_ok t"
  by (auto simp: cumple_def espec_def)

lemma tokens_canonica: "canonica ts \<Longrightarrow> tokens (ruta ts) = ts"
  by (simp add: canonica_def tokens_ruta)

text \<open>A lookup that stops early stops at the same file one component before.\<close>

lemma corto_en_padre:
  assumes "seguir r (ts @ [t]) = Some p" and "length p \<noteq> Suc (length ts)"
  shows "seguir r ts = Some p"
proof -
  obtain q where q: "seguir r ts = Some q"
    using assms(1) seguir_snoc_None [of r ts t] by (cases "seguir r ts") auto
  then obtain d where d: "nodo r q = Some d" by (rule seguir_Some)
  show ?thesis
    using assms q seguir_snoc [OF q d, of t] seguir_dir_full(1) [OF q d] by (auto split: if_splits)
qed

lemma unlink_cumple:
  assumes "fs_ok s" and "fisopfs_unlink path s = Inr (r, t)"
  shows "cumple (Unlink path) s r t"
  using assms(1)
proof (cases rule: busqueda_cases [where path = path])
  case no
  then show ?thesis using assms by (auto simp: fisopfs_unlink_def intro!: cumpleI)
next
  case (si r' p m us)
  show ?thesis
  proof (cases "es_dir m")
    case True
    then show ?thesis using assms si
      by (auto simp: fisopfs_unlink_def con_inode_eq_Inr entrada_dir intro!: cumpleI)
  next
    case False
    then obtain padre nomb s1 where padre: "buscar_padre path s = Inr (padre, nomb)"
      and s1: "eliminar_inode padre p s = Inr s1" and g: "guardar_fs s1 = Inr t" and r: "r = Cod 0"
      using assms(2) si by (auto simp: fisopfs_unlink_def con_inode_eq_Inr and_then_eq_Inr)
    have "fs_ok t" using guardar_fs_ok(1) [OF g] eliminar_ok [OF assms(1) s1] by simp
    then show ?thesis
    proof (rule cumple_canonica)
      fix ts assume can: "canonica ts" "ruta_de (Unlink path) = ruta ts"
      then have path: "path = ruta ts" "tokens path = ts" by (simp_all add: tokens_canonica)
      have "ts \<noteq> []"
      proof
        assume "ts = []"
        then have "m = r'" using si path by auto
        then show False using False assms(1) si(3) by (auto simp: fs_ok_def)
      qed
      then obtain ws w where ts: "ts = ws @ [w]" by (cases ts rule: rev_cases) auto
      have "padre = seguir r' ws"
        using padre padre_ruta [OF si(3), of ws w] can(1) path ts
        by (auto simp: check_that_def split: if_splits)
      then have s1: "eliminar_inode (seguir r' ws) p s = Inr s1" using s1 by simp
      have entry: "vista_fs s (resuelve (vista_fs s) ts) = Some (EArch (bytes m))"
        using si path False datos_entrada by simp
      show "espec_en (Unlink path) ts (vista_fs s) r (vista_fs t)"
      proof (cases "us = ts")
        case True
        then have "vista_fs s1 = (vista_fs s)(ts := None)"
          using si path False eliminar_vista [OF assms(1) si(3) _ _ _ _ s1, of w m] ts by simp
        then show ?thesis
          using entry True si(5) path(2) r guardar_fs_ok(2) [OF g] by simp
      next
        case no: False
        have p: "seguir r' ts = Some p"
          using buscar_seguir [OF si(3), of path] si(1) path by simp
        then have us: "us = take (length p) ts"
          using si path resuelve_vista [of r' ts] by simp
        then have "seguir r' ws = Some p"
          using p ts no us take_all [of ts "length p"]
          by (intro corto_en_padre [of r' ws w p]) auto
        then have "s1 = s"
          using s1 eliminar_archivo [OF si(2) False] by simp
        then show ?thesis
          using entry no si(5) path(2) r guardar_fs_ok(2) [OF g] by simp
      qed
    qed
  qed
qed

lemma no_dir_vista:
  assumes "seguir r ts = Some p" and "nodo r p = Some m" and "\<not> es_dir m"
  shows "vista r ts \<noteq> Some EDir"
  using assms seguir_vista [of r ts EDir] by auto

lemma rmdir_cumple:
  assumes "fs_ok s" and "fisopfs_rmdir path s = Inr (r, t)"
  shows "cumple (Rmdir path) s r t"
  using assms(1)
proof (cases rule: busqueda_cases [where path = path])
  case no
  then show ?thesis using assms by (auto simp: fisopfs_rmdir_def intro!: cumpleI)
next
  case (si r' p m us)
  have p: "seguir r' (tokens path) = Some p"
    using si buscar_seguir [OF si(3), of path] by simp
  show ?thesis
  proof (cases "es_dir m \<and> hijos m = []")
    case False
    then have "r = Cod (- ENOTEMPTY)" "t = s"
      using assms(2) si by (auto simp: fisopfs_rmdir_def con_inode_eq_Inr split: if_splits)
    moreover have "\<not> (vista r' (tokens path) = Some EDir \<and> hijos_de (vista r') (tokens path) = {})"
      using False no_dir_vista [OF p si(4)] hijos_de_vista [OF p si(4)] seguir_dir_full [OF p si(4)]
      by (cases "es_dir m") auto
    ultimately show ?thesis using assms(1) si by (intro cumpleI) auto
  next
    case True
    then obtain padre nomb s1 where padre: "buscar_padre path s = Inr (padre, nomb)"
      and s1: "eliminar_inode padre p s = Inr s1" and g: "guardar_fs s1 = Inr t" and r: "r = Cod 0"
      using assms(2) si by (auto simp: fisopfs_rmdir_def con_inode_eq_Inr and_then_eq_Inr)
    have "fs_ok t" using guardar_fs_ok(1) [OF g] eliminar_ok [OF assms(1) s1] by simp
    then show ?thesis
    proof (rule cumple_canonica)
      fix ts assume can: "canonica ts" "ruta_de (Rmdir path) = ruta ts"
      then have path: "path = ruta ts" "tokens path = ts" by (simp_all add: tokens_canonica)
      have dir: "vista r' ts = Some EDir \<and> hijos_de (vista r') ts = {}"
        using True p path hijos_de_vista [of r' ts p m] seguir_dir_full [of r' ts p m] si(4) by simp
      have "vista_fs s1 = (if ts = [] then vista_fs s else (vista_fs s)(ts := None))"
      proof (cases ts rule: rev_cases)
        case Nil
        then show ?thesis using padre s1 path by (simp add: padre_ruta_Nil eliminar_inode_def)
      next
        case (snoc ws w)
        then have "padre = seguir r' ws"
          using padre padre_ruta [OF si(3), of ws w] can(1) path
          by (auto simp: check_that_def split: if_splits)
        then have s1: "eliminar_inode (seguir r' ws) p s = Inr s1" using s1 by simp
        have "length p = Suc (length ws)"
          using seguir_dir_full(1) [OF p si(4)] True path snoc by simp
        then show ?thesis
          using p si(4) path True eliminar_vista [OF assms(1) si(3) _ _ _ _ s1, of w m] snoc by simp
      qed
      then show "espec_en (Rmdir path) ts (vista_fs s) r (vista_fs t)"
        using dir si(10) r guardar_fs_ok(2) [OF g] by simp
    qed
  qed
qed

lemma crear_inode_sel:
  assumes "crear_inode nomb md dir s = (h, t)"
  shows "raiz t = raiz s" "host t = host s" "archivo_disco t = archivo_disco s"
    and "length nomb < MAX_FILENAME_LENGTH \<Longrightarrow> \<exists>i. h = Some i \<and> nom i = nomb \<and> hijos i = [] \<and>
      contenido i = None \<and> tamano (atr i) = 0 \<and> enlaces (atr i) = 1 \<and> es_directorio (atr i) = dir"
  using assms by (auto simp: crear_inode_def Let_def tic_def split: if_splits)

text \<open>Both creations, in one argument: \<open>e\<close> is the entry they make.\<close>

lemma crea_cumple:
  assumes "fs_ok s" and "crea_en path md dir s = Inr (r, t)"
    and "ruta_de q = path" and "\<And>ts a r b. espec_en q ts a r b = espec_alta e ts a r b"
    and "e = (if dir \<noteq> 0 then EDir else EArch [])"
  shows "cumple q s r t"
proof -
  obtain r' where r': "raiz s = Some r'" "es_dir r'" "inode_ok r'" "vista_fs s = vista r'"
    using assms(1) by (rule fs_okE)
  obtain padre nomb where padre: "buscar_padre path s = Inr (padre, nomb)"
    using assms(2) by (auto simp: crea_en_def and_then_eq_Inr)
  show ?thesis
    using r'(1) padre
  proof (cases rule: padre_cases)
    case nada
    then have "r = Cod (- ENOENT)" "t = s"
      using assms(2) padre by (simp_all add: crea_en_def)
    then show ?thesis
      using nada(2) assms(1,3,4) by (intro cumple_canonica) (auto simp: espec_alta_def)
  next
    case (si us)
    have fin: "cumple q s r t"
      if "fs_ok t" "nomb \<noteq> [] \<Longrightarrow> espec_alta e (us @ [nomb]) (vista_fs s) r (vista_fs t)"
    proof (rule cumple_canonica [OF that(1)])
      fix ts assume ts: "canonica ts" "ruta_de q = ruta ts"
      then have nomb: "nomb \<noteq> []" using si(5) [OF ts(1)] assms(3) by simp
      moreover have "tokens path = ts" using ts assms(3) tokens_canonica by simp
      ultimately have "ts = us @ [nomb]" using si(2) by simp
      with nomb show "espec_en q ts (vista_fs s) r (vista_fs t)"
        using that(2) assms(4) by simp
    qed
    show ?thesis
    proof (cases "\<exists>p n. seguir r' us = Some p \<and> nodo r' p = Some n \<and> es_dir n")
      case False
      have "vista r' us \<noteq> Some EDir"
        using seguir_vista [of r' us EDir] False by auto
      moreover have "r = Cod (- ENOENT)" "t = s"
        using assms(2) padre si(1) r'(1) False
        by (auto simp: crea_en_def con_inode_eq_Inr deref_Some split: option.splits)
      ultimately show ?thesis
        using assms(1) r'(4) by (intro fin) (auto simp: espec_alta_def)
    next
      case True
      then obtain p n where p: "seguir r' us = Some p" "nodo r' p = Some n" "es_dir n" by blast
      note full = seguir_dir_full [OF p]
      show ?thesis
      proof (cases "buscar_inode path s = None")
        case False
        then have "r = Cod (- EEXIST)" "t = s"
          using assms(2) padre si(1) p r'(1) by (auto simp: crea_en_def con_inode_eq_Inr deref_Some)
        moreover have "vista r' (us @ [nomb]) \<noteq> None" if "nomb \<noteq> []"
          using False seguir_snoc [OF p(1,2), of nomb] buscar_seguir [OF r'(1), of path] that p(3) si(2)
            vista_append [OF p(1) full(1) p(2), of "[nomb]"]
          by (auto split: option.splits)
        ultimately show ?thesis
          using assms(1) r'(4) full(2) by (intro fin) (auto simp: espec_alta_def)
      next
        case True
        have nomb: "nomb \<noteq> []"
        proof
          assume "nomb = []"
          then have "buscar_inode path s = Some p"
            using si(2) p(1) buscar_seguir [OF r'(1), of path] by simp
          with True show False by simp
        qed
        then have "tokens path = us @ [nomb]" using si(2) by simp
        then have libre: "hijo_llamado nomb n = None"
          using True seguir_snoc [OF p(1,2), of nomb] p(3) buscar_seguir [OF r'(1), of path] by simp
        obtain h s1 where h: "crear_inode nomb md dir s = (h, s1)" by fastforce
        note crear = crear_inode_sel [OF h]
        obtain i where i: "h = Some i" "nom i = nomb" "hijos i = []" "contenido i = None"
          "tamano (atr i) = 0" "enlaces (atr i) = 1" "es_directorio (atr i) = dir"
          using crear(4) si(4) by blast
        obtain s2 k where g: "guardar_fs s1 = Inr s2"
          and a: "agregar_hijo padre h s2 = Inr (k, t)" "r = Cod k"
          using assms(2) padre si(1) p r'(1) True h
          by (auto simp: crea_en_def con_inode_eq_Inr deref_Some and_then_eq_Inr)
        note g' = guardar_fs_sel [OF g]
        have s2: "raiz s2 = Some r'" "fs_ok s2"
          using g'(1-3) crear(1-3) r'(1) assms(1) fs_ok_cong [of s2 s] by simp_all
        let ?g = "\<lambda>a. a\<lparr>modificacion := ahora s2\<rparr>"
        let ?f = "\<lambda>n. con_atr ?g (con_hijos (hijos n @ [i]) n)"
        have t: "t = tic (modifica ?f p s2)" "k = 0"
          using a(1) si(1) p s2(1) i(1) by (simp_all add: agregar_hijo_def deref_Some)
        have n: "inode_ok n" using inode_ok_nodo [OF r'(3) p(2)] .
        have "inode_ok i" using i by (subst inode_ok_iff) (simp add: bytes_def)
        moreover have "nombre_ok nomb"
          using si(3,4) nomb by (simp add: nombre_ok_def componente_ok_def)
        moreover have "nomb \<notin> nom ` set (hijos n)"
          using libre by (auto simp: hijo_llamado_def first_index_None)
        ultimately have "inode_ok (?f n)"
          using n p(3) inode_ok_iff [of n] i(2) by (intro inode_ok_con_hijos) auto
        then have "fs_ok t"
          unfolding t(1) fs_ok_tic using s2 p by (intro fs_ok_modifica [where m = n]) (auto simp: deref_Some)
        moreover have "vista_fs t = (vista_fs s)(us @ [nomb] \<mapsto> e)"
        proof -
          have "entrada_de i = e" using i(4,7) assms(5) by (simp add: entrada_de_def bytes_def)
          then show ?thesis
            using vista_alta [OF p(1) full(1) p(2,3) libre i(2,3), of ?g] r'(4) s2(1)
            by (simp add: t vista_fs_def)
        qed
        moreover have "vista r' (us @ [nomb]) = None"
          using libre vista_append [OF p(1) full(1) p(2), of "[nomb]"] by simp
        ultimately show ?thesis
          using r'(4) full(2) a(2) t(2) by (intro fin) (auto simp: espec_alta_def)
      qed
    qed
  qed
qed

lemma mkdir_cumple:
  "fs_ok s \<Longrightarrow> fisopfs_mkdir path md s = Inr (r, t) \<Longrightarrow> cumple (Mkdir path md) s r t"
  unfolding fisopfs_mkdir_def by (erule crea_cumple [where e = EDir], assumption) simp_all

lemma create_cumple:
  "fs_ok s \<Longrightarrow> fisopfs_create path md s = Inr (r, t) \<Longrightarrow> cumple (Create path md) s r t"
  unfolding fisopfs_create_def by (erule crea_cumple [where e = "EArch []"], assumption) simp_all

lemmas handlers_cumplen =
  getattr_cumple readdir_cumple mkdir_cumple rmdir_cumple create_cumple read_cumple write_cumple
  unlink_cumple open_cumple truncate_cumple utimens_cumple

lemma operations_cumple:
  assumes "fs_ok s" and "operations q s = Inr (r, t)"
  shows "cumple q s r t"
  using assms by (cases q) (simp_all add: handlers_cumplen)

section \<open>No handler crashes on a request that fits\<close>

text \<open>
  The last component of the path fits in the callers' buffers, and the end of the range that is read
  or written fits in 64 bits.
\<close>

definition ruta_cabe :: "string \<Rightarrow> bool" where
  "ruta_cabe path =
     (case ultima_barra path of None \<Rightarrow> True | Some (pre, t) \<Rightarrow> length t < MAX_FILENAME_LENGTH)"

fun pedido_ok :: "pedido \<Rightarrow> bool" where
  "pedido_ok (Read p n off) \<longleftrightarrow> unat off + unat n < 2 ^ 64"
| "pedido_ok (Write p b off) \<longleftrightarrow> unat off + length b < 2 ^ 64"
| "pedido_ok (Mkdir p m) \<longleftrightarrow> ruta_cabe p"
| "pedido_ok (Create p m) \<longleftrightarrow> ruta_cabe p"
| "pedido_ok (Unlink p) \<longleftrightarrow> ruta_cabe p"
| "pedido_ok (Rmdir p) \<longleftrightarrow> ruta_cabe p"
| "pedido_ok q \<longleftrightarrow> True"

lemma guardar_fs_total: "fs_ok s \<Longrightarrow> \<exists>t. guardar_fs s = Inr t"
  using guardar_total(1) by (fastforce simp: fs_ok_def guardar_fs_def split: option.split)

lemma buscar_padre_total: "ruta_cabe path \<Longrightarrow> \<exists>x. buscar_padre path s = Inr x"
  by (auto simp: ruta_cabe_def buscar_padre_def split: option.splits)

lemma eliminar_total:
  "fs_ok s \<Longrightarrow> (\<And>q. padre = Some q \<Longrightarrow> deref s q \<noteq> None) \<Longrightarrow> \<exists>t. eliminar_inode padre p s = Inr t"
  by (auto simp: eliminar_inode_def split: option.split)

lemma padre_deref:
  assumes "fs_ok s" and "buscar_padre path s = Inr (Some q, nomb)"
  shows "\<exists>n. deref s q = Some n"
proof -
  obtain r where r: "raiz s = Some r" using assms(1) by (auto simp: fs_ok_def)
  show ?thesis
    using r assms(2)
  proof (cases rule: padre_cases)
    case (si us)
    from si(1) [symmetric] obtain n where "nodo r q = Some n" by (rule seguir_Some)
    then show ?thesis using deref_Some [OF r] by simp
  qed simp
qed

lemma baja_total:
  assumes "fs_ok s" and "ruta_cabe path"
  shows "\<exists>padre nomb s1 t. buscar_padre path s = Inr (padre, nomb) \<and> eliminar_inode padre p s = Inr s1 \<and>
    guardar_fs s1 = Inr t"
proof -
  obtain padre nomb where b: "buscar_padre path s = Inr (padre, nomb)"
    using buscar_padre_total [OF assms(2), of s] by auto
  have "deref s q \<noteq> None" if "padre = Some q" for q
    using padre_deref [OF assms(1), of path q nomb] b that by auto
  then obtain s1 where e: "eliminar_inode padre p s = Inr s1"
    using eliminar_total [OF assms(1), of padre p] by blast
  then show ?thesis
    using b guardar_fs_total [OF eliminar_ok [OF assms(1) e]] by blast
qed

lemma bajas_total:
  assumes "fs_ok s" and "ruta_cabe path"
  shows "\<exists>r t. fisopfs_unlink path s = Inr (r, t)" "\<exists>r t. fisopfs_rmdir path s = Inr (r, t)"
proof -
  show "\<exists>r t. fisopfs_unlink path s = Inr (r, t)"
    using assms(1)
  proof (cases rule: busqueda_cases [where path = path])
    case (si r p m us)
    then show ?thesis
      using baja_total [OF assms, of p] by (auto simp: fisopfs_unlink_def con_inode_def)
  qed (simp add: fisopfs_unlink_def)
  show "\<exists>r t. fisopfs_rmdir path s = Inr (r, t)"
    using assms(1)
  proof (cases rule: busqueda_cases [where path = path])
    case (si r p m us)
    then show ?thesis
      using baja_total [OF assms, of p] by (auto simp: fisopfs_rmdir_def con_inode_def)
  qed (simp add: fisopfs_rmdir_def)
qed

lemma crea_total:
  assumes "fs_ok s" and "ruta_cabe path"
  shows "\<exists>r t. crea_en path md dir s = Inr (r, t)"
proof -
  obtain padre nomb where b: "buscar_padre path s = Inr (padre, nomb)"
    using buscar_padre_total [OF assms(2), of s] by auto
  obtain r where r: "raiz s = Some r" using assms(1) by (auto simp: fs_ok_def)
  show ?thesis
  proof (cases padre)
    case None
    then show ?thesis using b by (simp add: crea_en_def)
  next
    case (Some p)
    then obtain n where n: "deref s p = Some n" using padre_deref [OF assms(1)] b by blast
    have nomb: "length nomb < MAX_FILENAME_LENGTH"
      using r b by (cases rule: padre_cases) (simp_all add: Some)
    obtain h s1 where h: "crear_inode nomb md dir s = (h, s1)" by fastforce
    note crear = crear_inode_sel [OF h]
    have "fs_ok s1" using assms(1) crear fs_ok_cong [of s1 s] by simp
    then obtain s2 where g: "guardar_fs s1 = Inr s2" using guardar_fs_total by blast
    have "deref s2 p = Some n"
      using n crear(1) guardar_fs_sel(1) [OF g] by (simp add: deref_def)
    then show ?thesis
      using b Some n h g crear(4) [OF nomb]
      by (auto simp: crea_en_def con_inode_def agregar_hijo_def)
  qed
qed

lemma lee_total:
  assumes "length c = unat (tam :: 64 word)" and "unat off + unat n < 2 ^ 64" and "off < tam"
  shows "\<exists>d. lee_bloque c (unat off) (unat (if off + n > tam then tam - off else n)) = Inr d"
proof -
  have "unat (off + n) = unat off + unat n"
    using assms(2) by (simp add: unat_word_ariths(1))
  then show ?thesis
    using assms(1,3) by (auto simp: lee_bloque_def word_less_nat_alt unat_sub_if')
qed

lemma read_total:
  assumes "fs_ok s" and "unat off + unat n < 2 ^ 64"
  shows "\<exists>r t. fisopfs_read path n off s = Inr (r, t)"
  using assms(1)
proof (cases rule: busqueda_cases [where path = path])
  case (si r p m us)
  show ?thesis
  proof (cases "es_dir m")
    case False
    then show ?thesis
      using si(1,2) lee_total [OF datos_entrada(2) [OF si(9) False] assms(2)]
      by (auto simp: fisopfs_read_def con_inode_def Let_def)
  qed (use si in \<open>simp add: fisopfs_read_def con_inode_def\<close>)
qed (simp add: fisopfs_read_def)

lemma cambio_archivo_total:
  assumes "fs_ok s" and "raiz s = Some r" and "nodo r p = Some m" and "\<not> es_dir m"
    and "seguir r us = Some p" and "length p = length us"
    and "nombre (g (atr m)) = nom m" and "es_directorio (g (atr m)) = es_directorio (atr m)"
    and "enlaces (g (atr m)) = enlaces (atr m)"
    and "length (case c m of None \<Rightarrow> [] | Some b \<Rightarrow> b) = unat (tamano (g (atr m)))"
  shows "\<exists>t. guardar_fs (modifica (\<lambda>n. con_atr g (con_contenido (c n) n)) p s) = Inr t"
proof -
  have "fs_ok (modifica (\<lambda>n. con_atr g (con_contenido (c m) n)) p s)"
    using cambio_archivo(1) [of s r p m us g "c m"] assms by simp
  moreover have "modifica (\<lambda>n. con_atr g (con_contenido (c m) n)) p s =
      modifica (\<lambda>n. con_atr g (con_contenido (c n) n)) p s"
    using assms(2,3) by (intro modifica_cong) auto
  ultimately show ?thesis using guardar_fs_total by simp
qed

lemma write_total:
  assumes "fs_ok s" and "unat off + length buf < 2 ^ 64"
  shows "\<exists>r t. fisopfs_write path buf off s = Inr (r, t)"
  using assms(1)
proof (cases rule: busqueda_cases [where path = path])
  case (si r p m us)
  show ?thesis
  proof (cases "es_dir m")
    case False
    let ?l = "word_of_nat (length buf) :: 64 word"
    let ?T = "tamano (atr m)"
    let ?b = "if off + ?l > ?T then realloc s (bytes m) (unat (off + ?l)) else bytes m"
    note m = datos_entrada(2) [OF si(9) False]
    have "unat ?l = length buf" using assms(2) by (simp add: unat_of_nat)
    then have fin: "unat (off + ?l) = unat off + length buf"
      using assms(2) by (simp add: unat_word_ariths(1))
    then have b: "length ?b = unat (if off + ?l > ?T then off + ?l else ?T)"
      "unat off + length buf \<le> length ?b"
      using m by (auto simp: word_less_nat_alt)
    then obtain c' where c': "escribe_bloque ?b (unat off) buf = (Inr c' :: fallo + string)"
      by (auto simp: escribe_bloque_def simp del: if_split)
    note len = escritura(1) [OF c']
    let ?c = "\<lambda>n. if off + ?l > ?T then Some c' else map_option (\<lambda>_. c') (contenido n)"
    have "length (case ?c m of None \<Rightarrow> [] | Some b \<Rightarrow> b) = unat (if off + ?l > ?T then off + ?l else ?T)"
      using len b m by (cases "contenido m") (auto simp: bytes_def split: if_splits)
    then have "\<exists>t. guardar_fs (modifica (\<lambda>n. con_atr (\<lambda>a. a\<lparr>tamano := if off + ?l > ?T then off + ?l else ?T,
        modificacion := ahora s, cambio_estado := ahora (tic s)\<rparr>) (con_contenido (?c n) n)) p (tic (tic s))) = Inr t"
      using assms(1) si False by (intro cambio_archivo_total [where us = us and m = m and r = r]) simp_all
    moreover have "realloc_ok (host s) k" for k using assms(1) by (simp add: fs_ok_def)
    ultimately show ?thesis
      using si(1,2) False c' by (auto simp: fisopfs_write_def con_inode_def Let_def simp del: if_split)
  qed (use si in \<open>simp add: fisopfs_write_def con_inode_def\<close>)
qed (simp add: fisopfs_write_def)

lemma open_total:
  assumes "fs_ok s"
  shows "\<exists>r t. fisopfs_open path fl s = Inr (r, t)"
  using assms(1)
proof (cases rule: busqueda_cases [where path = path])
  case (si r p m us)
  show ?thesis
  proof (cases "es_dir m")
    case False
    have "\<exists>t. guardar_fs (modifica (\<lambda>n. con_atr (\<lambda>a. a\<lparr>tamano := 0, modificacion := ahora s,
        cambio_estado := ahora (tic s)\<rparr>) (con_contenido None n)) p (tic (tic s))) = Inr t"
      using assms(1) si False by (intro cambio_archivo_total [where us = us and m = m and r = r]) simp_all
    then show ?thesis
      using si(1,2) False by (auto simp: fisopfs_open_def con_inode_def Let_def)
  qed (use si in \<open>simp add: fisopfs_open_def con_inode_def\<close>)
qed (simp add: fisopfs_open_def)

lemma truncate_total:
  assumes "fs_ok s"
  shows "\<exists>r t. fisopfs_truncate path n s = Inr (r, t)"
  using assms(1)
proof (cases rule: busqueda_cases [where path = path])
  case (si r p m us)
  show ?thesis
  proof (cases "es_dir m")
    case False
    let ?T = "unat (tamano (atr m))"
    let ?b = "realloc s (bytes m) (unat n)"
    let ?c = "if n = 0 then None
      else if n > tamano (atr m) then Some (take ?T ?b @ replicate (unat n - ?T) (CHR 0x00)) else Some ?b"
    have "length (case ?c of None \<Rightarrow> [] | Some b \<Rightarrow> b) = unat n"
      by (auto simp: word_less_nat_alt)
    then have "\<exists>t. guardar_fs (modifica (\<lambda>k. con_atr (\<lambda>a. a\<lparr>tamano := n, modificacion := ahora s,
        cambio_estado := ahora (tic s)\<rparr>) (con_contenido ?c k)) p (tic (tic s))) = Inr t"
      using assms(1) si False by (intro cambio_archivo_total [where us = us and m = m and r = r]) simp_all
    moreover have "realloc_ok (host s) k" for k using assms(1) by (simp add: fs_ok_def)
    ultimately show ?thesis
      using si(1,2) False by (auto simp: fisopfs_truncate_def con_inode_def Let_def simp del: if_split)
  qed (use si in \<open>simp add: fisopfs_truncate_def con_inode_def\<close>)
qed (simp add: fisopfs_truncate_def)

lemma utimens_total:
  assumes "fs_ok s"
  shows "\<exists>r t. fisopfs_utimens path at mt s = Inr (r, t)"
  using assms(1)
proof (cases rule: busqueda_cases [where path = path])
  case (si r p m us)
  have "fs_ok (modifica (con_atr (\<lambda>a. a\<lparr>acceso := at, modificacion := mt, cambio_estado := ahora s\<rparr>)) p (tic s))"
    using assms si by (intro cambio_atr(1) [where us = us and m = m and r = r]) simp_all
  then show ?thesis
    using si(1) guardar_fs_total by (fastforce simp: fisopfs_utimens_def Let_def)
qed (simp add: fisopfs_utimens_def)

lemma lecturas_total:
  assumes "fs_ok s"
  shows "\<exists>r t. fisopfs_getattr path s = Inr (r, t)" "\<exists>r t. fisopfs_readdir path s = Inr (r, t)"
  using assms
  by (cases rule: busqueda_cases [where path = path];
      simp add: fisopfs_getattr_def fisopfs_readdir_def con_inode_def Let_def)+

lemmas handlers_total =
  lecturas_total bajas_total crea_total read_total write_total open_total truncate_total utimens_total

lemma operations_total: "fs_ok s \<Longrightarrow> pedido_ok q \<Longrightarrow> \<exists>r t. operations q s = Inr (r, t)"
  by (cases q) (simp_all add: handlers_total fisopfs_mkdir_def fisopfs_create_def)

interpretation fisop: servicio operations fs_ok vista_fs espec pedido_ok
  by unfold_locales (auto dest: operations_cumple operations_total simp: cumple_def)

end
