(* ===== verification/Fisop_Contrato.thy ===== *)
theory Fisop_Contrato
  imports Fisop_Props
begin

text \<open>
  What fisopfs promises, as statements about the handlers of \<^verbatim>\<open>fisopfs/fisopfs.c\<close>: every run of
  requests answers as the abstract map of paths does, what is on disk can be loaded again, a file
  reads back what was written; and where the code falls short: a new inode is saved too late, a long
  name overflows a buffer, \<^verbatim>\<open>unlink\<close> below a file reports success.
\<close>

section \<open>Concrete file systems for the witnesses\<close>

definition host0 :: anfitrion where
  "host0 = \<lparr>uid = 1000, gid = 1000, tiempo = (\<lambda>k. of_nat k), basura = (\<lambda>i. CHR 0xFF),
     realloc_ok = (\<lambda>n. True), abre_escritura = True, error_lectura = False\<rparr>"

definition fs_vacio :: filesystem where
  "fs_vacio = \<lparr>raiz = None, archivo_disco = Some ''d'', disco = Map.empty, reloj = 0, host = host0\<rparr>"

definition atr0 :: "string \<Rightarrow> 32 word \<Rightarrow> 64 word \<Rightarrow> atributos" where
  "atr0 t d n = \<lparr>nombre = t, modo = 0x1FF, usuario_id = 0, grupo_id = 0, tamano = n, acceso = 0,
     modificacion = 0, cambio_estado = 0, enlaces = 1, es_directorio = d\<rparr>"

definition archivo0 :: inode where
  "archivo0 = Inode (atr0 ''f'' 0 2) (Some ''hi'') []"

definition raiz0 :: inode where
  "raiz0 = Inode (atr0 ''/'' 1 0) None [archivo0, Inode (atr0 ''d'' 1 0) None []]"

definition fs0 :: filesystem where
  "fs0 = fs_vacio\<lparr>raiz := Some raiz0\<rparr>"

lemma fs0_ok: "fs_ok fs0"
  by (simp add: fs_ok_def fs0_def fs_vacio_def raiz0_def archivo0_def atr0_def host0_def inode_ok.simps
      nombre_ok_def componente_ok_def MAX_FILENAME_LENGTH_def)

lemma fs0_sel [simp]:
  "raiz fs0 = Some raiz0" "archivo_disco fs0 = Some ''d''" "abre_escritura (host fs0)"
  "\<not> error_lectura (host fs0)"
  by (simp_all add: fs0_def fs_vacio_def host0_def)

section \<open>Runs\<close>



text \<open>
  C2: What \<^verbatim>\<open>fisopfs_destroy\<close> saves, \<^verbatim>\<open>fisopfs_init\<close> loads: unmounting and mounting again on the
  same file gives a well-formed file system with the same paths and the same bytes.
\<close>
theorem destroy_init:
  assumes "fs_ok s" and "raiz s = Some r" and "cabe r" and "length (nom r) < 2 ^ 64"
    and "archivo_disco s = Some f" and "abre_escritura (host s)" and "\<not> error_lectura (host s)"
  shows "\<exists>t u. fisopfs_destroy s = Inr (Cod 0, t) \<and> raiz t = None \<and>
    fisopfs_init f t = Inr (Cod 0, u) \<and> fs_ok u \<and> vista_fs u = vista_fs s"
proof -
  have r: "inode_ok r" "es_dir r" using assms(1,2) by (auto simp: fs_ok_def)
  obtain b where b: "guardar_inode r = Inr b" using guardar_total(1) [OF r(1)] by blast
  have load: "cargar_inode (length b) b = Some (recargado r, [])"
    using b r(1) assms(3,4) by (rule cargar_guardar)
  have "inode_ok (recargado r)" "vista (recargado r) = vista r"
    using inode_ok_recargado [OF r(1)] vista_recargado by auto
  then show ?thesis
    using assms r b load
    by (auto simp: fisopfs_destroy_def fisopfs_init_def guardar_fs_def cargar_fs_def fs_ok_def vista_fs_def)
qed

theorem destroy_init_witness:
  "\<exists>t u. fisopfs_destroy fs0 = Inr (Cod 0, t) \<and> raiz t = None \<and>
    fisopfs_init ''d'' t = Inr (Cod 0, u) \<and> fs_ok u \<and> vista_fs u = vista_fs fs0"
  by (rule destroy_init [OF fs0_ok, of raiz0]) (simp_all add: raiz0_def archivo0_def atr0_def)

text \<open>
  C3: A file reads back what was written: after a write of \<open>buf\<close> at \<open>off\<close> to an existing file, which
  reports the number of bytes, a read of that range returns \<open>buf\<close>.
\<close>
theorem write_read:
  assumes "fs_ok s" and "canonica ts" and "vista_fs s ts = Some (EArch c)"
    and "unat off + length buf < 2 ^ 64"
  shows "\<exists>t u. fisopfs_write (ruta ts) buf off s = Inr (Cod (a_int (of_nat (length buf))), t) \<and>
    fisopfs_read (ruta ts) (of_nat (length buf)) off t = Inr (RDatos (a_int (of_nat (length buf))) buf, u)"
proof -
  obtain r where r: "raiz s = Some r" "vista_fs s = vista r" using assms(1) by (rule fs_okE)
  have res: "resuelve (vista_fs s) ts = ts"
    using assms(3) r seguir_vista [of r ts] by (auto simp: resuelve_vista)
  obtain q t where w: "fisopfs_write (ruta ts) buf off s = Inr (q, t)"
    using write_total [OF assms(1,4)] by blast
  note cw = write_cumple [OF assms(1) w]
  from cumple_ok [OF cw] have t: "fs_ok t" .
  obtain c' where q: "q = Cod (a_int (of_nat (length buf)))"
      and v: "vista_fs t ts = Some (EArch c')" and buf: "take (length buf) (drop (unat off) c') = buf"
    using cumple_en [OF cw assms(2)] assms(3) res by auto
  obtain r' where r': "raiz t = Some r'" "vista_fs t = vista r'" using t by (rule fs_okE)
  have res': "resuelve (vista_fs t) ts = ts"
    using v r' seguir_vista [of r' ts] by (auto simp: resuelve_vista)
  have len: "unat (of_nat (length buf) :: 64 word) = length buf"
    using assms(4) by (simp add: unat_of_nat)
  then obtain x u where u: "fisopfs_read (ruta ts) (of_nat (length buf)) off t = Inr (x, u)"
    using read_total [OF t, of off "of_nat (length buf)" "ruta ts"] assms(4) by auto
  have "x = RDatos (a_int (of_nat (length buf))) buf"
    using cumple_en [OF read_cumple [OF t u] assms(2)] v res' buf len by simp
  with w q u show ?thesis by blast
qed

theorem write_read_witness:
  "\<exists>t u. fisopfs_write (ruta [''f'']) ''abc'' 1 fs0 = Inr (Cod (a_int (of_nat (length ''abc''))), t) \<and>
    fisopfs_read (ruta [''f'']) (of_nat (length ''abc'')) 1 t =
      Inr (RDatos (a_int (of_nat (length ''abc''))) ''abc'', u)"
  by (rule write_read [OF fs0_ok])
     (simp_all add: canonica_def componente_ok_def vista_fs_def raiz0_def archivo0_def atr0_def
       hijo_llamado_def entrada_de_def)

section \<open>Memory and the disk\<close>

text \<open>
  C4: \<^verbatim>\<open>liberar_inode\<close> frees every block of a well-formed tree, each exactly once: no leak and no
  double free.
\<close>
theorem liberar_una_vez:
  assumes "inode_ok n"
  shows "distinct (liberar_inode p n) \<and>
    set (liberar_inode p n) = {b. \<exists>q m. nodo n q = Some m \<and> b \<in> bloques (p @ q) m}"
  using distinct_liberar set_liberar [OF assms] by blast

theorem liberar_una_vez_witness:
  "distinct (liberar_inode [] raiz0) \<and>
    set (liberar_inode [] raiz0) = {b. \<exists>q m. nodo raiz0 q = Some m \<and> b \<in> bloques ([] @ q) m}"
  by (rule liberar_una_vez) (use fs0_ok in \<open>simp add: fs_ok_def\<close>)

lemma guardar_fs_disco:
  assumes "guardar_fs s = Inr t" and "raiz s = Some r" and "archivo_disco s = Some f"
    and "abre_escritura (host s)" and "inode_ok r" and "cabe r" and "length (nom r) < 2 ^ 64"
  shows "\<exists>img. disco t f = Some img \<and> cargar_inode (length img) img = Some (recargado r, [])"
  using assms cargar_guardar by (auto simp: guardar_fs_def and_then_eq_Inr)

text \<open>
  C5: \<^verbatim>\<open>fisopfs_mkdir\<close> and \<^verbatim>\<open>fisopfs_create\<close> save the disk before they link the new inode: right
  after a successful creation the disk file still holds the tree without it.
\<close>
theorem crea_guarda_antes:
  assumes "fs_ok s" and "raiz s = Some r" and "cabe r" and "length (nom r) < 2 ^ 64"
    and "archivo_disco s = Some f" and "abre_escritura (host s)"
    and "crea_en path md dir s = Inr (Cod 0, t)"
  shows "\<exists>img r'. disco t f = Some img \<and> cargar_inode (length img) img = Some (r', []) \<and>
    vista r' = vista_fs s"
proof -
  obtain padre h s1 s2 where s1: "raiz s1 = raiz s" "host s1 = host s" "archivo_disco s1 = archivo_disco s"
    and g: "guardar_fs s1 = Inr s2" and a: "agregar_hijo padre h s2 = Inr (0, t)"
    using assms(7)
    by (auto simp: crea_en_def con_inode_eq_Inr and_then_eq_Inr ENOENT_def EEXIST_def
        split: option.splits if_splits prod.splits) (metis crear_inode_sel(1-3))
  have r: "inode_ok r" using assms(1,2) by (auto simp: fs_ok_def)
  have "\<exists>img. disco s2 f = Some img \<and> cargar_inode (length img) img = Some (recargado r, [])"
    by (rule guardar_fs_disco [OF g]) (use s1 assms r in simp_all)
  moreover have "disco t = disco s2"
    using a by (auto simp: agregar_hijo_def ENOTDIR_def split: option.splits if_splits)
  moreover have "vista (recargado r) = vista_fs s"
    using assms(2) vista_recargado by (auto simp: vista_fs_def)
  ultimately show ?thesis by auto
qed

theorem crea_guarda_antes_witness:
  "\<exists>t. crea_en ''/n'' 0 1 fs0 = Inr (Cod 0, t) \<and>
    (\<exists>img r'. disco t ''d'' = Some img \<and> cargar_inode (length img) img = Some (r', []) \<and>
      vista r' = vista_fs fs0)"
proof -
  obtain x t where t: "crea_en ''/n'' 0 1 fs0 = Inr (x, t)"
    using crea_total [OF fs0_ok, of "''/n''" 0 1]
    by (auto simp: ruta_cabe_def ultima_barra_def MAX_FILENAME_LENGTH_def)
  have "cumple (Mkdir (ruta [''n'']) 0) fs0 x t"
    by (rule crea_cumple [OF fs0_ok t]) (simp_all add: ruta_def)
  then have "x = Cod 0"
    using cumple_en [of _ _ _ _ "[''n'']"]
    by (fastforce simp: canonica_def componente_ok_def espec_alta_def vista_fs_def raiz0_def archivo0_def
        atr0_def hijo_llamado_def entrada_de_def)
  moreover from t this have "\<exists>img r'. disco t ''d'' = Some img \<and>
      cargar_inode (length img) img = Some (r', []) \<and> vista r' = vista_fs fs0"
    by (intro crea_guarda_antes [OF fs0_ok, of raiz0 _ "''/n''" 0 1])
       (simp_all add: raiz0_def archivo0_def atr0_def)
  ultimately show ?thesis using t by blast
qed

text \<open>
  C5: A name of \<^verbatim>\<open>MAX_FILENAME_LENGTH\<close> bytes or more in the last component overflows the array
  \<^verbatim>\<open>nombre\<close> on the stack of \<^verbatim>\<open>fisopfs_mkdir\<close> and \<^verbatim>\<open>fisopfs_create\<close>, in any directory.
\<close>
theorem nombre_largo_desborda:
  assumes "canonica ts" and "componente_ok t" and "MAX_FILENAME_LENGTH \<le> length t" and "fs_ok s"
  shows "fisopfs_mkdir (ruta (ts @ [t])) md s = Inl DesbordePila \<and>
    fisopfs_create (ruta (ts @ [t])) md s = Inl DesbordePila"
proof -
  obtain r where "raiz s = Some r" using assms(4) by (auto simp: fs_ok_def)
  from padre_ruta [OF this assms(1,2)] assms(3) show ?thesis
    by (simp add: fisopfs_mkdir_def fisopfs_create_def crea_en_def check_that_def)
qed

theorem nombre_largo_desborda_witness:
  "fisopfs_mkdir (ruta ([''d''] @ [replicate 64 (CHR ''x'')])) 0 fs0 = Inl DesbordePila \<and>
    fisopfs_create (ruta ([''d''] @ [replicate 64 (CHR ''x'')])) 0 fs0 = Inl DesbordePila"
  by (rule nombre_largo_desborda [OF _ _ _ fs0_ok])
     (simp_all add: canonica_def componente_ok_def MAX_FILENAME_LENGTH_def)

text \<open>
  C7: \<^verbatim>\<open>unlink\<close> of a path that goes through a file (\<^verbatim>\<open>/f/x\<close> where \<^verbatim>\<open>/f\<close> is a file) reports success
  and removes nothing: the lookup answers for the file, and the file is not a child of itself.
\<close>
theorem unlink_bajo_archivo:
  assumes "fs_ok s" and "canonica (ts @ us)" and "us \<noteq> []" and "vista_fs s ts = Some (EArch c)"
    and "ruta_cabe (ruta (ts @ us))"
  shows "\<exists>t. fisopfs_unlink (ruta (ts @ us)) s = Inr (Cod 0, t) \<and> vista_fs t = vista_fs s"
proof -
  obtain r where r: "raiz s = Some r" "vista_fs s = vista r" using assms(1) by (rule fs_okE)
  have "resuelve (vista r) (ts @ us) = ts"
    using assms(4) unfolding r(2) by (rule resuelve_archivo)
  moreover obtain q t where u: "fisopfs_unlink (ruta (ts @ us)) s = Inr (q, t)"
    using bajas_total(1) [OF assms(1,5)] by blast
  ultimately show ?thesis
    using cumple_en [OF unlink_cumple [OF assms(1) u] assms(2)] assms(3,4) r(2) by auto
qed

theorem unlink_bajo_archivo_witness:
  "\<exists>t. fisopfs_unlink (ruta ([''f''] @ [''x''])) fs0 = Inr (Cod 0, t) \<and> vista_fs t = vista_fs fs0"
  by (rule unlink_bajo_archivo [OF fs0_ok, where c = "''hi''"])
     (simp_all add: canonica_def componente_ok_def vista_fs_def raiz0_def archivo0_def atr0_def
       hijo_llamado_def entrada_de_def ruta_cabe_def ruta_def ultima_barra_def MAX_FILENAME_LENGTH_def)

section \<open>Mounting\<close>

text \<open>
  With no disk file \<^verbatim>\<open>fisopfs_init\<close> starts from a file system that is well formed and holds only
  the empty root directory.
\<close>
theorem init_sin_disco:
  assumes "disco s f = None" and "\<forall>n. realloc_ok (host s) n"
  shows "\<exists>t. fisopfs_init f s = Inr (Cod 0, t) \<and> fs_ok t \<and> vista_fs t = [[] \<mapsto> EDir]"
proof -
  obtain t where t: "fisopfs_init f s = Inr (Cod 0, t)"
    "\<exists>r. raiz t = Some r \<and> es_dir r \<and> contenido r = None \<and> hijos r = [] \<and> enlaces (atr r) = 1 \<and>
      tamano (atr r) = 0" "host t = host s" "archivo_disco t = Some f"
    using assms(1)
    by (auto simp: fisopfs_init_def cargar_fs_def nueva_raiz_def crear_inode_def Let_def
        MAX_FILENAME_LENGTH_def)
  then obtain r where r: "raiz t = Some r" "es_dir r" "contenido r = None" "hijos r = []"
    "enlaces (atr r) = 1" "tamano (atr r) = 0" by blast
  then have "inode_ok r" by (subst inode_ok_iff) simp
  moreover have "vista r = [[] \<mapsto> EDir]"
    using r by (auto simp: vista_hoja entrada_de_def)
  ultimately show ?thesis using t(1,3,4) r assms(2) by (auto simp: fs_ok_def vista_fs_def)
qed

theorem init_sin_disco_witness:
  "\<exists>t. fisopfs_init ''g'' fs_vacio = Inr (Cod 0, t) \<and> fs_ok t \<and> vista_fs t = [[] \<mapsto> EDir]"
  by (rule init_sin_disco) (simp_all add: fs_vacio_def host0_def)

end
