(* ===== verification/Shell_Parse.thy ===== *)
theory Shell_Parse
  imports Prelude
begin

text \<open>
  The command language of the shell: \<^verbatim>\<open>shell/types.h\<close>, \<^verbatim>\<open>createcmd.c\<close>, \<^verbatim>\<open>parsing.c\<close>,
  \<^verbatim>\<open>utils.c\<close>, \<^verbatim>\<open>readline.c\<close> and \<^verbatim>\<open>freecmd.c\<close>. A C string is the list of its characters
  before the terminator. The arrays keep their bounds: a copy or a store past the end of one is a
  \<open>falla_shell\<close>, as is a read before the start of a buffer or through a null pointer.
\<close>

section \<open>Data\<close>

datatype falla_shell =
    DesbordeToken | DesbordeArgs | DesbordeBuffer | LecturaFuera | ComandoNulo | SinIgual

definition BUFLEN :: nat where "BUFLEN = 1024"
definition PRMTLEN :: nat where "PRMTLEN = 1024"
definition MAXARGS :: nat where "MAXARGS = 20"
definition ARGSIZE :: nat where "ARGSIZE = 1024"
definition FNAMESIZE :: nat where "FNAMESIZE = 1024"

datatype tipo_cmd = EXEC | REDIR

text \<open>
  \<^verbatim>\<open>struct execcmd\<close>; \<^verbatim>\<open>argc\<close> and \<^verbatim>\<open>eargc\<close> are the lengths of the lists, and the field
  \<^verbatim>\<open>pid\<close> is kept by the caller.
\<close>

record execcmd =
  tipo :: tipo_cmd
  scmd :: string
  argv :: "string list"
  eargv :: "string list"
  out_file :: string
  in_file :: string
  err_file :: string

text \<open>\<^verbatim>\<open>struct cmd *\<close>: a null pointer is \<^term>\<open>None\<close>.\<close>

datatype cmd = Execcmd execcmd | Backcmd string cmd | Pipecmd "cmd option" cmd

fun scmd_de :: "cmd \<Rightarrow> string" where
  "scmd_de (Execcmd e) = scmd e"
| "scmd_de (Backcmd s c) = s"
| "scmd_de (Pipecmd l r) = []"

text \<open>What the parser reads of the process: \<^verbatim>\<open>getenv\<close> and the global \<^verbatim>\<open>status\<close>.\<close>

record entorno =
  getenv :: "string \<Rightarrow> string option"
  status :: int

section \<open>utils.c\<close>

definition block_contains :: "string \<Rightarrow> char \<Rightarrow> nat option" where
  "block_contains buf c = first_index (\<lambda>d. d = c) buf"

text \<open>\<^verbatim>\<open>split_line\<close>: the part before the splitter, and the rest without its leading spaces.\<close>

definition split_line :: "string \<Rightarrow> char \<Rightarrow> string \<times> string" where
  "split_line buf c =
     (takeWhile (\<lambda>d. d \<noteq> c) buf,
      dropWhile (\<lambda>d. d = CHR '' '') (drop 1 (dropWhile (\<lambda>d. d \<noteq> c) buf)))"

section \<open>readline.c\<close>

text \<open>
  \<^verbatim>\<open>read_line\<close> on the characters left in the standard input: the line, or \<^term>\<open>None\<close> at the end of
  the input, and what stays unread. The store into \<^verbatim>\<open>buffer\<close> is not checked. The callers see the
  line up to its first zero byte.
\<close>

fun lee_linea :: "nat \<Rightarrow> string \<Rightarrow> string \<Rightarrow> falla_shell + (string option \<times> string)" where
  "lee_linea i acc [] = Inr (None, [])"
| "lee_linea i acc (c # cs) =
     (if c = CHR 0x0A
      then check_that (i < BUFLEN) DesbordeBuffer
             (Inr (Some (takeWhile (\<lambda>c. c \<noteq> CHR 0x00) (rev acc)), cs))
      else check_that (i < BUFLEN) DesbordeBuffer (lee_linea (Suc i) (c # acc) cs))"

definition read_line :: "string \<Rightarrow> falla_shell + (string option \<times> string)" where
  "read_line entrada = lee_linea 0 [] entrada"

section \<open>createcmd.c\<close>

definition exec_cmd_create :: "string \<Rightarrow> falla_shell + execcmd" where
  "exec_cmd_create buf =
     check_that (length buf < BUFLEN) DesbordeBuffer
       (Inr \<lparr>tipo = EXEC, scmd = buf, argv = [], eargv = [], out_file = [], in_file = [], err_file = []\<rparr>)"

definition back_cmd_create :: "cmd \<Rightarrow> cmd" where
  "back_cmd_create c = Backcmd (scmd_de c) c"

definition pipe_cmd_create :: "cmd option \<Rightarrow> cmd option \<Rightarrow> cmd option" where
  "pipe_cmd_create left right = (case right of None \<Rightarrow> left | Some r \<Rightarrow> Some (Pipecmd left r))"

section \<open>parsing.c\<close>

definition get_token :: "string \<Rightarrow> falla_shell + string" where
  "get_token buf =
     (let tok = takeWhile (\<lambda>c. c \<noteq> CHR '' '') buf
      in check_that (length tok < ARGSIZE) DesbordeToken (Inr tok))"

text \<open>A token is a redirection when it contains \<open>>\<close> or \<open><\<close>.\<close>

definition parse_redir_flow :: "execcmd \<Rightarrow> string \<Rightarrow> execcmd option" where
  "parse_redir_flow c arg =
     (case block_contains arg (CHR ''>'') of
        Some i \<Rightarrow>
          Some ((if i = 0 then c\<lparr>out_file := drop 1 arg\<rparr>
                 else if i = 1 then c\<lparr>err_file := drop (i + 1) arg\<rparr>
                 else c)\<lparr>tipo := REDIR\<rparr>)
      | None \<Rightarrow>
          (case block_contains arg (CHR ''<'') of
             Some i \<Rightarrow> Some (c\<lparr>in_file := drop 1 arg, tipo := REDIR\<rparr>)
           | None \<Rightarrow> None))"

definition parse_environ_var :: "execcmd \<Rightarrow> string \<Rightarrow> falla_shell + execcmd option" where
  "parse_environ_var c arg =
     (case block_contains arg (CHR ''='') of
        Some (Suc i) \<Rightarrow>
          if block_contains arg (CHR ''-'') = None
          then check_that (length (eargv c) < MAXARGS) DesbordeArgs
                 (Inr (Some (c\<lparr>eargv := eargv c @ [arg]\<rparr>)))
          else Inr None
      | _ \<Rightarrow> Inr None)"

text \<open>The decimal digits that \<^verbatim>\<open>%d\<close> prints.\<close>

fun digitos :: "nat \<Rightarrow> string" where
  "digitos n = (if n < 10 then [char_of (48 + n)] else digitos (n div 10) @ [char_of (48 + n mod 10)])"

definition decimal :: "int \<Rightarrow> string" where
  "decimal i = (if i < 0 then CHR ''-'' # digitos (nat (- i)) else digitos (nat i))"

declare digitos.simps [simp del]

definition expand_environ_var :: "entorno \<Rightarrow> string \<Rightarrow> string" where
  "expand_environ_var ent arg =
     (case arg of
        [] \<Rightarrow> arg
      | c # nom \<Rightarrow>
          if c = CHR ''$''
          then (if take 2 arg = ''$?'' then decimal (status ent)
                else (case getenv ent nom of Some v \<Rightarrow> v | None \<Rightarrow> []))
          else arg)"

text \<open>The body of the loop of \<^verbatim>\<open>parse_exec\<close>, for one token.\<close>

definition procesa_token :: "entorno \<Rightarrow> execcmd \<Rightarrow> string \<Rightarrow> falla_shell + execcmd" where
  "procesa_token ent c tok =
     (case parse_redir_flow c tok of
        Some c' \<Rightarrow> Inr c'
      | None \<Rightarrow>
          and_then (parse_environ_var c tok) (\<lambda>r.
            case r of
              Some c' \<Rightarrow> Inr c'
            | None \<Rightarrow>
                let tok = expand_environ_var ent tok
                in if length tok > 0
                   then check_that (length (argv c) < MAXARGS) DesbordeArgs
                          (Inr (c\<lparr>argv := argv c @ [tok]\<rparr>))
                   else Inr c))"

function parse_tokens :: "entorno \<Rightarrow> execcmd \<Rightarrow> string \<Rightarrow> falla_shell + execcmd" where
  "parse_tokens ent c buf =
     (if buf = [] then Inr c
      else and_then (get_token buf) (\<lambda>tok.
             and_then (procesa_token ent c tok) (\<lambda>c'.
               parse_tokens ent c' (drop (length tok + 1) buf))))"
  by pat_completeness auto
termination
  by (relation "measure (length \<circ> snd \<circ> snd)") auto

declare parse_tokens.simps [simp del]

definition parse_exec :: "entorno \<Rightarrow> string \<Rightarrow> falla_shell + cmd" where
  "parse_exec ent buf =
     and_then (exec_cmd_create buf) (\<lambda>c.
       and_then (parse_tokens ent c buf) (\<lambda>c.
         check_that (length (argv c) < MAXARGS) DesbordeArgs (Inr (Execcmd c))))"

definition parse_back :: "entorno \<Rightarrow> string \<Rightarrow> falla_shell + cmd" where
  "parse_back ent buf =
     and_then (parse_exec ent (takeWhile (\<lambda>c. c \<noteq> CHR ''&'') buf)) (\<lambda>e. Inr (back_cmd_create e))"

text \<open>
  \<open>previo\<close> is the byte in front of the buffer that \<^verbatim>\<open>buf_cmd[idx - 1]\<close> reads when \<open>idx\<close> is 0: the
  terminator that replaced a \<^verbatim>\<open>|\<close>, or nothing of the program's at the start of the line.
\<close>

definition parse_cmd :: "entorno \<Rightarrow> char option \<Rightarrow> string \<Rightarrow> falla_shell + cmd option" where
  "parse_cmd ent previo buf =
     (if buf = [] then Inr None
      else
        (case block_contains buf (CHR ''&'') of
           None \<Rightarrow> and_then (parse_exec ent buf) (\<lambda>c. Inr (Some c))
         | Some i \<Rightarrow>
             and_then (if i = 0 then (case previo of None \<Rightarrow> Inl LecturaFuera | Some c \<Rightarrow> Inr c)
                       else Inr (buf ! (i - 1)))
               (\<lambda>c. and_then (if c \<noteq> CHR ''>'' then parse_back ent buf else parse_exec ent buf)
                      (\<lambda>c. Inr (Some c)))))"

function parse_line_desde :: "entorno \<Rightarrow> char option \<Rightarrow> string \<Rightarrow> falla_shell + cmd option" where
  "parse_line_desde ent previo buf =
     (case block_contains buf (CHR ''|'') of
        None \<Rightarrow> parse_cmd ent previo buf
      | Some i \<Rightarrow>
          and_then (parse_cmd ent previo (take i buf)) (\<lambda>left.
            and_then (parse_line_desde ent (Some (CHR 0x00)) (drop (i + 1) buf)) (\<lambda>right.
              Inr (pipe_cmd_create left right))))"
  by pat_completeness auto
termination
proof (relation "measure (length \<circ> snd \<circ> snd)", goal_cases)
  case (2 ent previo buf i x)
  then show ?case
    by (auto simp: block_contains_def dest: first_index_lt)
qed simp

declare parse_line_desde.simps [simp del]

definition parse_line :: "entorno \<Rightarrow> string \<Rightarrow> falla_shell + cmd option" where
  "parse_line ent buf = parse_line_desde ent None buf"

section \<open>freecmd.c\<close>

text \<open>The strings freed, in order; \<^verbatim>\<open>cmd->type\<close> of a null pointer is a crash.\<close>

fun free_command :: "cmd option \<Rightarrow> falla_shell + string list" where
  "free_command None = Inl ComandoNulo"
| "free_command (Some (Pipecmd l r)) =
     and_then (free_command l) (\<lambda>a. and_then (free_command (Some r)) (\<lambda>b. Inr (a @ b)))"
| "free_command (Some (Backcmd s c)) = free_command (Some c)"
| "free_command (Some (Execcmd e)) = Inr (argv e @ eargv e)"

end
