(* ===== verification/Shell_Exec.thy ===== *)
theory Shell_Exec
  imports Shell_Parse
begin

text \<open>
  Running a command: \<^verbatim>\<open>shell/exec.c\<close> (the child, on its table of open files), \<^verbatim>\<open>builtin.c\<close>,
  \<^verbatim>\<open>printstatus.c\<close>, \<^verbatim>\<open>runcmd.c\<close> and \<^verbatim>\<open>sh.c\<close> (the shell itself).
\<close>

section \<open>Environment variables of a command\<close>

text \<open>\<^verbatim>\<open>get_environ_key\<close> runs until the first \<open>=\<close>, which its caller has found.\<close>

definition get_environ_key :: "string \<Rightarrow> falla_shell + string" where
  "get_environ_key arg =
     check_that (CHR ''='' \<in> set arg) SinIgual
       (let k = takeWhile (\<lambda>c. c \<noteq> CHR ''='') arg
        in check_that (length k < BUFLEN) DesbordeBuffer (Inr k))"

definition get_environ_value :: "string \<Rightarrow> nat \<Rightarrow> falla_shell + string" where
  "get_environ_value arg idx =
     (let v = drop (idx + 1) arg in check_that (length v < BUFLEN) DesbordeBuffer (Inr v))"

type_synonym ambiente = "string \<Rightarrow> string option"

fun set_environ_vars :: "string list \<Rightarrow> ambiente \<Rightarrow> falla_shell + ambiente" where
  "set_environ_vars [] env = Inr env"
| "set_environ_vars (a # as) env =
     (case block_contains a (CHR ''='') of
        None \<Rightarrow> set_environ_vars as env
      | Some idx \<Rightarrow>
          and_then (get_environ_key a) (\<lambda>k.
            and_then (get_environ_value a idx) (\<lambda>v.
              set_environ_vars as (env(k \<mapsto> v)))))"

section \<open>The table of open files\<close>

text \<open>
  A process has a table of file descriptors. An open file is a terminal of the shell, a file opened
  for reading or truncated for writing, or an end of a pipe; a pipe is named by the place in the
  pipeline that created it.
\<close>

datatype objeto = Terminal nat | Lectura string | Escritura string | PipeR "nat list" | PipeW "nat list"

type_synonym tabla = "objeto option list"

definition asigna :: "objeto \<Rightarrow> tabla \<Rightarrow> nat \<times> tabla" where
  "asigna ob t =
     (case first_index (\<lambda>x. x = None) t of
        Some i \<Rightarrow> (i, t[i := Some ob])
      | None \<Rightarrow> (length t, t @ [Some ob]))"

definition pon :: "nat \<Rightarrow> objeto option \<Rightarrow> tabla \<Rightarrow> tabla" where
  "pon i ob t = (t @ replicate (i + 1 - length t) None)[i := ob]"

definition fd_de :: "tabla \<Rightarrow> nat \<Rightarrow> objeto option" where
  "fd_de t i = (if i < length t then t ! i else None)"

definition cierra :: "nat \<Rightarrow> tabla \<Rightarrow> tabla" where
  "cierra i t = (if i < length t then t[i := None] else t)"

text \<open>\<^verbatim>\<open>dup2(viejo, nuevo)\<close>; it fails, and changes nothing, when \<open>viejo\<close> is not open.\<close>

definition dup2 :: "nat \<Rightarrow> nat \<Rightarrow> tabla \<Rightarrow> tabla" where
  "dup2 viejo nuevo t = (case fd_de t viejo of None \<Rightarrow> t | Some ob \<Rightarrow> pon nuevo (Some ob) t)"

record proceso =
  fds :: tabla
  ambiente_de :: ambiente

text \<open>The kernel: which files open for reading and for writing, and whether it has resources.\<close>

record nucleo =
  abre_lectura :: "string \<Rightarrow> bool"
  abre_salida :: "string \<Rightarrow> bool"
  pipe_ok :: bool
  fork_ok :: bool

definition STDIN :: nat where "STDIN = 0"
definition STDOUT :: nat where "STDOUT = 1"
definition STDERR :: nat where "STDERR = 2"

text \<open>What becomes of each process of a command: a call of \<^verbatim>\<open>execvp\<close>, or an exit.\<close>

datatype fin = Ejecuta "string list" proceso | Sale int

section \<open>exec\_cmd\<close>

definition redirige :: "bool \<Rightarrow> objeto \<Rightarrow> nat \<Rightarrow> tabla \<Rightarrow> tabla option" where
  "redirige ok ob destino t =
     (if \<not> ok then None
      else let (fd, t1) = asigna ob t in Some (cierra fd (dup2 fd destino t1)))"

text \<open>The \<^verbatim>\<open>REDIR\<close> case: standard output, input and error, in this order.\<close>

definition redirecciones :: "nucleo \<Rightarrow> execcmd \<Rightarrow> tabla \<Rightarrow> tabla option" where
  "redirecciones k r t0 =
     (case (if out_file r \<noteq> [] then redirige (abre_salida k (out_file r)) (Escritura (out_file r)) STDOUT t0
            else Some t0) of
        None \<Rightarrow> None
      | Some t1 \<Rightarrow>
          (case (if in_file r \<noteq> [] then redirige (abre_lectura k (in_file r)) (Lectura (in_file r)) STDIN t1
                 else Some t1) of
             None \<Rightarrow> None
           | Some t2 \<Rightarrow>
               (if err_file r \<noteq> []
                then if err_file r = ''&1'' then Some (dup2 STDOUT STDERR t2)
                     else redirige (abre_salida k (err_file r)) (Escritura (err_file r)) STDERR t2
                else Some t2)))"

text \<open>
  The processes that a command becomes, with the place \<open>ruta\<close> of each in the tree of pipelines. As
  in the code, the case \<^verbatim>\<open>REDIR\<close> of a command runs it as \<^verbatim>\<open>EXEC\<close> once its files are in place.
\<close>

definition exec_simple :: "execcmd \<Rightarrow> proceso \<Rightarrow> falla_shell + fin list" where
  "exec_simple e p =
     and_then (set_environ_vars (eargv e) (ambiente_de p)) (\<lambda>env.
       Inr [Ejecuta (argv e) (p\<lparr>ambiente_de := env\<rparr>)])"

fun exec_cmd :: "nucleo \<Rightarrow> nat list \<Rightarrow> cmd option \<Rightarrow> proceso \<Rightarrow> falla_shell + fin list" where
  "exec_cmd k ruta None p = Inl ComandoNulo"
| "exec_cmd k ruta (Some (Execcmd e)) p =
     (case tipo e of
        EXEC \<Rightarrow> exec_simple e p
      | REDIR \<Rightarrow>
          (case redirecciones k e (fds p) of
             None \<Rightarrow> Inr [Sale (- 1)]
           | Some t \<Rightarrow> exec_simple (e\<lparr>tipo := EXEC\<rparr>) (p\<lparr>fds := t\<rparr>)))"
| "exec_cmd k ruta (Some (Backcmd s c)) p = exec_cmd k ruta (Some c) p"
| "exec_cmd k ruta (Some (Pipecmd l r)) p =
     (if \<not> pipe_ok k \<or> \<not> fork_ok k then Inr [Sale (- 1)]
      else
        let (fr, t1) = asigna (PipeR ruta) (fds p);
            (fw, t2) = asigna (PipeW ruta) t1;
            hijo1 = p\<lparr>fds := cierra fw (dup2 fw STDOUT (cierra fr t2))\<rparr>;
            hijo2 = p\<lparr>fds := cierra fr (dup2 fr STDIN (cierra fw t2))\<rparr>
        in and_then (exec_cmd k (ruta @ [0]) l hijo1) (\<lambda>a.
             and_then (exec_cmd k (ruta @ [1]) (Some r) hijo2) (\<lambda>b.
               Inr (a @ b @ [Sale 0]))))"

section \<open>builtin.c\<close>

text \<open>
  The state of the shell: the prompt, the last status and the working directory; what it prints is
  returned. The host: \<^verbatim>\<open>getenv\<close>, \<^verbatim>\<open>chdir\<close> (the directory it leads to, from one directory, or a
  failure), \<^verbatim>\<open>fork\<close>, and the status that \<^verbatim>\<open>waitpid\<close> stores.
\<close>

record shell =
  prompt :: string
  estado_final :: "32 word"
  cwd :: string

record maquina =
  var_env :: "string \<Rightarrow> string option"
  cambia_dir :: "string \<Rightarrow> string \<Rightarrow> string option"
  pid_hijo :: "cmd \<Rightarrow> int"
  espera :: "cmd \<Rightarrow> 32 word"

datatype salida =
    NoCd "string option" | ErrorPrompt | ErrorPwd | Pwd string | Info string string int | Fondo int

definition exit_shell :: "string \<Rightarrow> bool" where
  "exit_shell c \<longleftrightarrow> take 4 c = ''exit''"

definition cd :: "maquina \<Rightarrow> string \<Rightarrow> shell \<Rightarrow> (shell \<times> salida list) option" where
  "cd mq c s =
     (if take 2 c = ''cd''
      then
        let dir = drop 3 c
        in Some
          (if length dir = 0
           then (case var_env mq ''HOME'' of
                   None \<Rightarrow> (s, [NoCd None])
                 | Some home \<Rightarrow>
                     (case cambia_dir mq (cwd s) home of
                        None \<Rightarrow> (s, [NoCd (Some home)])
                      | Some d \<Rightarrow> (s\<lparr>cwd := d, prompt := take (PRMTLEN - 1) (''('' @ home @ '')'')\<rparr>, [])))
           else (case cambia_dir mq (cwd s) dir of
                   None \<Rightarrow> (s, [NoCd (Some dir)])
                 | Some d \<Rightarrow>
                     if length d < PRMTLEN then (s\<lparr>cwd := d, prompt := d\<rparr>, [])
                     else (s\<lparr>cwd := d\<rparr>, [ErrorPrompt])))
      else None)"

definition pwd :: "string \<Rightarrow> shell \<Rightarrow> salida list option" where
  "pwd c s =
     (if take 3 c = ''pwd'' then Some (if length (cwd s) < BUFLEN then [Pwd (cwd s)] else [ErrorPwd])
      else None)"

definition history :: "string \<Rightarrow> bool" where
  "history c \<longleftrightarrow> False"

section \<open>printstatus.c\<close>

text \<open>The \<^verbatim>\<open>sys/wait.h\<close> macros that decode a wait status.\<close>

definition WTERMSIG :: "32 word \<Rightarrow> 32 word" where "WTERMSIG st = st AND 0x7F"
definition WEXITSTATUS :: "32 word \<Rightarrow> 32 word" where "WEXITSTATUS st = drop_bit 8 (st AND 0xFF00)"
definition WSTOPSIG :: "32 word \<Rightarrow> 32 word" where "WSTOPSIG st = WEXITSTATUS st"
definition WIFEXITED :: "32 word \<Rightarrow> bool" where "WIFEXITED st \<longleftrightarrow> WTERMSIG st = 0"
definition WIFSIGNALED :: "32 word \<Rightarrow> bool" where
  "WIFSIGNALED st \<longleftrightarrow> WTERMSIG st \<noteq> 0 \<and> WTERMSIG st \<noteq> 0x7F"

definition print_status_info :: "cmd \<Rightarrow> shell \<Rightarrow> shell \<times> salida list" where
  "print_status_info c s =
     (if length (scmd_de c) = 0 \<or> (\<exists>l r. c = Pipecmd l r) then (s, [])
      else
        let st = estado_final s;
            di = (\<lambda>accion v. (s\<lparr>estado_final := v\<rparr>, [Info (scmd_de c) accion (sint v)]))
        in if WIFEXITED st then di ''exited'' (WEXITSTATUS st)
           else if WIFSIGNALED st then di ''killed'' (- WTERMSIG st)
           else if WTERMSIG st \<noteq> 0 then di ''stopped'' (- WSTOPSIG st)
           else (s, []))"

section \<open>runcmd.c\<close>

datatype vuelta = Sigue | Termina

definition run_cmd :: "maquina \<Rightarrow> string \<Rightarrow> shell \<Rightarrow> falla_shell + vuelta \<times> shell \<times> salida list" where
  "run_cmd mq c s =
     (if c = [] then Inr (Sigue, s, [])
      else if history c then Inr (Sigue, s, [])
      else (case cd mq c s of
        Some (s', out) \<Rightarrow> Inr (Sigue, s', out)
      | None \<Rightarrow>
          if exit_shell c then Inr (Termina, s, [])
          else (case pwd c s of
            Some out \<Rightarrow> Inr (Sigue, s, out)
          | None \<Rightarrow>
              and_then (parse_line \<lparr>getenv = var_env mq, status = sint (estado_final s)\<rparr> c) (\<lambda>parsed.
                (case parsed of
                   None \<Rightarrow> Inl ComandoNulo
                 | Some (Backcmd b x) \<Rightarrow>
                     and_then (free_command parsed) (\<lambda>_.
                       Inr (Sigue, s, [Fondo (pid_hijo mq (Backcmd b x))]))
                 | Some x \<Rightarrow>
                     let (s', out) = print_status_info x (s\<lparr>estado_final := espera mq x\<rparr>)
                     in and_then (free_command parsed) (\<lambda>_. Inr (Sigue, s', out)))))))"

section \<open>sh.c\<close>

text \<open>
  \<^verbatim>\<open>run_shell\<close>: it serves lines until \<^verbatim>\<open>exit\<close> or the end of the input. The fuel bounds the number of
  lines; every line takes at least its newline, so the length of the input plus one is enough.
\<close>

fun run_shell :: "nat \<Rightarrow> maquina \<Rightarrow> string \<Rightarrow> shell \<Rightarrow> falla_shell + (shell \<times> salida list) option" where
  "run_shell 0 mq entrada s = Inr None"
| "run_shell (Suc n) mq entrada s =
     and_then (read_line entrada) (\<lambda>(linea, resto).
       case linea of
         None \<Rightarrow> Inr (Some (s, []))
       | Some c \<Rightarrow>
           and_then (run_cmd mq c s) (\<lambda>(v, s', out).
             case v of
               Termina \<Rightarrow> Inr (Some (s', out))
             | Sigue \<Rightarrow>
                 and_then (run_shell n mq resto s') (\<lambda>r. Inr (map_option (\<lambda>(u, o'). (u, out @ o')) r))))"

definition init_shell :: "maquina \<Rightarrow> shell \<Rightarrow> shell \<times> salida list" where
  "init_shell mq s =
     (case var_env mq ''HOME'' of
        None \<Rightarrow> (s, [NoCd None])
      | Some home \<Rightarrow>
          (case cambia_dir mq (cwd s) home of
             None \<Rightarrow> (s, [NoCd (Some home)])
           | Some d \<Rightarrow> (s\<lparr>cwd := d, prompt := take (PRMTLEN - 1) (''('' @ home @ '')'')\<rparr>, [])))"

end
