(* ===== verification/Shell_Props.thy ===== *)
theory Shell_Props
  imports Shell_Exec
begin

text \<open>
  What the shell does with a line: the parser against the words of the line, pipelines against the
  segments between bars, the open files of every process of a pipeline, and the main loop.
\<close>

section \<open>The words of a command\<close>

text \<open>The reference: the words between single spaces, each of which is read for what it is.\<close>

function palabras :: "string \<Rightarrow> string list" where
  "palabras buf =
     (if buf = [] then []
      else (let w = takeWhile (\<lambda>c. c \<noteq> CHR '' '') buf in w # palabras (drop (length w + 1) buf)))"
  by pat_completeness auto
termination
  by (relation "measure length") auto

declare palabras.simps [simp del]

definition es_redir :: "string \<Rightarrow> bool" where
  "es_redir w \<longleftrightarrow> CHR ''>'' \<in> set w \<or> CHR ''<'' \<in> set w"

definition es_salida :: "string \<Rightarrow> bool" where
  "es_salida w \<longleftrightarrow> (\<exists>v. w = CHR ''>'' # v)"

definition es_error :: "string \<Rightarrow> bool" where
  "es_error w \<longleftrightarrow> (\<exists>c v. w = c # CHR ''>'' # v \<and> c \<noteq> CHR ''>'')"

definition es_entrada :: "string \<Rightarrow> bool" where
  "es_entrada w \<longleftrightarrow> CHR ''<'' \<in> set w \<and> CHR ''>'' \<notin> set w"

definition es_var :: "string \<Rightarrow> bool" where
  "es_var w \<longleftrightarrow> \<not> es_redir w \<and> CHR ''='' \<in> set (tl w) \<and> hd w \<noteq> CHR ''='' \<and> CHR ''-'' \<notin> set w"

definition argumentos :: "entorno \<Rightarrow> string list \<Rightarrow> string list" where
  "argumentos ent ws =
     filter (\<lambda>w. w \<noteq> []) (map (expand_environ_var ent) (filter (\<lambda>w. \<not> es_redir w \<and> \<not> es_var w) ws))"

definition ultimo :: "string \<Rightarrow> nat \<Rightarrow> string list \<Rightarrow> string" where
  "ultimo f n ws = last (f # map (drop n) ws)"

text \<open>The command that a list of words adds up to.\<close>

definition suma :: "entorno \<Rightarrow> string list \<Rightarrow> execcmd \<Rightarrow> execcmd" where
  "suma ent ws c = c
     \<lparr>argv := argv c @ argumentos ent ws,
      eargv := eargv c @ filter es_var ws,
      out_file := ultimo (out_file c) 1 (filter es_salida ws),
      err_file := ultimo (err_file c) 2 (filter es_error ws),
      in_file := ultimo (in_file c) 1 (filter es_entrada ws),
      tipo := (if \<exists>w\<in>set ws. es_redir w then REDIR else tipo c)\<rparr>"

lemma block_contains_None: "block_contains w c = None \<longleftrightarrow> c \<notin> set w"
  by (auto simp: block_contains_def first_index_None)

lemma block_contains_0: "block_contains w c = Some 0 \<longleftrightarrow> (\<exists>v. w = c # v)"
  by (cases w) (auto simp: block_contains_def split: if_splits)

lemma block_contains_1: "block_contains w c = Some (Suc 0) \<longleftrightarrow> (\<exists>d v. w = d # c # v \<and> d \<noteq> c)"
  by (cases w; cases "tl w") (auto simp: block_contains_def split: if_splits)

lemma block_contains_Suc:
  "(\<exists>i. block_contains w c = Some (Suc i)) \<longleftrightarrow> c \<in> set (tl w) \<and> hd w \<noteq> c"
proof (cases w)
  case (Cons d v)
  have "(\<exists>i. first_index (\<lambda>x. x = c) v = Some i) \<longleftrightarrow> c \<in> set v"
    using first_index_None [of "\<lambda>x. x = c" v] by auto
  then show ?thesis using Cons by (auto simp: block_contains_def)
qed (simp add: block_contains_def)

lemma es_salida_iff: "es_salida w \<longleftrightarrow> block_contains w (CHR ''>'') = Some 0"
  and es_error_iff: "es_error w \<longleftrightarrow> block_contains w (CHR ''>'') = Some 1"
  by (simp_all add: es_salida_def es_error_def block_contains_0 block_contains_1)

lemma procesa_redir:
  assumes "es_redir w"
  shows "procesa_token ent c w = Inr (suma ent [w] c)"
proof -
  have v: "\<not> es_var w" using assms by (simp add: es_var_def)
  show ?thesis
  proof (cases "block_contains w (CHR ''>'')")
    case None
    then have lt: "CHR ''<'' \<in> set w" "CHR ''>'' \<notin> set w"
      using assms by (simp_all add: es_redir_def block_contains_None)
    then obtain i where "block_contains w (CHR ''<'') = Some i"
      using block_contains_None by fastforce
    then show ?thesis
      using None assms v lt
      by (simp add: procesa_token_def parse_redir_flow_def suma_def argumentos_def ultimo_def
          es_salida_iff es_error_iff es_entrada_def)
  next
    case (Some i)
    then have "\<not> es_entrada w"
      using block_contains_None [of w "CHR ''>''"] by (simp add: es_entrada_def)
    then show ?thesis
      using Some assms v
      by (simp add: procesa_token_def parse_redir_flow_def suma_def argumentos_def ultimo_def
          es_salida_iff es_error_iff numeral_2_eq_2)
  qed
qed

lemma procesa_var:
  assumes "es_var w"
  shows "procesa_token ent c w =
    check_that (length (eargv c) < MAXARGS) DesbordeArgs (Inr (suma ent [w] c))"
proof -
  have r: "\<not> es_redir w" using assms by (simp add: es_var_def)
  then have "\<not> es_salida w" "\<not> es_error w" "\<not> es_entrada w"
    by (auto simp: es_redir_def es_salida_def es_error_def es_entrada_def)
  moreover obtain i where "block_contains w (CHR ''='') = Some (Suc i)"
    using assms block_contains_Suc [of w "CHR ''=''"] by (auto simp: es_var_def)
  moreover have "block_contains w (CHR ''>'') = None" "block_contains w (CHR ''<'') = None"
    "block_contains w (CHR ''-'') = None"
    using assms r by (auto simp: es_var_def es_redir_def block_contains_None)
  ultimately show ?thesis
    using assms r
    by (simp add: procesa_token_def parse_redir_flow_def parse_environ_var_def suma_def argumentos_def
        ultimo_def check_that_def)
qed

lemma procesa_arg:
  assumes "\<not> es_redir w" and "\<not> es_var w"
  shows "procesa_token ent c w =
    (if expand_environ_var ent w = [] then Inr (suma ent [w] c)
     else check_that (length (argv c) < MAXARGS) DesbordeArgs (Inr (suma ent [w] c)))"
proof -
  have r: "\<not> es_salida w" "\<not> es_error w" "\<not> es_entrada w"
    using assms(1) by (auto simp: es_redir_def es_salida_def es_error_def es_entrada_def)
  have b: "block_contains w (CHR ''>'') = None" "block_contains w (CHR ''<'') = None"
    using assms(1) by (simp_all add: es_redir_def block_contains_None)
  have "parse_environ_var c w = Inr None"
  proof (cases "\<exists>i. block_contains w (CHR ''='') = Some (Suc i)")
    case True
    then have "CHR ''-'' \<in> set w"
      using assms block_contains_Suc [of w "CHR ''=''"] by (auto simp: es_var_def)
    then have "block_contains w (CHR ''-'') \<noteq> None" by (simp add: block_contains_None)
    with True show ?thesis by (auto simp: parse_environ_var_def)
  next
    case False
    then show ?thesis by (auto simp: parse_environ_var_def split: option.split nat.split)
  qed
  then show ?thesis
    using assms r b
    by (simp add: procesa_token_def parse_redir_flow_def suma_def argumentos_def ultimo_def check_that_def)
qed

text \<open>The fold over the words, with the two arrays bounded.\<close>

fun procesa_tokens :: "entorno \<Rightarrow> execcmd \<Rightarrow> string list \<Rightarrow> falla_shell + execcmd" where
  "procesa_tokens ent c [] = Inr c"
| "procesa_tokens ent c (w # ws) =
     and_then (procesa_token ent c w) (\<lambda>c. procesa_tokens ent c ws)"

lemma argumentos_Cons: "argumentos ent (w # ws) = argumentos ent [w] @ argumentos ent ws"
  by (simp add: argumentos_def)

lemma ultimo_Cons: "ultimo f n (w # ws) = ultimo (drop n w) n ws"
  and ultimo_Nil [simp]: "ultimo f n [] = f"
  by (simp_all add: ultimo_def)

lemma suma_Cons: "suma ent ws (suma ent [w] c) = suma ent (w # ws) c"
  unfolding argumentos_Cons [of ent w ws] suma_def
  by (simp add: argumentos_Cons [of ent w ws] ultimo_Cons)

lemma suma_Nil: "suma ent [] c = c"
  by (simp add: suma_def argumentos_def)

lemma procesa_tokens_suma:
  "length (argv c) \<le> MAXARGS \<Longrightarrow> length (eargv c) \<le> MAXARGS \<Longrightarrow>
   procesa_tokens ent c ws =
     check_that (length (argv (suma ent ws c)) \<le> MAXARGS \<and> length (eargv (suma ent ws c)) \<le> MAXARGS)
       DesbordeArgs (Inr (suma ent ws c))"
proof (induction ws arbitrary: c)
  case Nil
  then show ?case by (simp add: suma_Nil)
next
  case (Cons w ws)
  let ?c = "suma ent [w] c"
  have step: "procesa_token ent c w =
      check_that (length (argv ?c) \<le> MAXARGS \<and> length (eargv ?c) \<le> MAXARGS) DesbordeArgs (Inr ?c)"
  proof -
    consider "es_redir w" | "es_var w" | "\<not> es_redir w" "\<not> es_var w" by blast
    then show ?thesis
    proof cases
      case 1
      then have "\<not> es_var w" by (simp add: es_var_def)
      with 1 show ?thesis using Cons.prems by (simp add: procesa_redir suma_def argumentos_def)
    next
      case 2
      then have "\<not> es_redir w" by (simp add: es_var_def)
      with 2 show ?thesis
        using Cons.prems by (simp add: procesa_var check_that_def Suc_le_eq suma_def argumentos_def)
    next
      case 3
      then show ?thesis
        using Cons.prems by (simp add: procesa_arg check_that_def Suc_le_eq suma_def argumentos_def)
    qed
  qed
  show ?case
  proof (cases "length (argv ?c) \<le> MAXARGS \<and> length (eargv ?c) \<le> MAXARGS")
    case True
    then show ?thesis using Cons.IH [of ?c] step by (simp add: suma_Cons)
  next
    case False
    have "length (argv ?c) \<le> length (argv (suma ent (w # ws) c))"
      "length (eargv ?c) \<le> length (eargv (suma ent (w # ws) c))"
      by (auto simp: suma_def argumentos_Cons [of ent w ws])
    with False step show ?thesis by (auto simp: check_that_def)
  qed
qed

lemma length_palabra:
  "w \<in> set (palabras buf) \<Longrightarrow> length w \<le> length buf"
proof (induction buf rule: palabras.induct)
  case (1 buf)
  show ?case
  proof (cases "buf = []")
    case True
    with 1(2) show ?thesis by (simp add: palabras.simps)
  next
    case False
    let ?w = "takeWhile (\<lambda>c. c \<noteq> CHR '' '') buf"
    have "w = ?w \<or> w \<in> set (palabras (drop (length ?w + 1) buf))"
      using 1(2) False by (subst (asm) palabras.simps) (auto simp: Let_def)
    then show ?thesis
      using 1(1) [OF False refl] length_takeWhile_le [of "\<lambda>c. c \<noteq> CHR '' ''" buf] by auto
  qed
qed

lemma parse_tokens_palabras:
  "length buf < ARGSIZE \<Longrightarrow> parse_tokens ent c buf = procesa_tokens ent c (palabras buf)"
proof (induction buf arbitrary: c rule: palabras.induct)
  case (1 buf)
  let ?w = "takeWhile (\<lambda>c. c \<noteq> CHR '' '') buf"
  have "length ?w < ARGSIZE"
    using 1(2) length_takeWhile_le [of "\<lambda>c. c \<noteq> CHR '' ''" buf] by simp
  then show ?case
    using 1 by (subst parse_tokens.simps, subst palabras.simps) (simp add: get_token_def Let_def)
qed

section \<open>Pipelines\<close>

text \<open>The segments of a line between bars, each parsed, and chained from the right.\<close>

function segmentos :: "string \<Rightarrow> string list" where
  "segmentos buf =
     (let w = takeWhile (\<lambda>c. c \<noteq> CHR ''|'') buf
      in if length w = length buf then [w] else w # segmentos (drop (length w + 1) buf))"
  by pat_completeness auto
termination
  by (relation "measure length") (auto simp: Let_def split: if_splits dest: le_neq_trans [OF length_takeWhile_le])

declare segmentos.simps [simp del]

fun parse_todos :: "entorno \<Rightarrow> char option \<Rightarrow> string list \<Rightarrow> falla_shell + cmd option list" where
  "parse_todos ent previo [] = Inr []"
| "parse_todos ent previo (s # ss) =
     and_then (parse_cmd ent previo s) (\<lambda>c.
       and_then (parse_todos ent (Some (CHR 0x00)) ss) (\<lambda>cs. Inr (c # cs)))"

fun encadena :: "cmd option list \<Rightarrow> cmd option" where
  "encadena [] = None"
| "encadena [c] = c"
| "encadena (c # cs) = pipe_cmd_create c (encadena cs)"

lemma first_index_takeWhile:
  "first_index (\<lambda>d. d = c) buf =
     (if length (takeWhile (\<lambda>d. d \<noteq> c) buf) = length buf then None
      else Some (length (takeWhile (\<lambda>d. d \<noteq> c) buf)))"
  by (induction buf) auto

lemma takeWhile_eq_take_length: "takeWhile P xs = take (length (takeWhile P xs)) xs"
  by (metis append_eq_conv_conj takeWhile_dropWhile_id)

lemma segmentos_not_Nil [simp]: "segmentos buf \<noteq> []"
  by (subst segmentos.simps) (simp add: Let_def)

lemma encadena_Cons: "cs \<noteq> [] \<Longrightarrow> encadena (c # cs) = pipe_cmd_create c (encadena cs)"
  by (cases cs) auto

lemma length_parse_todos: "parse_todos ent previo ss = Inr cs \<Longrightarrow> length cs = length ss"
  by (induction ss arbitrary: previo cs) (auto simp: and_then_eq_Inr)

lemma parse_line_segmentos:
  "parse_line_desde ent previo buf =
     and_then (parse_todos ent previo (segmentos buf)) (\<lambda>cs. Inr (encadena cs))"
proof (induction buf arbitrary: previo rule: segmentos.induct)
  case (1 buf)
  let ?w = "takeWhile (\<lambda>c. c \<noteq> CHR ''|'') buf"
  show ?case
  proof (cases "length ?w = length buf")
    case True
    then have w: "?w = buf" using takeWhile_eq_take_length [of "\<lambda>c. c \<noteq> CHR ''|''" buf] by simp
    have "parse_line_desde ent previo buf = parse_cmd ent previo buf"
      using True by (subst parse_line_desde.simps) (simp add: block_contains_def first_index_takeWhile)
    moreover have "segmentos buf = [buf]"
      by (subst segmentos.simps) (simp only: w Let_def refl if_True)
    ultimately show ?thesis
      by (cases "parse_cmd ent previo buf") simp_all
  next
    case False
    let ?r = "drop (length ?w + 1) buf"
    have w: "take (length ?w) buf = ?w"
      by (rule takeWhile_eq_take_length [symmetric])
    have IH: "parse_line_desde ent q ?r = and_then (parse_todos ent q (segmentos ?r)) (\<lambda>cs. Inr (encadena cs))" for q
      using 1 [OF refl False] .
    have L: "parse_line_desde ent previo buf = and_then (parse_cmd ent previo ?w) (\<lambda>left.
        and_then (parse_line_desde ent (Some (CHR 0x00)) ?r) (\<lambda>right. Inr (pipe_cmd_create left right)))"
      using False w by (subst parse_line_desde.simps) (simp add: block_contains_def first_index_takeWhile)
    have S: "segmentos buf = ?w # segmentos ?r"
      using False by (subst segmentos.simps) (simp add: Let_def)
    have E: "encadena (c # cs) = pipe_cmd_create c (encadena cs)"
      if "parse_todos ent (Some (CHR 0x00)) (segmentos ?r) = Inr cs" for c cs
      using length_parse_todos [OF that] by (intro encadena_Cons) auto
    show ?thesis
      unfolding L S IH using E
      by (cases "parse_cmd ent previo ?w"; cases "parse_todos ent (Some (CHR 0x00)) (segmentos ?r)") auto
  qed
qed

section \<open>The table of open files\<close>

text \<open>The table as a function from descriptors, and its operations on that view.\<close>

lemma fd_de_asigna:
  assumes "asigna ob t = (i, t')"
  shows "fd_de t i = None" and "fd_de t' = (fd_de t)(i := Some ob)"
proof -
  show "fd_de t i = None"
    using assms by (auto simp: asigna_def fd_de_def split: option.splits dest: first_index_P)
  show "fd_de t' = (fd_de t)(i := Some ob)"
    using assms
    by (auto simp: asigna_def fd_de_def nth_append fun_eq_iff split: option.splits dest: first_index_lt)
qed

lemma fd_de_pon: "fd_de (pon i ob t) = (fd_de t)(i := ob)"
  by (auto simp: pon_def fd_de_def fun_eq_iff nth_append nth_list_update)

lemma fd_de_cierra: "fd_de (cierra i t) = (fd_de t)(i := None)"
  by (auto simp: cierra_def fd_de_def fun_eq_iff nth_list_update)

lemma fd_de_dup2:
  "fd_de (dup2 i j t) = (case fd_de t i of None \<Rightarrow> fd_de t | Some ob \<Rightarrow> (fd_de t)(j := Some ob))"
  by (simp add: dup2_def fd_de_pon split: option.split)

lemmas fd_de_simps = fd_de_pon fd_de_cierra fd_de_dup2

definition estandar :: "objeto \<Rightarrow> objeto \<Rightarrow> objeto \<Rightarrow> nat \<Rightarrow> objeto option" where
  "estandar x y z = (\<lambda>fd. None)(STDIN := Some x, STDOUT := Some y, STDERR := Some z)"

lemma estandar_None: "estandar x y z i = None \<Longrightarrow> i \<noteq> STDIN \<and> i \<noteq> STDOUT \<and> i \<noteq> STDERR"
  by (auto simp: estandar_def STDIN_def STDOUT_def STDERR_def split: if_splits)

lemma set_environ_total:
  "\<forall>a\<in>set as. length a < BUFLEN \<Longrightarrow> \<exists>env'. set_environ_vars as env = Inr env'"
proof (induction as arbitrary: env)
  case Nil
  then show ?case by simp
next
  case (Cons a as)
  show ?case
  proof (cases "block_contains a (CHR ''='')")
    case None
    then show ?thesis using Cons by simp
  next
    case (Some idx)
    have "CHR ''='' \<in> set a" using Some block_contains_None [of a "CHR ''=''"] by fastforce
    moreover have "length (takeWhile (\<lambda>c. c \<noteq> CHR ''='') a) < BUFLEN"
      using Cons.prems length_takeWhile_le [of "\<lambda>c. c \<noteq> CHR ''=''" a] by simp
    moreover have "length (drop (idx + 1) a) < BUFLEN" using Cons.prems by auto
    ultimately show ?thesis
      using Some Cons by (simp add: get_environ_key_def get_environ_value_def)
  qed
qed

fun lanzados :: "fin list \<Rightarrow> (string list \<times> proceso) list" where
  "lanzados [] = []"
| "lanzados (Ejecuta a q # fs) = (a, q) # lanzados fs"
| "lanzados (Sale n # fs) = lanzados fs"

lemma lanzados_append [simp]: "lanzados (a @ b) = lanzados a @ lanzados b"
  by (induction a rule: lanzados.induct) auto

lemma tabla_hijos:
  assumes "fd_de t = estandar x y z" and "asigna (PipeR r) t = (fr, t1)" and "asigna (PipeW r) t1 = (fw, t2)"
  shows "fd_de (cierra fw (dup2 fw STDOUT (cierra fr t2))) = estandar x (PipeW r) z"
    and "fd_de (cierra fr (dup2 fr STDIN (cierra fw t2))) = estandar (PipeR r) y z"
proof -
  note a = fd_de_asigna [OF assms(2)] and b = fd_de_asigna [OF assms(3)]
  have ne: "fr \<noteq> STDIN" "fr \<noteq> STDOUT" "fr \<noteq> STDERR" "fw \<noteq> STDIN" "fw \<noteq> STDOUT" "fw \<noteq> STDERR" "fw \<noteq> fr"
    using a b assms(1) estandar_None [of x y z fr] estandar_None [of x y z fw] by (auto split: if_splits)
  show "fd_de (cierra fw (dup2 fw STDOUT (cierra fr t2))) = estandar x (PipeW r) z"
    "fd_de (cierra fr (dup2 fr STDIN (cierra fw t2))) = estandar (PipeR r) y z"
    using ne by (auto simp: fd_de_simps a(2) b(2) assms(1) estandar_def STDIN_def STDOUT_def STDERR_def
        fun_eq_iff)
qed

text \<open>The pipeline of a list of plain commands, as the parser builds it.\<close>

definition tuberia :: "execcmd list \<Rightarrow> cmd option" where
  "tuberia es = encadena (map (\<lambda>e. Some (Execcmd e)) es)"

lemma tuberia_simps:
  "tuberia [e] = Some (Execcmd e)"
  "tuberia (e # f # es) = Some (Pipecmd (Some (Execcmd e)) (the (tuberia (f # es))))"
  "\<exists>c. tuberia (f # es) = Some c"
proof -
  show some: "\<exists>c. tuberia (f # es) = Some c" for f es
    by (induction es arbitrary: f) (auto simp: tuberia_def pipe_cmd_create_def split: option.split)
  show "tuberia [e] = Some (Execcmd e)" by (simp add: tuberia_def)
  show "tuberia (e # f # es) = Some (Pipecmd (Some (Execcmd e)) (the (tuberia (f # es))))"
    using some [of f es] by (auto simp: tuberia_def pipe_cmd_create_def)
qed

definition simple_ok :: "execcmd \<Rightarrow> bool" where
  "simple_ok e \<longleftrightarrow> tipo e = EXEC \<and> (\<forall>a\<in>set (eargv e). length a < BUFLEN)"

lemma exec_simple_ok:
  assumes "simple_ok e"
  shows "\<exists>env. exec_cmd k ruta (Some (Execcmd e)) p = Inr [Ejecuta (argv e) (p\<lparr>ambiente_de := env\<rparr>)]"
  using assms set_environ_total [of "eargv e" "ambiente_de p"] by (auto simp: simple_ok_def exec_simple_def)

text \<open>Where the \<open>i\<close>-th of \<open>n\<close> commands of a pipeline reads and writes.\<close>

definition extremo_in :: "nat list \<Rightarrow> objeto \<Rightarrow> nat \<Rightarrow> objeto" where
  "extremo_in ruta x i = (if i = 0 then x else PipeR (ruta @ replicate (i - 1) 1))"

definition extremo_out :: "nat list \<Rightarrow> objeto \<Rightarrow> nat \<Rightarrow> nat \<Rightarrow> objeto" where
  "extremo_out ruta y n i = (if Suc i = n then y else PipeW (ruta @ replicate i 1))"

lemma extremo_Suc:
  "extremo_in (ruta @ [1]) (PipeR ruta) i = extremo_in ruta x (Suc i)"
  "extremo_out (ruta @ [1]) y n i = extremo_out ruta y (Suc n) (Suc i)"
  by (cases i; simp add: extremo_in_def extremo_out_def)+

lemma tuberia_fds:
  assumes "es \<noteq> []" and "\<forall>e\<in>set es. simple_ok e" and "pipe_ok k" and "fork_ok k"
    and "fd_de (fds p) = estandar x y z"
  shows "\<exists>fs. exec_cmd k ruta (tuberia es) p = Inr fs \<and> map fst (lanzados fs) = map argv es \<and>
    (\<forall>i<length es. fd_de (fds (snd (lanzados fs ! i))) =
       estandar (extremo_in ruta x i) (extremo_out ruta y (length es) i) z)"
  using assms
proof (induction es arbitrary: ruta p x rule: induct_list012 [case_names Nil One Cons])
  case Nil
  then show ?case by simp
next
  case (One e)
  then obtain env where "exec_cmd k ruta (Some (Execcmd e)) p = Inr [Ejecuta (argv e) (p\<lparr>ambiente_de := env\<rparr>)]"
    using exec_simple_ok [of e k ruta p] by auto
  then show ?case
    using One.prems(5) by (simp add: tuberia_simps(1) extremo_in_def extremo_out_def)
next
  case (Cons e f es)
  obtain fr t1 fw t2 where a: "asigna (PipeR ruta) (fds p) = (fr, t1)" "asigna (PipeW ruta) t1 = (fw, t2)"
    by (metis surj_pair)
  let ?h1 = "p\<lparr>fds := cierra fw (dup2 fw STDOUT (cierra fr t2))\<rparr>"
  let ?h2 = "p\<lparr>fds := cierra fr (dup2 fr STDIN (cierra fw t2))\<rparr>"
  note t = tabla_hijos [OF Cons.prems(5) a]
  obtain env where l: "exec_cmd k (ruta @ [0]) (Some (Execcmd e)) ?h1 =
      Inr [Ejecuta (argv e) (?h1\<lparr>ambiente_de := env\<rparr>)]"
    using exec_simple_ok [of e k "ruta @ [0]" ?h1] Cons.prems(2) by auto
  obtain fs where r: "exec_cmd k (ruta @ [1]) (tuberia (f # es)) ?h2 = Inr fs"
    and m: "map fst (lanzados fs) = map argv (f # es)"
    and fd: "\<forall>i<length (f # es). fd_de (fds (snd (lanzados fs ! i))) =
      estandar (extremo_in (ruta @ [1]) (PipeR ruta) i) (extremo_out (ruta @ [1]) y (length (f # es)) i) z"
    using Cons.IH(2) [of ?h2 "PipeR ruta" "ruta @ [1]"] Cons.prems t(2) by auto
  obtain c where c: "tuberia (f # es) = Some c" using tuberia_simps(3) by blast
  have "exec_cmd k ruta (tuberia (e # f # es)) p =
      Inr (Ejecuta (argv e) (?h1\<lparr>ambiente_de := env\<rparr>) # fs @ [Sale 0])"
    using Cons.prems(3,4) a l r c by (simp add: tuberia_simps(2) Let_def)
  moreover have "fd_de (fds (snd (lanzados (Ejecuta (argv e) (?h1\<lparr>ambiente_de := env\<rparr>) # fs @ [Sale 0]) ! i))) =
      estandar (extremo_in ruta x i) (extremo_out ruta y (length (e # f # es)) i) z"
    if i: "i < length (e # f # es)" for i
  proof (cases i)
    case 0
    then show ?thesis using t(1) by (simp add: extremo_in_def extremo_out_def)
  next
    case (Suc j)
    have "length (lanzados fs) = length (f # es)" using m by (metis length_map)
    then have "j < length (lanzados fs)" "j < length (f # es)" using i Suc by simp_all
    then show ?thesis
      using fd Suc extremo_Suc(1) [where i = j and ruta = ruta and x = x]
        extremo_Suc(2) [where i = j and ruta = ruta and y = y and n = "length (f # es)"]
      by (simp add: nth_append)
  qed
  ultimately show ?case
    using m by (intro exI [of _ "Ejecuta (argv e) (?h1\<lparr>ambiente_de := env\<rparr>) # fs @ [Sale 0]"]) simp
qed

section \<open>Redirections\<close>

lemma redirige_fd:
  assumes "fd_de t = estandar x y z" and "d \<in> {STDIN, STDOUT, STDERR}"
  shows "\<exists>t'. redirige True ob d t = Some t' \<and> fd_de t' = (estandar x y z)(d := Some ob)"
proof -
  obtain fd t1 where a: "asigna ob t = (fd, t1)" by fastforce
  note f = fd_de_asigna [OF a]
  have "fd \<notin> {STDIN, STDOUT, STDERR}"
    using f(1) assms(1) estandar_None [of x y z fd] by auto
  then have "fd_de (cierra fd (dup2 fd d t1)) = (estandar x y z)(d := Some ob)"
    using assms f by (auto simp: fd_de_simps fun_eq_iff)
  then show ?thesis using a by (simp add: redirige_def)
qed

lemma estandar_upd:
  "(estandar x y z)(STDIN := Some w) = estandar w y z"
  "(estandar x y z)(STDOUT := Some w) = estandar x w z"
  "(estandar x y z)(STDERR := Some w) = estandar x y w"
  by (auto simp: estandar_def STDIN_def STDOUT_def STDERR_def fun_eq_iff)

lemma redirecciones_fd:
  assumes "fd_de t = estandar x y z"
    and "out_file r \<noteq> [] \<Longrightarrow> abre_salida k (out_file r)"
    and "in_file r \<noteq> [] \<Longrightarrow> abre_lectura k (in_file r)"
    and "err_file r \<noteq> [] \<Longrightarrow> err_file r \<noteq> ''&1'' \<Longrightarrow> abre_salida k (err_file r)"
  defines "y' \<equiv> if out_file r = [] then y else Escritura (out_file r)"
  shows "\<exists>t'. redirecciones k r t = Some t' \<and>
    fd_de t' = estandar (if in_file r = [] then x else Lectura (in_file r)) y'
      (if err_file r = [] then z else if err_file r = ''&1'' then y' else Escritura (err_file r))"
proof -
  obtain t1 where t1: "(if out_file r \<noteq> [] then redirige (abre_salida k (out_file r)) (Escritura (out_file r)) STDOUT t
      else Some t) = Some t1" "fd_de t1 = estandar x y' z"
    using redirige_fd [OF assms(1), of STDOUT "Escritura (out_file r)"] assms(1,2)
    by (cases "out_file r = []") (auto simp: y'_def estandar_upd)
  let ?x = "if in_file r = [] then x else Lectura (in_file r)"
  obtain t2 where t2: "(if in_file r \<noteq> [] then redirige (abre_lectura k (in_file r)) (Lectura (in_file r)) STDIN t1
      else Some t1) = Some t2" "fd_de t2 = estandar ?x y' z"
    using redirige_fd [OF t1(2), of STDIN "Lectura (in_file r)"] t1(2) assms(3)
    by (cases "in_file r = []") (auto simp: estandar_upd)
  have "fd_de (dup2 STDOUT STDERR t2) = estandar ?x y' y'"
    using t2(2) by (auto simp: fd_de_simps estandar_def STDIN_def STDOUT_def STDERR_def fun_eq_iff)
  then show ?thesis
    using redirige_fd [OF t2(2), of STDERR "Escritura (err_file r)"] t2(2) assms(4)
    unfolding redirecciones_def t1(1) option.case t2(1)
    by (auto simp: estandar_upd)
qed

section \<open>The main loop\<close>

lemma lee_linea_corta:
  "lee_linea i acc entrada = Inr (Some l, resto) \<Longrightarrow> length resto < length entrada"
  by (induction entrada arbitrary: i acc) (fastforce split: if_splits)+

lemma run_shell_termina:
  "length entrada < n \<Longrightarrow> run_shell n mq entrada s \<noteq> Inr None"
proof (induction n arbitrary: entrada s)
  case 0
  then show ?case by simp
next
  case (Suc n)
  show ?case
  proof
    assume "run_shell (Suc n) mq entrada s = Inr None"
    then obtain l resto v s' out where l: "read_line entrada = Inr (Some l, resto)"
      and "run_shell n mq resto s' = Inr None"
      by (auto simp: and_then_eq_Inr split: option.splits vuelta.splits) (metis vuelta.exhaust)
    moreover have "length resto < length entrada"
      using l lee_linea_corta unfolding read_line_def by blast
    ultimately show False using Suc.IH [of resto s'] Suc.prems by simp
  qed
qed

section \<open>Wait statuses\<close>

lemma take_bit_pequeno: "n < 2 ^ k \<Longrightarrow> take_bit k (of_nat n :: 32 word) = of_nat n"
  by (metis take_bit_nat_eq_self take_bit_of_nat)

lemma WTERMSIG_take_bit: "WTERMSIG w = take_bit 7 w"
  by (simp add: WTERMSIG_def take_bit_eq_mask mask_numeral)

lemma WEXITSTATUS_push: "WEXITSTATUS (push_bit 8 w) = take_bit 8 w"
proof -
  have "(0xFF00 :: 32 word) = push_bit 8 (mask 8)"
    by (simp add: mask_numeral push_bit_eq_mult)
  then have "push_bit 8 w AND 0xFF00 = push_bit 8 (take_bit 8 w)"
    by (simp only: take_bit_eq_mask push_bit_and)
  moreover have "drop_bit 8 (push_bit 8 (take_bit 8 w)) = take_bit 8 w"
    by (rule bit_word_eqI) (auto simp: bit_simps)
  ultimately show ?thesis by (simp add: WEXITSTATUS_def)
qed

lemma sint_pequeno:
  "g < 256 \<Longrightarrow> sint (of_nat g :: 32 word) = int g"
  "g < 256 \<Longrightarrow> sint (- (of_nat g :: 32 word)) = - int g"
proof -
  show p: "g < 256 \<Longrightarrow> sint (of_nat g :: 32 word) = int g"
    by (simp add: signed_of_nat signed_take_bit_int_eq_self)
  then show "g < 256 \<Longrightarrow> sint (- (of_nat g :: 32 word)) = - int g"
    by (simp add: sint_word_ariths signed_take_bit_int_eq_self)
qed

lemma of_nat_pequeno:
  assumes "0 < g" and "g < 127"
  shows "(of_nat g :: 32 word) \<noteq> 0" "(of_nat g :: 32 word) \<noteq> 0x7F"
proof -
  have "unat (of_nat g :: 32 word) = g"
    using assms by (simp add: unat_of_nat)
  then show "(of_nat g :: 32 word) \<noteq> 0" "(of_nat g :: 32 word) \<noteq> 0x7F"
    using assms by auto
qed

end
