(* ===== verification/Shell_Contrato.thy ===== *)
theory Shell_Contrato
  imports Shell_Props
begin

text \<open>
  What the shell promises: the meaning of the words of a command and of the bars of a line, the open
  files of the processes of a pipeline and of a redirected command, the decoding of wait statuses and
  the end of the main loop; and three places where the code falls short of its comments.
\<close>

definition ent0 :: entorno where
  "ent0 = \<lparr>getenv = [''HOME'' \<mapsto> ''/h''], status = 3\<rparr>"

definition vacio :: "string \<Rightarrow> execcmd" where
  "vacio buf = \<lparr>tipo = EXEC, scmd = buf, argv = [], eargv = [], out_file = [], in_file = [], err_file = []\<rparr>"




definition std :: proceso where
  "std = \<lparr>fds = [Some (Terminal 0), Some (Terminal 1), Some (Terminal 2)], ambiente_de = (\<lambda>v. None)\<rparr>"

definition nucleo0 :: nucleo where
  "nucleo0 = \<lparr>abre_lectura = (\<lambda>f. True), abre_salida = (\<lambda>f. True), pipe_ok = True, fork_ok = True\<rparr>"

lemma std_fds: "fd_de (fds std) = estandar (Terminal 0) (Terminal 1) (Terminal 2)"
  by (auto simp: std_def fd_de_def estandar_def STDIN_def STDOUT_def STDERR_def fun_eq_iff nth_Cons
      split: nat.split)



text \<open>
  The redirections of a command: when its files open, its standard input, output and error are
  the files named (\<^verbatim>\<open>2>&1\<close> sends the error where the output goes after \<^verbatim>\<open>>\<close> is applied), the others
  are inherited, and no other descriptor is open.
\<close>
theorem exec_redir:
  assumes "fd_de t = estandar x y z"
    and "out_file r \<noteq> [] \<Longrightarrow> abre_salida k (out_file r)"
    and "in_file r \<noteq> [] \<Longrightarrow> abre_lectura k (in_file r)"
    and "err_file r \<noteq> [] \<Longrightarrow> err_file r \<noteq> ''&1'' \<Longrightarrow> abre_salida k (err_file r)"
  shows "\<exists>t'. redirecciones k r t = Some t' \<and>
    fd_de t' = estandar (if in_file r = [] then x else Lectura (in_file r))
      (if out_file r = [] then y else Escritura (out_file r))
      (if err_file r = [] then z
       else if err_file r = ''&1'' then (if out_file r = [] then y else Escritura (out_file r))
       else Escritura (err_file r))"
  using redirecciones_fd [OF assms] by simp

theorem exec_redir_witness:
  "\<exists>t'. redirecciones nucleo0 ((vacio ''x'')\<lparr>out_file := ''o'', err_file := ''&1''\<rparr>) (fds std) = Some t' \<and>
    fd_de t' = estandar (if in_file ((vacio ''x'')\<lparr>out_file := ''o'', err_file := ''&1''\<rparr>) = [] then Terminal 0
        else Lectura (in_file ((vacio ''x'')\<lparr>out_file := ''o'', err_file := ''&1''\<rparr>)))
      (if out_file ((vacio ''x'')\<lparr>out_file := ''o'', err_file := ''&1''\<rparr>) = [] then Terminal 1
       else Escritura (out_file ((vacio ''x'')\<lparr>out_file := ''o'', err_file := ''&1''\<rparr>)))
      (if err_file ((vacio ''x'')\<lparr>out_file := ''o'', err_file := ''&1''\<rparr>) = [] then Terminal 2
       else if err_file ((vacio ''x'')\<lparr>out_file := ''o'', err_file := ''&1''\<rparr>) = ''&1''
       then (if out_file ((vacio ''x'')\<lparr>out_file := ''o'', err_file := ''&1''\<rparr>) = [] then Terminal 1
             else Escritura (out_file ((vacio ''x'')\<lparr>out_file := ''o'', err_file := ''&1''\<rparr>)))
       else Escritura (err_file ((vacio ''x'')\<lparr>out_file := ''o'', err_file := ''&1''\<rparr>)))"
  by (rule exec_redir [OF std_fds]) (simp_all add: nucleo0_def)

text \<open>
  A line whose first segment is empty (\<^verbatim>\<open>| ls\<close>) builds a pipeline with a null left command, and
  after the child ends the shell itself follows the null pointer in \<^verbatim>\<open>free_command\<close>.
\<close>
theorem barra_inicial:
  assumes "parse_line_desde \<lparr>getenv = var_env mq, status = sint (estado_final s)\<rparr> (Some (CHR 0x00)) resto =
      Inr (Some r)"
  shows "run_cmd mq (CHR ''|'' # resto) s = Inl ComandoNulo"
proof -
  have "parse_line \<lparr>getenv = var_env mq, status = sint (estado_final s)\<rparr> (CHR ''|'' # resto) =
      Inr (Some (Pipecmd None r))"
    using assms unfolding parse_line_def
    by (subst parse_line_desde.simps)
       (simp add: block_contains_def parse_cmd_def pipe_cmd_create_def)
  then show ?thesis
    by (simp add: run_cmd_def history_def cd_def exit_shell_def pwd_def print_status_info_def)
qed

definition mq0 :: maquina where
  "mq0 = \<lparr>var_env = (\<lambda>v. None), cambia_dir = (\<lambda>c d. Some d), pid_hijo = (\<lambda>c. 7), espera = (\<lambda>c. 0)\<rparr>"

definition sh0 :: shell where
  "sh0 = \<lparr>prompt = [], estado_final = 0, cwd = ''/''\<rparr>"

theorem barra_inicial_witness:
  "run_cmd mq0 (CHR ''|'' # ''ls'') sh0 = Inl ComandoNulo"
proof (rule barra_inicial)
  let ?ent = "\<lparr>getenv = var_env mq0, status = sint (estado_final sh0)\<rparr>"
  have s: "segmentos ''ls'' = [''ls'']" by (subst segmentos.simps) simp
  have p: "palabras ''ls'' = [''ls'']" by (subst palabras.simps) (simp add: Let_def palabras.simps)
  have "parse_cmd ?ent (Some (CHR 0x00)) ''ls'' = Inr (Some (Execcmd (suma ?ent [''ls''] (vacio ''ls''))))"
    by (simp add: parse_cmd_def block_contains_def parse_exec_def exec_cmd_create_def BUFLEN_def
        parse_tokens_palabras ARGSIZE_def p procesa_arg es_redir_def es_var_def expand_environ_var_def
        MAXARGS_def vacio_def suma_def argumentos_def check_that_def)
  then show "parse_line_desde ?ent (Some (CHR 0x00)) ''ls'' =
      Inr (Some (Execcmd (suma ?ent [''ls''] (vacio ''ls''))))"
    by (simp add: parse_line_segmentos s)
qed

text \<open>
  C13: \<^verbatim>\<open>parse_environ_var\<close> rejects a pair \<^verbatim>\<open>KEY=VALUE\<close> whenever a \<open>-\<close> stands anywhere in it, also in
  the value, where its comment speaks of the key only: such a pair becomes an argument.
\<close>
theorem guion_en_valor:
  assumes "k \<noteq> []" and "CHR ''='' \<notin> set k" and "CHR ''-'' \<in> set v"
  shows "parse_environ_var c (k @ CHR ''='' # v) = Inr None"
proof -
  have "block_contains (k @ CHR ''='' # v) (CHR ''-'') \<noteq> None"
    using assms(3) by (simp add: block_contains_None)
  then show ?thesis
    by (auto simp: parse_environ_var_def split: option.split nat.split)
qed

theorem guion_en_valor_witness:
  "parse_environ_var (vacio []) (''X'' @ CHR ''='' # ''a-b'') = Inr None"
  by (rule guion_en_valor) simp_all

text \<open>
  C15: \<^verbatim>\<open>print_status_info\<close> decodes what \<^verbatim>\<open>waitpid\<close> stores: for a process that exited with code \<open>n\<close> it
  reports and keeps \<open>n\<close>, for one killed by signal \<open>g\<close> it reports \<open>-g\<close>, so that \<^verbatim>\<open>$?\<close> expands to it.
\<close>
theorem estado_decodificado:
  assumes "scmd e \<noteq> []" and "n < 256" and "0 < g" and "g < 127"
  shows "print_status_info (Execcmd e) (s\<lparr>estado_final := push_bit 8 (of_nat n)\<rparr>) =
      (s\<lparr>estado_final := of_nat n\<rparr>, [Info (scmd e) ''exited'' (int n)]) \<and>
    print_status_info (Execcmd e) (s\<lparr>estado_final := of_nat g\<rparr>) =
      (s\<lparr>estado_final := - of_nat g\<rparr>, [Info (scmd e) ''killed'' (- int g)])"
proof
  have "WTERMSIG (push_bit 8 (of_nat n)) = 0"
    by (simp add: WTERMSIG_take_bit take_bit_push_bit)
  moreover have "WEXITSTATUS (push_bit 8 (of_nat n)) = of_nat n"
    using assms(2) by (simp add: WEXITSTATUS_push take_bit_pequeno)
  ultimately show "print_status_info (Execcmd e) (s\<lparr>estado_final := push_bit 8 (of_nat n)\<rparr>) =
      (s\<lparr>estado_final := of_nat n\<rparr>, [Info (scmd e) ''exited'' (int n)])"
    using assms(1,2) by (simp add: print_status_info_def WIFEXITED_def sint_pequeno)
  have "WTERMSIG (of_nat g) = of_nat g"
    using assms(4) by (simp add: WTERMSIG_take_bit take_bit_pequeno)
  then show "print_status_info (Execcmd e) (s\<lparr>estado_final := of_nat g\<rparr>) =
      (s\<lparr>estado_final := - of_nat g\<rparr>, [Info (scmd e) ''killed'' (- int g)])"
    using assms(1,3,4) of_nat_pequeno [of g]
    by (simp add: print_status_info_def WIFEXITED_def WIFSIGNALED_def sint_pequeno)
qed

theorem estado_decodificado_witness:
  "print_status_info (Execcmd (vacio ''ls'')) (sh0\<lparr>estado_final := push_bit 8 (of_nat 2)\<rparr>) =
      (sh0\<lparr>estado_final := of_nat 2\<rparr>, [Info (scmd (vacio ''ls'')) ''exited'' (int 2)]) \<and>
    print_status_info (Execcmd (vacio ''ls'')) (sh0\<lparr>estado_final := of_nat 9\<rparr>) =
      (sh0\<lparr>estado_final := - of_nat 9\<rparr>, [Info (scmd (vacio ''ls'')) ''killed'' (- int 9)])"
  by (rule estado_decodificado) (simp_all add: vacio_def)

text \<open>
  C9: The main loop of the shell ends: with one unit of fuel more than the input has characters,
  \<^verbatim>\<open>run_shell\<close> reaches \<^verbatim>\<open>exit\<close>, the end of the input or a crash.
\<close>
theorem run_shell_acaba:
  "(\<exists>f. run_shell (Suc (length entrada)) mq entrada s = Inl f) \<or>
   (\<exists>u out. run_shell (Suc (length entrada)) mq entrada s = Inr (Some (u, out)))"
  using run_shell_termina [of entrada "Suc (length entrada)" mq s]
  by (cases "run_shell (Suc (length entrada)) mq entrada s") auto

end
