(* ===== verification/Primes.thy ===== *)
theory Primes
  imports Prelude
begin

text \<open>
  \<^verbatim>\<open>fork/primes.c\<close> and \<^verbatim>\<open>funciones_para_primes.c\<close>: the sieve of processes connected by pipes. The
  processes run interleaved: a state holds every process with the pipe it reads, and \<open>paso\<close> is one
  system call of one process, in any order. \<^verbatim>\<open>pipe\<close> and \<^verbatim>\<open>fork\<close> succeed and a pipe holds all that is
  written to it.
\<close>

section \<open>The processes\<close>

datatype fase = Inicial | Filtra nat | Fin

text \<open>A process in \<^verbatim>\<open>imprimir_numeros_primos_con_procesos\<close> and its pipe: what is in it, and whether
  the end that writes to it is closed.\<close>

record etapa =
  cola :: "nat list"
  cerrada :: bool
  fase_de :: fase

record red =
  siguiente :: nat
  principal_cerro :: bool
  etapas :: "etapa list"
  traza :: "nat list"

definition etapa_nueva :: etapa where
  "etapa_nueva = \<lparr>cola = [], cerrada = False, fase_de = Inicial\<rparr>"

text \<open>\<^verbatim>\<open>main\<close> after its \<^verbatim>\<open>fork\<close>.\<close>

definition red_inicial :: red where
  "red_inicial = \<lparr>siguiente = 2, principal_cerro = False, etapas = [etapa_nueva], traza = []\<rparr>"

text \<open>
  The calls: \<^verbatim>\<open>main\<close> writes the next number or closes its pipe; a process reads its first number,
  creates the pipe and the process after it, and prints the number; it finds the pipe ended and
  returns; it reads a number and passes it on or drops it; at the end it closes the next pipe.
\<close>

inductive paso :: "nat \<Rightarrow> red \<Rightarrow> red \<Rightarrow> bool" for n :: nat where
  escribe: "i < n \<Longrightarrow> paso n
     \<lparr>siguiente = i, principal_cerro = False, etapas = e # es, traza = tr\<rparr>
     \<lparr>siguiente = i + 1, principal_cerro = False, etapas = e\<lparr>cola := cola e @ [i]\<rparr> # es, traza = tr\<rparr>"
| cierra: "\<not> i < n \<Longrightarrow> paso n
     \<lparr>siguiente = i, principal_cerro = False, etapas = e # es, traza = tr\<rparr>
     \<lparr>siguiente = i, principal_cerro = True, etapas = e\<lparr>cerrada := True\<rparr> # es, traza = tr\<rparr>"
| primero: "paso n
     \<lparr>siguiente = i, principal_cerro = c, etapas = us @ [\<lparr>cola = p # q, cerrada = b, fase_de = Inicial\<rparr>], traza = tr\<rparr>
     \<lparr>siguiente = i, principal_cerro = c,
      etapas = us @ [\<lparr>cola = q, cerrada = b, fase_de = Filtra p\<rparr>, etapa_nueva], traza = tr @ [p]\<rparr>"
| vacia: "paso n
     \<lparr>siguiente = i, principal_cerro = c, etapas = us @ [\<lparr>cola = [], cerrada = True, fase_de = Inicial\<rparr>], traza = tr\<rparr>
     \<lparr>siguiente = i, principal_cerro = c, etapas = us @ [\<lparr>cola = [], cerrada = True, fase_de = Fin\<rparr>], traza = tr\<rparr>"
| pasa: "a mod p \<noteq> 0 \<Longrightarrow> paso n
     \<lparr>siguiente = i, principal_cerro = c,
      etapas = us @ \<lparr>cola = a # q, cerrada = b, fase_de = Filtra p\<rparr> # f # vs, traza = tr\<rparr>
     \<lparr>siguiente = i, principal_cerro = c,
      etapas = us @ \<lparr>cola = q, cerrada = b, fase_de = Filtra p\<rparr> # f\<lparr>cola := cola f @ [a]\<rparr> # vs, traza = tr\<rparr>"
| descarta: "a mod p = 0 \<Longrightarrow> paso n
     \<lparr>siguiente = i, principal_cerro = c,
      etapas = us @ \<lparr>cola = a # q, cerrada = b, fase_de = Filtra p\<rparr> # f # vs, traza = tr\<rparr>
     \<lparr>siguiente = i, principal_cerro = c,
      etapas = us @ \<lparr>cola = q, cerrada = b, fase_de = Filtra p\<rparr> # f # vs, traza = tr\<rparr>"
| termina: "paso n
     \<lparr>siguiente = i, principal_cerro = c,
      etapas = us @ \<lparr>cola = [], cerrada = True, fase_de = Filtra p\<rparr> # f # vs, traza = tr\<rparr>
     \<lparr>siguiente = i, principal_cerro = c,
      etapas = us @ \<lparr>cola = [], cerrada = True, fase_de = Fin\<rparr> # f\<lparr>cerrada := True\<rparr> # vs, traza = tr\<rparr>"

definition final_red :: "nat \<Rightarrow> red \<Rightarrow> bool" where
  "final_red n s \<longleftrightarrow> (\<nexists>t. paso n s t)"

section \<open>The sieve as a function\<close>

fun criba :: "nat list \<Rightarrow> nat list" where
  "criba [] = []"
| "criba (p # as) = p # criba (filter (\<lambda>a. a mod p \<noteq> 0) as)"

definition primo :: "nat \<Rightarrow> bool" where
  "primo p \<longleftrightarrow> 2 \<le> p \<and> (\<forall>d. d dvd p \<longrightarrow> d = 1 \<or> d = p)"

text \<open>Ascending lists that hold, with a number, its divisors from 2 on.\<close>

definition con_divisores :: "nat list \<Rightarrow> bool" where
  "con_divisores xs \<longleftrightarrow> sorted_wrt (<) xs \<and> (\<forall>x\<in>set xs. 2 \<le> x \<and> (\<forall>d. 2 \<le> d \<and> d dvd x \<longrightarrow> d \<in> set xs))"

lemma criba_primos: "con_divisores xs \<Longrightarrow> criba xs = filter primo xs"
proof (induction xs rule: criba.induct)
  case 1
  then show ?case by simp
next
  case (2 p as)
  let ?as = "filter (\<lambda>a. a mod p \<noteq> 0) as"
  have p: "2 \<le> p" and mayores: "\<forall>x\<in>set as. p < x" and ord: "sorted_wrt (<) as"
    using 2(2) by (auto simp: con_divisores_def)
  have div: "d \<in> set (p # as)" if "x \<in> set (p # as)" "2 \<le> d" "d dvd x" for x d
    using 2(2) that unfolding con_divisores_def by blast
  have two: "2 \<le> d" if "d dvd x" "x \<in> set (p # as)" "d \<noteq> 1" for d x
  proof -
    have "0 < x" using that(2) p mayores by auto
    then have "d \<noteq> 0" using that(1) by (metis dvd_0_left_iff less_not_refl)
    then show ?thesis using that(3) by simp
  qed
  have "primo p"
    unfolding primo_def
  proof (intro conjI allI impI p)
    fix d assume d: "d dvd p"
    show "d = 1 \<or> d = p"
    proof (cases "d = 1")
      case False
      then have "d \<in> set (p # as)" using div [of p d] two [OF d] d by simp
      moreover have "d \<le> p" using d p by (simp add: dvd_imp_le)
      ultimately show ?thesis using mayores by auto
    qed simp
  qed
  moreover have "filter primo ?as = filter primo as"
  proof -
    have "a mod p \<noteq> 0" if "a \<in> set as" "primo a" for a
      using that mayores p by (auto simp: primo_def mod_eq_0_iff_dvd)
    then show ?thesis by (auto simp: filter_filter intro: filter_cong)
  qed
  moreover have "con_divisores ?as"
    unfolding con_divisores_def
  proof (intro conjI ballI allI impI)
    show "sorted_wrt (<) ?as" using ord by (rule sorted_wrt_filter)
    fix x assume x: "x \<in> set ?as"
    then show "2 \<le> x" using mayores p by auto
    fix d assume d: "2 \<le> d \<and> d dvd x"
    then have "d \<in> set (p # as)" "\<not> p dvd d" using div [of x d] x
      by (auto simp: mod_eq_0_iff_dvd dest: dvd_trans)
    then show "d \<in> set ?as" by (auto simp: mod_eq_0_iff_dvd)
  qed
  ultimately show ?case using 2(1) by simp
qed

lemma criba_desde_2: "criba [2..<n] = filter primo [2..<n]"
proof (rule criba_primos)
  show "con_divisores [2..<n]"
    by (auto simp: con_divisores_def dest: dvd_imp_le)
qed

lemma length_criba: "length (criba xs) \<le> length xs"
  by (induction xs rule: criba.induct) (auto intro: le_trans [OF _ length_filter_le])

section \<open>The invariant\<close>

text \<open>What comes out of the filters when \<open>xs\<close> is still to come into the first pipe.\<close>

fun flujo :: "nat list \<Rightarrow> etapa list \<Rightarrow> nat list" where
  "flujo xs [] = xs"
| "flujo xs (e # es) =
     (case fase_de e of
        Filtra p \<Rightarrow> flujo (filter (\<lambda>a. a mod p \<noteq> 0) (cola e @ xs)) es
      | _ \<Rightarrow> flujo (cola e @ xs) es)"

text \<open>
  A pipe is closed exactly when the process before it has ended, and then nothing more comes; only
  the last process can be at its first number.
\<close>

fun bien :: "nat list \<Rightarrow> bool \<Rightarrow> etapa list \<Rightarrow> bool" where
  "bien xs c [] = False"
| "bien xs c (e # es) \<longleftrightarrow> cerrada e = c \<and> (c \<longrightarrow> xs = []) \<and>
     (if es = [] then fase_de e = Inicial \<or> fase_de e = Fin \<and> cola e = [] \<and> c
      else (case fase_de e of
              Inicial \<Rightarrow> False
            | Filtra p \<Rightarrow> bien (filter (\<lambda>a. a mod p \<noteq> 0) (cola e @ xs)) False es
            | Fin \<Rightarrow> cola e = [] \<and> c \<and> bien [] True es))"

lemma bien_contexto:
  assumes "bien xs c (us @ ws)" and "ws \<noteq> []"
  obtains xs' c' where "bien xs' c' ws" "flujo xs (us @ ws) = flujo xs' ws"
    "\<And>ws'. ws' \<noteq> [] \<Longrightarrow> bien xs' c' ws' \<Longrightarrow> bien xs c (us @ ws') \<and> flujo xs (us @ ws') = flujo xs' ws'"
  using assms(1)
proof (induction us arbitrary: xs c thesis)
  case Nil
  then show ?case by (intro Nil.prems(1) [of xs c]) auto
next
  case (Cons u us)
  show ?case
  proof (cases "fase_de u")
    case Inicial
    with Cons.prems(2) assms(2) show ?thesis by simp
  next
    case (Filtra p)
    let ?ys = "filter (\<lambda>a. a mod p \<noteq> 0) (cola u @ xs)"
    have b: "bien ?ys False (us @ ws)" using Cons.prems(2) assms(2) Filtra by simp
    from Cons.IH [OF _ b] obtain xs' c' where "bien xs' c' ws" "flujo ?ys (us @ ws) = flujo xs' ws"
      "\<And>ws'. ws' \<noteq> [] \<Longrightarrow> bien xs' c' ws' \<Longrightarrow> bien ?ys False (us @ ws') \<and> flujo ?ys (us @ ws') = flujo xs' ws'"
      by blast
    then show ?thesis
      using Cons.prems(2) Filtra assms(2) by (intro Cons.prems(1) [of xs' c']) auto
  next
    case Fin
    have b: "bien [] True (us @ ws)" using Cons.prems(2) assms(2) Fin by simp
    from Cons.IH [OF _ b] obtain xs' c' where "bien xs' c' ws" "flujo [] (us @ ws) = flujo xs' ws"
      "\<And>ws'. ws' \<noteq> [] \<Longrightarrow> bien xs' c' ws' \<Longrightarrow> bien [] True (us @ ws') \<and> flujo [] (us @ ws') = flujo xs' ws'"
      by blast
    then show ?thesis
      using Cons.prems(2) Fin assms(2) by (intro Cons.prems(1) [of xs' c']) auto
  qed
qed

definition inv_red :: "nat \<Rightarrow> red \<Rightarrow> bool" where
  "inv_red n s \<longleftrightarrow> bien [siguiente s..<n] (principal_cerro s) (etapas s) \<and>
     traza s @ criba (flujo [siguiente s..<n] (etapas s)) = criba [2..<n] \<and>
     length (etapas s) = Suc (length (traza s))"

lemma inv_inicial: "inv_red n red_inicial"
  by (simp add: inv_red_def red_inicial_def etapa_nueva_def)

text \<open>A step of the processes \<open>ws\<close> of the network that keeps their part of the invariant.\<close>

lemma inv_contexto:
  assumes "inv_red n \<lparr>siguiente = i, principal_cerro = c, etapas = us @ ws, traza = tr\<rparr>"
    and "ws \<noteq> []" "ws' \<noteq> []" and "length ws' + length tr = length ws + length tr'"
    and "\<And>xs b. bien xs b ws \<Longrightarrow> bien xs b ws' \<and> tr' @ criba (flujo xs ws') = tr @ criba (flujo xs ws)"
  shows "inv_red n \<lparr>siguiente = i, principal_cerro = c, etapas = us @ ws', traza = tr'\<rparr>"
proof -
  from assms(1) have b: "bien [i..<n] c (us @ ws)" by (simp add: inv_red_def)
  show ?thesis
    using b assms(2)
  proof (rule bien_contexto)
    fix xs' c'
    assume "bien xs' c' ws" "flujo [i..<n] (us @ ws) = flujo xs' ws"
      "\<And>ws'. ws' \<noteq> [] \<Longrightarrow> bien xs' c' ws' \<Longrightarrow>
        bien [i..<n] c (us @ ws') \<and> flujo [i..<n] (us @ ws') = flujo xs' ws'"
    then show ?thesis
      using assms(1,3,4) assms(5) [of xs' c'] by (auto simp: inv_red_def)
  qed
qed

lemma flujo_snoc_cola: "flujo xs (f\<lparr>cola := cola f @ [a]\<rparr> # vs) = flujo (a # xs) (f # vs)"
  by (simp split: fase.split)

lemma bien_snoc_cola: "bien (a # xs) b (f # vs) \<Longrightarrow> bien xs b (f\<lparr>cola := cola f @ [a]\<rparr> # vs)"
  by (auto split: fase.splits if_splits)

lemma bien_cierra: "bien xs False (f # vs) \<Longrightarrow> xs = [] \<Longrightarrow> bien [] True (f\<lparr>cerrada := True\<rparr> # vs)"
  by (auto split: fase.splits if_splits)

lemma flujo_cierra: "flujo xs (f\<lparr>cerrada := True\<rparr> # vs) = flujo xs (f # vs)"
  by (simp split: fase.split)

lemma literales:
  "bien xs c (\<lparr>cola = q, cerrada = b, fase_de = Filtra p\<rparr> # f # vs) \<longleftrightarrow>
     b = c \<and> (c \<longrightarrow> xs = []) \<and> bien (filter (\<lambda>a. a mod p \<noteq> 0) (q @ xs)) False (f # vs)"
  "bien xs c (\<lparr>cola = q, cerrada = b, fase_de = Fin\<rparr> # f # vs) \<longleftrightarrow>
     b = c \<and> xs = [] \<and> q = [] \<and> c \<and> bien [] True (f # vs)"
  "flujo xs (\<lparr>cola = q, cerrada = b, fase_de = Filtra p\<rparr> # vs) =
     flujo (filter (\<lambda>a. a mod p \<noteq> 0) (q @ xs)) vs"
  "flujo xs (\<lparr>cola = q, cerrada = b, fase_de = Fin\<rparr> # vs) = flujo (q @ xs) vs"
  by auto

lemma inv_paso: "paso n s t \<Longrightarrow> inv_red n s \<Longrightarrow> inv_red n t"
proof (induction rule: paso.induct)
  case (escribe i e es tr)
  then have "[i..<n] = i # [Suc i..<n]" by (simp add: upt_conv_Cons)
  with escribe show ?case
    using bien_snoc_cola [of i "[Suc i..<n]" False e es] flujo_snoc_cola [of "[Suc i..<n]" e i es]
    by (simp add: inv_red_def del: flujo.simps(2) bien.simps(2))
next
  case (cierra i e es tr)
  then have "[i..<n] = []" by simp
  with cierra show ?case
    using bien_cierra [of "[]" e es] flujo_cierra [of "[]" e es]
    by (simp add: inv_red_def del: flujo.simps(2) bien.simps(2))
next
  case (primero i c us p q b tr)
  then show ?case
    by (rule inv_contexto) (auto simp: etapa_nueva_def)
next
  case (vacia i c us tr)
  then show ?case by (rule inv_contexto) auto
next
  case (pasa a p i c us q b f vs tr)
  let ?e = "\<lparr>cola = a # q, cerrada = b, fase_de = Filtra p\<rparr>"
  let ?e' = "\<lparr>cola = q, cerrada = b, fase_de = Filtra p\<rparr>"
  show ?case
    using pasa(2)
  proof (rule inv_contexto)
    fix xs d assume "bien xs d (?e # f # vs)"
    then show "bien xs d (?e' # f\<lparr>cola := cola f @ [a]\<rparr> # vs) \<and>
        tr @ criba (flujo xs (?e' # f\<lparr>cola := cola f @ [a]\<rparr> # vs)) = tr @ criba (flujo xs (?e # f # vs))"
      using pasa(1) bien_snoc_cola [of a "filter (\<lambda>x. x mod p \<noteq> 0) (q @ xs)" False f vs]
      by (auto simp: literales flujo_snoc_cola simp del: flujo.simps(2) bien.simps(2))
  qed simp_all
next
  case (descarta a p i c us q b f vs tr)
  show ?case
    using descarta(2) by (rule inv_contexto) (use descarta(1) in \<open>auto simp: literales simp del: flujo.simps(2) bien.simps(2)\<close>)
next
  case (termina i c us p f vs tr)
  let ?e = "\<lparr>cola = [], cerrada = True, fase_de = Filtra p\<rparr>"
  let ?e' = "\<lparr>cola = [], cerrada = True, fase_de = Fin\<rparr>"
  show ?case
    using termina
  proof (rule inv_contexto)
    fix xs d assume "bien xs d (?e # f # vs)"
    then show "bien xs d (?e' # f\<lparr>cerrada := True\<rparr> # vs) \<and>
        tr @ criba (flujo xs (?e' # f\<lparr>cerrada := True\<rparr> # vs)) = tr @ criba (flujo xs (?e # f # vs))"
      using bien_cierra [of "[]" f vs]
      by (auto simp: literales flujo_cierra simp del: flujo.simps(2) bien.simps(2))
  qed simp_all
qed

section \<open>Progress and termination\<close>

text \<open>
  Each number weighs more the further it is from the end of the chain, so every call makes the
  network lighter.
\<close>

fun peso :: "nat \<Rightarrow> nat \<Rightarrow> etapa list \<Rightarrow> nat" where
  "peso n k [] = 0"
| "peso n k (e # es) = 3 * (n - k) * length (cola e) + (if fase_de e = Fin then 0 else 1) + peso n (Suc k) es"

definition medida :: "nat \<Rightarrow> red \<Rightarrow> nat" where
  "medida n s = (n - siguiente s) * (3 * n + 1) + (if principal_cerro s then 0 else 1) + peso n 0 (etapas s)"

lemma peso_append: "peso n k (us @ ws) = peso n k us + peso n (k + length us) ws"
  by (induction us arbitrary: k) auto

lemma inv_largo:
  assumes "inv_red n s"
  shows "length (traza s) \<le> n - 2"
    and "flujo [siguiente s..<n] (etapas s) \<noteq> [] \<Longrightarrow> length (traza s) < n - 2"
proof -
  have "length (traza s @ criba (flujo [siguiente s..<n] (etapas s))) \<le> n - 2"
    using assms length_criba [of "[2..<n]"] by (simp add: inv_red_def)
  then have le: "length (traza s) + length (criba (flujo [siguiente s..<n] (etapas s))) \<le> n - 2"
    by simp
  then show "length (traza s) \<le> n - 2" by simp
  assume "flujo [siguiente s..<n] (etapas s) \<noteq> []"
  then have "0 < length (criba (flujo [siguiente s..<n] (etapas s)))"
    by (cases "flujo [siguiente s..<n] (etapas s)") auto
  with le show "length (traza s) < n - 2" by linarith
qed

lemma flujo_ultima:
  assumes "bien xs c (us @ [\<lparr>cola = p # q, cerrada = b, fase_de = Inicial\<rparr>])"
  shows "flujo xs (us @ [\<lparr>cola = p # q, cerrada = b, fase_de = Inicial\<rparr>]) \<noteq> []"
  by (rule bien_contexto [OF assms]) auto

lemma paso_decrece:
  assumes "paso n s t" and "inv_red n s"
  shows "medida n t < medida n s"
  using assms
proof (induction rule: paso.induct)
  case (escribe i e es tr)
  then have "(n - i) * (3 * n + 1) = (n - Suc i) * (3 * n + 1) + (3 * n + 1)"
    by (metis Suc_diff_Suc add.commute mult_Suc)
  then show ?case by (simp add: medida_def algebra_simps)
next
  case (cierra i e es tr)
  then show ?case by (simp add: medida_def)
next
  case (primero i c us p q b tr)
  have "length tr < n - 2"
    using inv_largo(2) [OF primero] flujo_ultima [of "[i..<n]" c us p q b] primero
    by (auto simp: inv_red_def)
  moreover have "length us = length tr" using primero by (simp add: inv_red_def)
  ultimately have "length us + 2 < n" by simp
  then show ?case
    by (simp add: medida_def peso_append etapa_nueva_def)
next
  case (vacia i c us tr)
  then show ?case by (simp add: medida_def peso_append)
next
  case (pasa a p i c us q b f vs tr)
  have "length us + 2 + length vs = Suc (length tr)" using pasa(2) by (simp add: inv_red_def)
  moreover have "length tr \<le> n - 2" using inv_largo(1) [OF pasa(2)] by simp
  ultimately have k: "length us + 1 < n" by simp
  then have "3 * (n - length us) * (length q + 1) + 3 * (n - Suc (length us)) * length (cola f) >
      3 * (n - length us) * length q + 3 * (n - Suc (length us)) * (length (cola f) + 1)"
  proof -
    obtain d where "n = Suc (length us + 1 + d)" using less_imp_Suc_add [OF k] by blast
    then show ?thesis by (simp add: algebra_simps)
  qed
  then show ?case by (simp add: medida_def peso_append)
next
  case (descarta a p i c us q b f vs tr)
  have "length us + 2 + length vs = Suc (length tr)" using descarta(2) by (simp add: inv_red_def)
  moreover have "length tr \<le> n - 2" using inv_largo(1) [OF descarta(2)] by simp
  ultimately have k: "length us + 1 < n" by simp
  then show ?case by (simp add: medida_def peso_append)
next
  case (termina i c us p f vs tr)
  then show ?case by (simp add: medida_def peso_append)
qed

lemma final_todas:
  assumes "final_red n \<lparr>siguiente = i, principal_cerro = c, etapas = us @ es, traza = tr\<rparr>"
    and "bien xs True es"
  shows "flujo xs es = [] \<and> (\<forall>e\<in>set es. fase_de e = Fin)"
  using assms
proof (induction es arbitrary: us xs)
  case Nil
  then show ?case by simp
next
  case (Cons e es)
  have no: "\<not> paso n \<lparr>siguiente = i, principal_cerro = c, etapas = us @ e # es, traza = tr\<rparr> t" for t
    using Cons.prems(1) by (simp add: final_red_def)
  have xs: "xs = []" and ce: "cerrada e" using Cons.prems(2) by simp_all
  obtain q b f where e: "e = \<lparr>cola = q, cerrada = b, fase_de = f\<rparr>" by (cases e) simp
  show ?case
  proof (cases es)
    case Nil
    have "f \<noteq> Inicial"
    proof
      assume f: "f = Inicial"
      show False
        using no paso.vacia [of n i c us tr] paso.primero [of n i c us "hd q" "tl q" b tr] Nil e f ce
        by (cases q) simp_all
    qed
    then show ?thesis using Cons.prems(2) Nil e by auto
  next
    case (Cons g vs)
    have "\<exists>p. f = Filtra p \<Longrightarrow> False"
    proof -
      assume "\<exists>p. f = Filtra p"
      then obtain p where f: "f = Filtra p" by blast
      show False
      proof (cases q)
        case Nil
        then show False
          using no paso.termina [of n i c us p g vs tr] Cons e f ce by simp
      next
        case (Cons a q')
        then show False
          using no paso.pasa [of a p n i c us q' b g vs tr] paso.descarta [of a p n i c us q' b g vs tr]
            \<open>es = g # vs\<close> e f
          by (cases "a mod p = 0") simp_all
      qed
    qed
    then have f: "f = Fin" using Cons.prems(2) Cons e by (cases f) auto
    then have "bien [] True es" "q = []" using Cons.prems(2) Cons e by auto
    then have "flujo [] es = [] \<and> (\<forall>e\<in>set es. fase_de e = Fin)"
      using Cons.IH [of "us @ [e]" "[]"] Cons.prems(1) by simp
    then show ?thesis using e f xs \<open>q = []\<close> by simp
  qed
qed

interpretation cr: sistema_acotado "paso n" red_inicial "inv_red n" "medida n" for n
  by unfold_locales (auto intro: inv_inicial inv_paso paso_decrece)

section \<open>Properties\<close>

lemma final_terminado:
  assumes "(paso n)\<^sup>*\<^sup>* red_inicial s" and "final_red n s"
  shows "traza s = filter primo [2..<n] \<and> principal_cerro s \<and> (\<forall>e\<in>set (etapas s). fase_de e = Fin)"
proof -
  have inv: "inv_red n s" using assms(1) by (rule cr.inv_alcanzable)
  obtain i c es tr where s: "s = \<lparr>siguiente = i, principal_cerro = c, etapas = es, traza = tr\<rparr>"
    by (cases s) simp
  have "c"
  proof (rule ccontr)
    assume c: "\<not> c"
    obtain e es' where "es = e # es'" using inv s by (cases es) (auto simp: inv_red_def)
    then show False
      using assms(2) c s paso.escribe [of i n e es' tr] paso.cierra [of i n e es' tr]
      by (auto simp: final_red_def)
  qed
  then have b: "bien [i..<n] True es" using inv s by (simp add: inv_red_def)
  have "flujo [i..<n] es = [] \<and> (\<forall>e\<in>set es. fase_de e = Fin)"
    using assms(2) b s final_todas [of n i c "[]" es tr] by simp
  then show ?thesis
    using inv s \<open>c\<close> criba_desde_2 [of n] by (simp add: inv_red_def)
qed





end
