(* ===== verification/Xargs.thy ===== *)
theory Xargs
  imports Prelude
begin

text \<open>
  \<^verbatim>\<open>fork/xargs.c\<close> and \<^verbatim>\<open>funciones_para_xargs.c\<close>: the lines of the standard input in groups of
  \<^verbatim>\<open>NARGS\<close>, each group the arguments of one \<^verbatim>\<open>execvp\<close>. The array \<^verbatim>\<open>argumentos\<close> starts out
  uninitialised, and freeing such a slot is a fault. Small allocations succeed.
\<close>

datatype falla_xargs = LiberaIndef | FueraDeArreglo

text \<open>A slot of the array: never written, null, or a string of its own.\<close>

datatype ranura = Indef | Nulo | Ptr string

definition NARGS :: nat where "NARGS = 4"

section \<open>funciones\_para\_xargs.c\<close>

text \<open>
  \<^verbatim>\<open>getline\<close> on the characters left, then the newline at the end removed; \<^verbatim>\<open>strdup\<close> copies up to the
  first zero byte. At the end of the input nothing is stored.
\<close>

fun leer_linea :: "string \<Rightarrow> (string \<times> string) option" where
  "leer_linea [] = None"
| "leer_linea (c # cs) =
     (let l = takeWhile (\<lambda>d. d \<noteq> CHR 0x0A) (c # cs)
      in Some (takeWhile (\<lambda>d. d \<noteq> CHR 0x00) l, drop (length l + 1) (c # cs)))"

lemma leer_linea_corta: "leer_linea s = Some (l, r) \<Longrightarrow> length r < length s"
  by (cases s) (auto simp: Let_def)

definition liberar_memoria :: "nat \<Rightarrow> nat \<Rightarrow> ranura list \<Rightarrow> falla_xargs + ranura list" where
  "liberar_memoria pos_inicial pos_final a =
     check_that (pos_final < length a) FueraDeArreglo
       (check_that (Indef \<notin> set (take (pos_final + 1 - pos_inicial) (drop pos_inicial a))) LiberaIndef
         (Inr (take pos_inicial a @ replicate (pos_final + 1 - pos_inicial) Nulo @ drop (pos_final + 1) a)))"

section \<open>xargs.c\<close>

text \<open>The inner \<^verbatim>\<open>for\<close>: it fills the slots from \<open>i\<close>, at most \<open>k\<close> of them, and counts them.\<close>

fun llena :: "nat \<Rightarrow> nat \<Rightarrow> ranura list \<Rightarrow> string \<Rightarrow> ranura list \<times> nat \<times> string" where
  "llena 0 i a s = (a, i, s)"
| "llena (Suc k) i a s =
     (case leer_linea s of
        None \<Rightarrow> (a, i, s)
      | Some (l, r) \<Rightarrow> llena k (i + 1) (a[i := Ptr l]) r)"

lemma llena_mono: "llena k i a s = (b, j, t) \<Longrightarrow> i \<le> j \<and> length t \<le> length s \<and> (i < j \<longrightarrow> length t < length s)"
proof (induction k arbitrary: i a s)
  case 0
  then show ?case by simp
next
  case (Suc k)
  show ?case
  proof (cases "leer_linea s")
    case None
    with Suc.prems show ?thesis by simp
  next
    case (Some lr)
    obtain l r where lr: "lr = (l, r)" by fastforce
    have "length r < length s" using Some lr leer_linea_corta by simp
    then show ?thesis using Suc.IH [of "i + 1" "a[i := Ptr l]" r] Suc.prems Some lr by simp
  qed
qed

text \<open>The strings that \<^verbatim>\<open>execvp\<close> reads: up to the first null.\<close>

fun cadena :: "ranura list \<Rightarrow> string list" where
  "cadena (Ptr l # a) = l # cadena a"
| "cadena a = []"

text \<open>
  The loop of \<^verbatim>\<open>main\<close>; \<open>forks k\<close> says whether the \<open>k\<close>-th call of \<^verbatim>\<open>fork\<close> succeeds. The result is
  the list of commands run and the exit code.
\<close>

function bucle ::
  "(nat \<Rightarrow> bool) \<Rightarrow> ranura list \<Rightarrow> string \<Rightarrow> string list list \<Rightarrow> falla_xargs + string list list \<times> int" where
  "bucle forks a s hechos =
     (let (b, cant, t) = llena NARGS 1 a s
      in if cant = 1 then and_then (liberar_memoria 1 (NARGS + 1) b) (\<lambda>_. Inr (hechos, 0))
         else
           let c = b[cant := Nulo]
           in if forks (length hechos)
              then and_then (liberar_memoria 1 (NARGS + 1) c) (\<lambda>d. bucle forks d t (hechos @ [cadena c]))
              else and_then (liberar_memoria 1 (NARGS + 1) c) (\<lambda>_. Inr (hechos, - 1)))"
  by pat_completeness auto
termination
  by (relation "measure (\<lambda>(f, a, s, h). length s)") (auto dest!: llena_mono [OF sym])

declare bucle.simps [simp del]

definition xargs :: "(nat \<Rightarrow> bool) \<Rightarrow> string \<Rightarrow> string \<Rightarrow> falla_xargs + string list list \<times> int" where
  "xargs forks comando s = bucle forks (Ptr comando # replicate (NARGS + 1) Indef) s []"

section \<open>What the input holds\<close>

function lineas :: "string \<Rightarrow> string list" where
  "lineas s = (case leer_linea s of None \<Rightarrow> [] | Some (l, r) \<Rightarrow> l # lineas r)"
  by pat_completeness auto
termination
  by (relation "measure length") (auto dest: leer_linea_corta)

declare lineas.simps [simp del]

text \<open>Groups of \<open>k\<close>, the last one possibly shorter.\<close>

function grupos :: "nat \<Rightarrow> 'a list \<Rightarrow> 'a list list" where
  "grupos k xs = (if xs = [] \<or> k = 0 then [] else take k xs # grupos k (drop k xs))"
  by pat_completeness auto
termination
  by (relation "measure (length \<circ> snd)") auto

declare grupos.simps [simp del]

lemma llena_lineas:
  "i + k \<le> length a \<Longrightarrow> llena k i a s = (b, j, t) \<Longrightarrow>
   j = i + length (take k (lineas s)) \<and> lineas t = drop k (lineas s) \<and>
   b = take i a @ map Ptr (take k (lineas s)) @ drop j a"
proof (induction k arbitrary: i a s)
  case 0
  then show ?case by simp
next
  case (Suc k)
  show ?case
  proof (cases "leer_linea s")
    case None
    then have "lineas s = []" by (subst lineas.simps) simp
    with None Suc.prems show ?thesis by simp
  next
    case (Some lr)
    obtain l r where lr: "lr = (l, r)" by fastforce
    have ls: "lineas s = l # lineas r" using Some lr by (subst lineas.simps) simp
    have "llena k (i + 1) (a[i := Ptr l]) r = (b, j, t)" using Some lr Suc.prems(2) by simp
    from Suc.IH [OF _ this] Suc.prems(1) show ?thesis
      by (simp add: ls take_Suc_conv_app_nth)
  qed
qed

lemma cadena_Ptr: "cadena (map Ptr ls @ Nulo # a) = ls"
  by (induction ls) auto

text \<open>One round of the loop, from an array whose slots \<open>1..5\<close> are \<open>ds\<close>.\<close>

lemma ronda:
  assumes "length ds = NARGS + 1"
  shows "\<exists>t. llena NARGS 1 (Ptr c # ds) s =
      (Ptr c # map Ptr (take NARGS (lineas s)) @ drop (length (take NARGS (lineas s))) ds,
       1 + length (take NARGS (lineas s)), t) \<and> lineas t = drop NARGS (lineas s)"
proof -
  obtain b j t where l: "llena NARGS 1 (Ptr c # ds) s = (b, j, t)" by (metis surj_pair)
  then show ?thesis
    using llena_lineas [OF _ l] assms by (simp add: take_Cons')
qed

lemma liberar_todo:
  assumes "length ds = NARGS + 1"
  shows "liberar_memoria 1 (NARGS + 1) (x # ds) =
    (if Indef \<in> set ds then Inl LiberaIndef else Inr (x # replicate (NARGS + 1) Nulo))"
  using assms by (simp add: liberar_memoria_def check_that_def)

lemma bucle_ronda:
  fixes s :: string
  assumes "length ds = NARGS + 1" and "\<And>k. forks k"
  defines "g \<equiv> take NARGS (lineas s)"
  shows "\<exists>t. lineas t = drop NARGS (lineas s) \<and>
    bucle forks (Ptr c # ds) s h =
      (if g = [] then (if Indef \<in> set ds then Inl LiberaIndef else Inr (h, 0))
       else if Indef \<in> set (drop (length g + 1) ds) then Inl LiberaIndef
       else bucle forks (Ptr c # replicate (NARGS + 1) Nulo) t (h @ [c # g]))"
proof -
  obtain t where l: "llena NARGS 1 (Ptr c # ds) s = (Ptr c # map Ptr g @ drop (length g) ds, 1 + length g, t)"
    and t: "lineas t = drop NARGS (lineas s)"
    using ronda [OF assms(1), of c s] by (auto simp: g_def)
  have len: "length g \<le> NARGS" by (simp add: g_def)
  then obtain d ds' where d: "drop (length g) ds = d # ds'"
    using assms(1) by (cases "drop (length g) ds") auto
  then have ds': "ds' = drop (length g + 1) ds" by (metis drop_Suc_Cons drop0 drop_drop add.commute plus_1_eq_Suc)
  let ?b = "Ptr c # map Ptr g @ drop (length g) ds"
  have c: "?b[1 + length g := Nulo] = Ptr c # (map Ptr g @ Nulo # ds')"
    by (simp add: d list_update_append)
  have n: "length (map Ptr g @ Nulo # ds') = NARGS + 1"
    using len assms(1) arg_cong [OF d, of length] by simp
  have ind: "Indef \<in> set (map Ptr g @ Nulo # ds') \<longleftrightarrow> Indef \<in> set ds'"
    by auto
  show ?thesis
  proof (cases "g = []")
    case True
    then show ?thesis
      using l t liberar_todo [OF assms(1), of "Ptr c"]
      by (subst bucle.simps) (auto simp: Let_def)
  next
    case False
    have "bucle forks (Ptr c # ds) s h =
        and_then (liberar_memoria 1 (NARGS + 1) (Ptr c # (map Ptr g @ Nulo # ds')))
          (\<lambda>d. bucle forks d t (h @ [c # g]))"
      using False assms(2) by (subst bucle.simps) (simp add: l c cadena_Ptr Let_def del: list_update.simps One_nat_def)
    then show ?thesis
      unfolding liberar_todo [OF n] ind using False t ds' by (intro exI [of _ t]) simp
  qed
qed

lemma bucle_bien:
  assumes "\<And>k. forks k"
  shows "bucle forks (Ptr c # replicate (NARGS + 1) Nulo) s h =
    Inr (h @ map ((#) c) (grupos NARGS (lineas s)), 0)"
proof (induction "length (lineas s)" arbitrary: s h rule: less_induct)
  case less
  obtain t where t: "lineas t = drop NARGS (lineas s)"
    and b: "bucle forks (Ptr c # replicate (NARGS + 1) Nulo) s h =
      (if take NARGS (lineas s) = [] then Inr (h, 0)
       else bucle forks (Ptr c # replicate (NARGS + 1) Nulo) t (h @ [c # take NARGS (lineas s)]))"
    using bucle_ronda [of "replicate (NARGS + 1) Nulo" forks s c h] assms by (auto split: if_splits)
  show ?case
  proof (cases "lineas s = []")
    case True
    then show ?thesis using b by (simp add: grupos.simps)
  next
    case False
    then have "length (lineas t) < length (lineas s)" by (simp add: t NARGS_def)
    from less.hyps [OF this] False show ?thesis
      by (subst b, subst grupos.simps) (simp add: t NARGS_def)
  qed
qed

section \<open>Properties\<close>


lemma lineas_ejemplo:
  "lineas [CHR ''a'', CHR 0x0A, CHR ''b'', CHR 0x0A, CHR ''c'', CHR 0x0A, CHR ''d'', CHR 0x0A, CHR ''e''] =
    [''a'', ''b'', ''c'', ''d'', ''e'']"
  "lineas ''a'' = [''a'']"
  by (simp_all add: lineas.simps Let_def)


text \<open>
  With fewer than \<^verbatim>\<open>NARGS\<close> lines of input \<^verbatim>\<open>xargs\<close> passes slots of \<^verbatim>\<open>argumentos\<close> that were never
  written to \<^verbatim>\<open>free\<close>.
\<close>
theorem xargs_pocas_lineas:
  assumes "length (lineas s) < NARGS" and "\<And>k. forks k"
  shows "xargs forks comando s = Inl LiberaIndef"
proof -
  have "Indef \<in> set (drop (length (take NARGS (lineas s)) + 1) (replicate (NARGS + 1) Indef))"
    using assms(1) by (simp add: drop_replicate set_replicate_conv_if)
  then show ?thesis
    using bucle_ronda [of "replicate (NARGS + 1) Indef" forks s comando "[]"] assms(2)
    by (auto simp: xargs_def)
qed

theorem xargs_pocas_lineas_witness: "xargs (\<lambda>k. True) ''echo'' ''a'' = Inl LiberaIndef"
  by (rule xargs_pocas_lineas) (simp_all add: lineas_ejemplo NARGS_def)

end
