(* ===== verification/Jos_String.thy ===== *)
theory Jos_String
  imports Prelude
begin

text \<open>
  \<^verbatim>\<open>sched/lib/string.c\<close>, the string routines shared by the kernel and the user programs. A
  \<^verbatim>\<open>char *\<close> that is only read is the list of bytes from the pointer on, terminator included, and
  reading past the list is a fault (\<^term>\<open>None\<close>). The routines that write work on a memory, a
  function from addresses to bytes.
\<close>

section \<open>Reading strings\<close>

abbreviation NUL :: char where "NUL \<equiv> CHR 0x00"

fun strlen :: "string \<Rightarrow> nat option" where
  "strlen [] = None"
| "strlen (c # cs) = (if c = NUL then Some 0 else map_option Suc (strlen cs))"

fun strnlen :: "string \<Rightarrow> nat \<Rightarrow> nat option" where
  "strnlen s 0 = Some 0"
| "strnlen [] (Suc n) = None"
| "strnlen (c # cs) (Suc n) = (if c = NUL then Some 0 else map_option Suc (strnlen cs n))"

text \<open>The byte difference that both comparisons return.\<close>

definition byte_diff :: "char \<Rightarrow> char \<Rightarrow> int" where
  "byte_diff p q = of_char p - of_char q"

fun strcmp :: "string \<Rightarrow> string \<Rightarrow> int option" where
  "strcmp (p # ps) (q # qs) =
     (if p \<noteq> NUL \<and> p = q then strcmp ps qs else Some (byte_diff p q))"
| "strcmp _ _ = None"

fun strncmp :: "string \<Rightarrow> string \<Rightarrow> nat \<Rightarrow> int option" where
  "strncmp ps qs 0 = Some 0"
| "strncmp (p # ps) (q # qs) (Suc n) =
     (if p \<noteq> NUL \<and> p = q then strncmp ps qs n else Some (byte_diff p q))"
| "strncmp _ _ (Suc n) = None"

text \<open>A pointer into the string is its offset; the null pointer is \<^term>\<open>None\<close> inside.\<close>

fun strchr :: "string \<Rightarrow> char \<Rightarrow> nat option option" where
  "strchr [] c = None"
| "strchr (d # s) c =
     (if d = NUL then Some None
      else if d = c then Some (Some 0)
      else map_option (map_option Suc) (strchr s c))"

fun strfind :: "string \<Rightarrow> char \<Rightarrow> nat option" where
  "strfind [] c = None"
| "strfind (d # s) c = (if d = NUL \<or> d = c then Some 0 else map_option Suc (strfind s c))"

fun memcmp :: "string \<Rightarrow> string \<Rightarrow> nat \<Rightarrow> int option" where
  "memcmp s t 0 = Some 0"
| "memcmp (a # s) (b # t) (Suc n) = (if a \<noteq> b then Some (byte_diff a b) else memcmp s t n)"
| "memcmp _ _ (Suc n) = None"

fun memfind :: "string \<Rightarrow> char \<Rightarrow> nat \<Rightarrow> nat option" where
  "memfind s c 0 = Some 0"
| "memfind [] c (Suc n) = None"
| "memfind (d # s) c (Suc n) = (if d = c then Some 0 else map_option Suc (memfind s c n))"

section \<open>Writing memory\<close>

type_synonym memoria = "nat \<Rightarrow> char"

text \<open>
  \<^verbatim>\<open>strcpy\<close>, from the bytes at \<open>src\<close> to the memory at \<open>dst\<close>; the result is the memory.
\<close>

fun strcpy :: "nat \<Rightarrow> string \<Rightarrow> memoria \<Rightarrow> memoria option" where
  "strcpy dst [] m = None"
| "strcpy dst (c # s) m = (if c = NUL then Some (m(dst := NUL)) else strcpy (dst + 1) s (m(dst := c)))"

text \<open>The bytes from an address on, \<open>n\<close> of them.\<close>

definition bytes_en :: "memoria \<Rightarrow> nat \<Rightarrow> nat \<Rightarrow> string" where
  "bytes_en m a n = map (\<lambda>i. m (a + i)) [0..<n]"

definition strcat :: "nat \<Rightarrow> nat \<Rightarrow> string \<Rightarrow> memoria \<Rightarrow> memoria option" where
  "strcat dst maxi src m =
     (case strlen (bytes_en m dst maxi) of None \<Rightarrow> None | Some l \<Rightarrow> strcpy (dst + l) src m)"

fun strncpy :: "nat \<Rightarrow> string \<Rightarrow> nat \<Rightarrow> memoria \<Rightarrow> memoria option" where
  "strncpy dst s 0 m = Some m"
| "strncpy dst [] (Suc n) m = None"
| "strncpy dst (c # s) (Suc n) m =
     strncpy (dst + 1) (if c \<noteq> NUL then s else c # s) n (m(dst := c))"

text \<open>The loop of \<^verbatim>\<open>strlcpy\<close>, entered with \<open>size - 1\<close>; it returns the address it stopped at.\<close>

fun strlcpy_bucle :: "nat \<Rightarrow> string \<Rightarrow> nat \<Rightarrow> memoria \<Rightarrow> (nat \<times> memoria) option" where
  "strlcpy_bucle dst s 0 m = Some (dst, m(dst := NUL))"
| "strlcpy_bucle dst [] (Suc n) m = None"
| "strlcpy_bucle dst (c # s) (Suc n) m =
     (if c = NUL then Some (dst, m(dst := NUL)) else strlcpy_bucle (dst + 1) s n (m(dst := c)))"

definition strlcpy :: "nat \<Rightarrow> string \<Rightarrow> nat \<Rightarrow> memoria \<Rightarrow> (nat \<times> memoria) option" where
  "strlcpy dst s sz m =
     (if sz = 0 then Some (0, m)
      else map_option (\<lambda>(d, m). (d - dst, m)) (strlcpy_bucle dst s (sz - 1) m))"

text \<open>
  The string instructions: \<open>rep stos\<close> stores a unit of \<open>k\<close> bytes \<open>n\<close> times, \<open>rep movs\<close> reads a unit
  whole before it writes it, upwards or (after \<open>std\<close>) downwards.
\<close>

fun rep_stos :: "nat \<Rightarrow> string \<Rightarrow> nat \<Rightarrow> memoria \<Rightarrow> memoria" where
  "rep_stos p u 0 m = m"
| "rep_stos p u (Suc n) m =
     rep_stos (p + length u) u n (\<lambda>a. if p \<le> a \<and> a < p + length u then u ! (a - p) else m a)"

definition mueve :: "nat \<Rightarrow> nat \<Rightarrow> nat \<Rightarrow> memoria \<Rightarrow> memoria" where
  "mueve k d s m = (\<lambda>a. if d \<le> a \<and> a < d + k then m (s + (a - d)) else m a)"

fun rep_movs :: "nat \<Rightarrow> nat \<Rightarrow> nat \<Rightarrow> nat \<Rightarrow> memoria \<Rightarrow> memoria" where
  "rep_movs k d s 0 m = m"
| "rep_movs k d s (Suc n) m = rep_movs k (d + k) (s + k) n (mueve k d s m)"

text \<open>Downwards, from the units that end at \<open>d\<close> and \<open>s\<close>.\<close>

fun rep_movs_abajo :: "nat \<Rightarrow> nat \<Rightarrow> nat \<Rightarrow> nat \<Rightarrow> memoria \<Rightarrow> memoria" where
  "rep_movs_abajo k d s 0 m = m"
| "rep_movs_abajo k d s (Suc n) m = rep_movs_abajo k (d - k) (s - k) n (mueve k (d - k) (s - k) m)"

definition memset :: "nat \<Rightarrow> int \<Rightarrow> nat \<Rightarrow> memoria \<Rightarrow> memoria" where
  "memset v c n m =
     (let b = char_of c
      in if n = 0 then m
         else if v mod 4 = 0 \<and> n mod 4 = 0 then rep_stos v [b, b, b, b] (n div 4) m
         else rep_stos v [b] n m)"

definition memmove :: "nat \<Rightarrow> nat \<Rightarrow> nat \<Rightarrow> memoria \<Rightarrow> memoria" where
  "memmove d s n m =
     (if s < d \<and> s + n > d
      then (if (s + n) mod 4 = 0 \<and> (d + n) mod 4 = 0 \<and> n mod 4 = 0
            then rep_movs_abajo 4 (d + n) (s + n) (n div 4) m
            else rep_movs_abajo 1 (d + n) (s + n) n m)
      else (if s mod 4 = 0 \<and> d mod 4 = 0 \<and> n mod 4 = 0
            then rep_movs 4 d s (n div 4) m
            else rep_movs 1 d s n m))"

definition memcpy :: "nat \<Rightarrow> nat \<Rightarrow> nat \<Rightarrow> memoria \<Rightarrow> memoria" where
  "memcpy d s n m = memmove d s n m"

section \<open>strtol\<close>

definition digito :: "char \<Rightarrow> nat option" where
  "digito c =
     (let b = of_char c :: nat
      in if 48 \<le> b \<and> b \<le> 57 then Some (b - 48)
         else if 97 \<le> b \<and> b \<le> 122 then Some (b - 97 + 10)
         else if 65 \<le> b \<and> b \<le> 90 then Some (b - 65 + 10)
         else None)"

text \<open>The digit loop; it returns the value and the rest of the string. A \<^verbatim>\<open>long\<close> has 32 bits.\<close>

fun strtol_digitos :: "nat \<Rightarrow> 32 word \<Rightarrow> string \<Rightarrow> (32 word \<times> string) option" where
  "strtol_digitos base val [] = None"
| "strtol_digitos base val (c # s) =
     (case digito c of
        Some d \<Rightarrow> if d \<ge> base then Some (val, c # s)
                  else strtol_digitos base (val * of_nat base + of_nat d) s
      | None \<Rightarrow> Some (val, c # s))"

definition strtol :: "string \<Rightarrow> nat \<Rightarrow> (32 word \<times> string) option" where
  "strtol s0 base0 =
     (let s1 = dropWhile (\<lambda>c. c = CHR '' '' \<or> c = CHR 0x09) s0;
          neg = (s1 \<noteq> [] \<and> hd s1 = CHR ''-'');
          s2 = (if s1 \<noteq> [] \<and> (hd s1 = CHR ''+'' \<or> hd s1 = CHR ''-'') then tl s1 else s1);
          (base, s3) =
            (if (base0 = 0 \<or> base0 = 16) \<and> take 2 s2 = ''0x'' then (16, drop 2 s2)
             else if base0 = 0 \<and> take 1 s2 = ''0'' then (8, drop 1 s2)
             else if base0 = 0 then (10, s2)
             else (base0, s2))
      in map_option (\<lambda>(val, r). (if neg then - val else val, r)) (strtol_digitos base 0 s3))"

section \<open>Lemmas\<close>

lemma rep_stos_efecto:
  "length u > 0 \<Longrightarrow> rep_stos p u n m a =
     (if p \<le> a \<and> a < p + n * length u then u ! ((a - p) mod length u) else m a)"
proof (induction n arbitrary: p m)
  case 0
  then show ?case by auto
next
  case (Suc n)
  have "(a - (p + length u)) mod length u = (a - p) mod length u" if "p + length u \<le> a"
  proof -
    have "a - p = (a - (p + length u)) + length u" using that by simp
    then show ?thesis by (metis mod_add_self2)
  qed
  then show ?case using Suc by auto
qed

lemma memset_efecto:
  "memset v c n m a = (if v \<le> a \<and> a < v + n then char_of c else m a)"
proof (cases "v mod 4 = 0 \<and> n mod 4 = 0")
  case True
  let ?b = "char_of c :: char"
  have n: "n div 4 * 4 = n" using True by auto
  have "i < 4 \<Longrightarrow> [?b, ?b, ?b, ?b] ! i = ?b" for i
    using nth_replicate [of i 4 ?b] by (simp add: numeral_eq_Suc)
  then have "[?b, ?b, ?b, ?b] ! (i mod 4) = ?b" for i by simp
  moreover have "memset v c n m a = rep_stos v [?b, ?b, ?b, ?b] (n div 4) m a"
    using True by (simp add: memset_def Let_def)
  moreover have "rep_stos v [?b, ?b, ?b, ?b] (n div 4) m a =
      (if v \<le> a \<and> a < v + n then [?b, ?b, ?b, ?b] ! ((a - v) mod 4) else m a)"
    using rep_stos_efecto [of "[?b, ?b, ?b, ?b]" v "n div 4" m a] n by (simp del: nth_Cons_numeral)
  ultimately show ?thesis by (simp only:)
next
  case False
  then show ?thesis by (auto simp: memset_def Let_def rep_stos_efecto)
qed

lemma rep_movs_efecto:
  "0 < k \<Longrightarrow> d \<le> s \<or> s + n * k \<le> d \<Longrightarrow>
   rep_movs k d s n m a = (if d \<le> a \<and> a < d + n * k then m (s + (a - d)) else m a)"
proof (induction n arbitrary: d s m)
  case 0
  then show ?case by auto
next
  case (Suc n)
  have "d + k \<le> s + k \<or> s + k + n * k \<le> d + k" using Suc.prems(2) by auto
  then have "rep_movs k d s (Suc n) m a =
      (if d + k \<le> a \<and> a < d + k + n * k then mueve k d s m (s + k + (a - (d + k))) else mueve k d s m a)"
    using Suc.IH [of "d + k" "s + k" "mueve k d s m"] Suc.prems(1) by simp
  then show ?case using Suc.prems by (auto simp: mueve_def)
qed

lemma rep_movs_abajo_efecto:
  "0 < k \<Longrightarrow> n * k \<le> s \<Longrightarrow> s \<le> d \<Longrightarrow>
   rep_movs_abajo k d s n m a = (if d - n * k \<le> a \<and> a < d then m (s - (d - a)) else m a)"
proof (induction n arbitrary: d s m)
  case 0
  then show ?case by auto
next
  case (Suc n)
  then have le: "k + n * k \<le> s" by simp
  show ?case
    using Suc.IH [of "s - k" "d - k" "mueve k (d - k) (s - k) m"] Suc.prems le
    by (auto simp: mueve_def)
qed

lemma memmove_efecto:
  "memmove d s n m a = (if d \<le> a \<and> a < d + n then m (s + (a - d)) else m a)"
proof (cases "s < d \<and> s + n > d")
  case True
  have "n div 4 * 4 = n" if "n mod 4 = 0" using that by auto
  then show ?thesis
    using True by (auto simp: memmove_def rep_movs_abajo_efecto)
next
  case False
  have "n div 4 * 4 = n" if "n mod 4 = 0" using that by auto
  then show ?thesis
    using False by (auto simp: memmove_def rep_movs_efecto)
qed

end
