(* ===== verification/Printfmt.thy ===== *)
theory Printfmt
  imports Jos_String "HOL-Library.Char_ord"
begin

text \<open>
  \<^verbatim>\<open>sched/lib/printfmt.c\<close>, the formatter that the kernel and the user programs share, and the sinks
  it writes to: \<^verbatim>\<open>sprintputch\<close> (\<^verbatim>\<open>snprintf\<close>), \<^verbatim>\<open>putch\<close> of \<^verbatim>\<open>lib/printf.c\<close> (a buffer in front of
  \<^verbatim>\<open>sys_cputs\<close>) and \<^verbatim>\<open>putch\<close> of \<^verbatim>\<open>kern/printf.c\<close>. The formatter calls \<open>putch\<close> through a pointer:
  here it is a function that takes the state of the sink.
\<close>

section \<open>Arguments\<close>

text \<open>
  A \<^verbatim>\<open>va_list\<close> is the list of arguments that are left, tagged with what was passed; asking for
  another type than what was passed is a fault (\<^term>\<open>None\<close>). On the i386 an \<^verbatim>\<open>int\<close>, a \<^verbatim>\<open>long\<close> and
  a pointer have 32 bits.
\<close>

datatype argumento = Entero "32 word" | LargoLargo "64 word" | Cadena "string option"

type_synonym va_list = "argumento list"

definition va_int :: "va_list \<Rightarrow> (32 word \<times> va_list) option" where
  "va_int ap = (case ap of Entero w # r \<Rightarrow> Some (w, r) | _ \<Rightarrow> None)"

definition va_str :: "va_list \<Rightarrow> (string option \<times> va_list) option" where
  "va_str ap = (case ap of Cadena s # r \<Rightarrow> Some (s, r) | _ \<Rightarrow> None)"

definition getuint :: "nat \<Rightarrow> va_list \<Rightarrow> (64 word \<times> va_list) option" where
  "getuint lflag ap =
     (if lflag \<ge> 2 then (case ap of LargoLargo w # r \<Rightarrow> Some (w, r) | _ \<Rightarrow> None)
      else map_option (\<lambda>(w, r). (ucast w, r)) (va_int ap))"

definition getint :: "nat \<Rightarrow> va_list \<Rightarrow> (64 word \<times> va_list) option" where
  "getint lflag ap =
     (if lflag \<ge> 2 then (case ap of LargoLargo w # r \<Rightarrow> Some (w, r) | _ \<Rightarrow> None)
      else map_option (\<lambda>(w, r). (scast w, r)) (va_int ap))"

section \<open>printnum\<close>

definition cifra :: "nat \<Rightarrow> char" where
  "cifra d = ''0123456789abcdef'' ! d"

text \<open>The pad loop \<^verbatim>\<open>while (--width > 0) putch(padc)\<close>.\<close>

definition rellena :: "(char \<Rightarrow> 's \<Rightarrow> 's) \<Rightarrow> char \<Rightarrow> int \<Rightarrow> 's \<Rightarrow> 's" where
  "rellena putch padc width s = (putch padc ^^ nat (width - 1)) s"

text \<open>The callers pass the bases 8, 10 and 16; a base below 2 does not occur.\<close>

function printnum ::
  "(char \<Rightarrow> 's \<Rightarrow> 's) \<Rightarrow> nat \<Rightarrow> nat \<Rightarrow> int \<Rightarrow> char \<Rightarrow> 's \<Rightarrow> 's" where
  "printnum putch num base width padc s =
     putch (cifra (num mod base))
       (if num \<ge> base \<and> base \<ge> 2 then printnum putch (num div base) base (width - 1) padc s
        else rellena putch padc width s)"
  by pat_completeness auto
termination
  by (relation "measure (\<lambda>(p, num, r). num)") auto

declare printnum.simps [simp del]

section \<open>Strings\<close>

text \<open>The three loops of the conversion \<^verbatim>\<open>%s\<close>; \<open>p\<close> is the string before its terminator.\<close>

fun emite :: "(char \<Rightarrow> 's \<Rightarrow> 's) \<Rightarrow> bool \<Rightarrow> string \<Rightarrow> int \<Rightarrow> int \<Rightarrow> 's \<Rightarrow> int \<times> 's" where
  "emite putch altflag [] precision width s = (width, s)"
| "emite putch altflag (c # p) precision width s =
     (if precision < 0 \<or> precision - 1 \<ge> 0
      then emite putch altflag p (if precision < 0 then precision else precision - 1) (width - 1)
             (putch (if altflag \<and> (c < CHR '' '' \<or> c > CHR ''~'') then CHR ''?'' else c) s)
      else (width, s))"

definition conv_s ::
  "(char \<Rightarrow> 's \<Rightarrow> 's) \<Rightarrow> bool \<Rightarrow> int \<Rightarrow> int \<Rightarrow> char \<Rightarrow> string \<Rightarrow> 's \<Rightarrow> 's" where
  "conv_s putch altflag width precision padc p s =
     (let w1 = (if width > 0 \<and> padc \<noteq> CHR ''-''
                then width - int (if precision < 0 then length p else min (length p) (nat precision))
                else width);
          s1 = (if width > 0 \<and> padc \<noteq> CHR ''-'' then (putch padc ^^ nat w1) s else s);
          w1' = (if width > 0 \<and> padc \<noteq> CHR ''-'' then min w1 0 else w1);
          (w2, s2) = emite putch altflag p precision w1' s1
      in (putch (CHR '' '') ^^ nat w2) s2)"

section \<open>Error names\<close>

definition MAXERROR :: int where "MAXERROR = 9"

definition error_string :: "nat \<Rightarrow> string option" where
  "error_string e =
     [None, Some ''unspecified error'', Some ''bad environment'', Some ''invalid parameter'',
      Some ''out of memory'', Some ''out of environments'', Some ''segmentation fault'',
      Some ''env is not recving'', Some ''unexpected end of file''] ! e"

section \<open>vprintfmt\<close>

text \<open>The flags collected after a percent sign, up to the conversion character.\<close>

record formato =
  padc :: char
  width :: int
  precision :: int
  lflag :: nat
  altflag :: bool

definition formato_inicial :: formato where
  "formato_inicial = \<lparr>padc = CHR '' '', width = - 1, precision = - 1, lflag = 0, altflag = False\<rparr>"

definition process_precision :: "formato \<Rightarrow> formato" where
  "process_precision f = (if width f < 0 then f\<lparr>width := precision f, precision := - 1\<rparr> else f)"

definition es_digito :: "char \<Rightarrow> bool" where
  "es_digito c \<longleftrightarrow> CHR ''0'' \<le> c \<and> c \<le> CHR ''9''"

definition valor_campo :: "string \<Rightarrow> int" where
  "valor_campo ds = foldl (\<lambda>v c. v * 10 + (of_char c - 48)) 0 ds"

text \<open>The \<^verbatim>\<open>reswitch\<close> loop: it stops at the conversion character, which may be the end (a zero).\<close>

function reswitch :: "formato \<Rightarrow> string \<Rightarrow> va_list \<Rightarrow> (formato \<times> char \<times> string \<times> va_list) option" where
  "reswitch f fmt ap =
     (case fmt of
        [] \<Rightarrow> Some (f, NUL, [], ap)
      | ch # r \<Rightarrow>
          if ch = CHR ''-'' then reswitch (f\<lparr>padc := CHR ''-''\<rparr>) r ap
          else if ch = CHR ''0'' then reswitch (f\<lparr>padc := CHR ''0''\<rparr>) r ap
          else if es_digito ch
          then reswitch (process_precision (f\<lparr>precision := valor_campo (ch # takeWhile es_digito r)\<rparr>))
                 (dropWhile es_digito r) ap
          else if ch = CHR ''*''
          then (case va_int ap of
                  None \<Rightarrow> None
                | Some (w, ap') \<Rightarrow> reswitch (process_precision (f\<lparr>precision := sint w\<rparr>)) r ap')
          else if ch = CHR ''.'' then reswitch (if width f < 0 then f\<lparr>width := 0\<rparr> else f) r ap
          else if ch = CHR ''#'' then reswitch (f\<lparr>altflag := True\<rparr>) r ap
          else if ch = CHR ''l'' then reswitch (f\<lparr>lflag := lflag f + 1\<rparr>) r ap
          else Some (f, ch, r, ap))"
  by pat_completeness auto
termination
  by (relation "measure (\<lambda>(f, fmt, ap). length fmt)")
     (auto simp: le_imp_less_Suc length_dropWhile_le)

declare reswitch.simps [simp del]

lemma reswitch_corta: "reswitch f fmt ap = Some (g, ch, r, ap') \<Longrightarrow> length r \<le> length fmt"
proof (induction f fmt ap rule: reswitch.induct)
  case (1 f fmt ap)
  show ?case
  proof (cases fmt)
    case Nil
    then show ?thesis using 1(8) by (simp add: reswitch.simps)
  next
    case (Cons c fs)
    have "length (dropWhile es_digito fs) \<le> length fs" by (rule length_dropWhile_le)
    note eq = 1(8) [unfolded Cons reswitch.simps [of f "c # fs"] list.case]
    note IH = 1(1-7) [OF Cons]
    have "length r \<le> length fs \<or> length r \<le> length (dropWhile es_digito fs)"
    proof (cases "c = CHR ''-''")
      case True
      then show ?thesis using IH(1) eq by simp
    next
      case c1: False
      show ?thesis
      proof (cases "c = CHR ''0''")
        case True
        then show ?thesis using IH(2) eq by simp
      next
        case c2: False
        show ?thesis
        proof (cases "es_digito c")
          case True
          then show ?thesis using IH(3) eq c1 c2 by simp
        next
          case c3: False
          show ?thesis
          proof (cases "c = CHR ''*''")
            case True
            then show ?thesis using IH(4) eq c1 c2 c3 by (auto split: option.splits)
          next
            case c4: False
            show ?thesis
              using IH(5-7) eq c1 c2 c3 c4 by (auto split: if_splits)
          qed
        qed
      qed
    qed
    with \<open>length (dropWhile es_digito fs) \<le> length fs\<close> show ?thesis using Cons by auto
  qed
qed

text \<open>\<^verbatim>\<open>number:\<close> the numeric conversions.\<close>

definition numero :: "(char \<Rightarrow> 's \<Rightarrow> 's) \<Rightarrow> formato \<Rightarrow> 64 word \<Rightarrow> nat \<Rightarrow> 's \<Rightarrow> 's" where
  "numero putch f num base s = printnum putch (unat num) base (width f) (padc f) s"

definition decimal_con_signo :: "(char \<Rightarrow> 's \<Rightarrow> 's) \<Rightarrow> formato \<Rightarrow> 64 word \<Rightarrow> 's \<Rightarrow> 's" where
  "decimal_con_signo putch f num s =
     (if sint num < 0 then numero putch f (- num) 10 (putch (CHR ''-'') s) else numero putch f num 10 s)"

text \<open>
  One conversion: the state of the sink and the arguments left, or \<^term>\<open>None\<close> inside for a
  character that is no conversion. The error conversion calls \<^verbatim>\<open>printfmt\<close> again with \<^verbatim>\<open>%s\<close> or
  \<^verbatim>\<open>error %d\<close>, written out here.
\<close>

definition conversion ::
  "(char \<Rightarrow> 's \<Rightarrow> 's) \<Rightarrow> formato \<Rightarrow> char \<Rightarrow> va_list \<Rightarrow> 's \<Rightarrow> ('s \<times> va_list) option option" where
  "conversion putch f ch ap s =
     (if ch = CHR ''c'' then
        Some (map_option (\<lambda>(w, ap). (putch (char_of (unat w)) s, ap)) (va_int ap))
      else if ch = CHR ''e'' then
        Some (case va_int ap of
          None \<Rightarrow> None
        | Some (w, ap) \<Rightarrow>
            let err = (if sint w < 0 then sint (- w) else sint w)
            in if err \<ge> MAXERROR \<or> err = 0
               then Some (decimal_con_signo putch formato_inicial (word_of_int err)
                      (snd (emite putch False ''error '' (- 1) (- 1) s)), ap)
               else if err < 0 then None
               else Some (conv_s putch False (- 1) (- 1) (CHR '' '') (the (error_string (nat err))) s, ap))
      else if ch = CHR ''s'' then
        Some (case va_str ap of
          None \<Rightarrow> None
        | Some (p, ap) \<Rightarrow>
            Some (conv_s putch (altflag f) (width f) (precision f) (padc f)
              (case p of None \<Rightarrow> ''(null)'' | Some p \<Rightarrow> p) s, ap))
      else if ch = CHR ''d'' then
        Some (map_option (\<lambda>(n, ap). (decimal_con_signo putch f n s, ap)) (getint (lflag f) ap))
      else if ch = CHR ''u'' then
        Some (map_option (\<lambda>(n, ap). (numero putch f n 10 s, ap)) (getuint (lflag f) ap))
      else if ch = CHR ''o'' then
        Some (map_option (\<lambda>(n, ap). (numero putch f n 8 s, ap)) (getuint (lflag f) ap))
      else if ch = CHR ''p'' then
        Some (map_option (\<lambda>(w, ap). (numero putch f (ucast w) 16 (putch (CHR ''x'') (putch (CHR ''0'') s)), ap))
          (va_int ap))
      else if ch = CHR ''x'' then
        Some (map_option (\<lambda>(n, ap). (numero putch f n 16 s, ap)) (getuint (lflag f) ap))
      else if ch = CHR ''%'' then Some (Some (putch ch s, ap))
      else None)"

text \<open>
  The main loop. A character that is no conversion prints the percent sign and takes the format up
  again right after it; the arguments that a \<open>*\<close> took stay taken.
\<close>

function vprintfmt :: "(char \<Rightarrow> 's \<Rightarrow> 's) \<Rightarrow> string \<Rightarrow> va_list \<Rightarrow> 's \<Rightarrow> ('s \<times> va_list) option" where
  "vprintfmt putch fmt ap s =
     (case fmt of
        [] \<Rightarrow> Some (s, ap)
      | ch # r \<Rightarrow>
          if ch \<noteq> CHR ''%'' then vprintfmt putch r ap (putch ch s)
          else
            (case reswitch formato_inicial r ap of
               None \<Rightarrow> None
             | Some (f, conv, r', ap') \<Rightarrow>
                 (case conversion putch f conv ap' s of
                    None \<Rightarrow> vprintfmt putch r ap' (putch (CHR ''%'') s)
                  | Some None \<Rightarrow> None
                  | Some (Some (s', ap'')) \<Rightarrow> vprintfmt putch r' ap'' s')))"
  by pat_completeness auto
termination
  by (relation "measure (\<lambda>(p, fmt, ap, s). length fmt)") (auto dest!: reswitch_corta)

declare vprintfmt.simps [simp del]

section \<open>snprintf\<close>

text \<open>\<^verbatim>\<open>struct sprintbuf\<close>: the bytes written so far, the room for them, and the count.\<close>

record sprintbuf =
  buf :: string
  hueco :: nat
  cnt :: nat

definition sprintputch :: "char \<Rightarrow> sprintbuf \<Rightarrow> sprintbuf" where
  "sprintputch ch b =
     (let b = b\<lparr>cnt := cnt b + 1\<rparr> in if length (buf b) < hueco b then b\<lparr>buf := buf b @ [ch]\<rparr> else b)"

definition E_INVAL :: int where "E_INVAL = 3"

text \<open>The bytes stored, terminator included, and the result; \<open>n\<close> is the size that the caller passes.\<close>

definition vsnprintf :: "int \<Rightarrow> string \<Rightarrow> va_list \<Rightarrow> (string \<times> int) option" where
  "vsnprintf n fmt ap =
     (if n < 1 then Some ([], - E_INVAL)
      else map_option (\<lambda>(b, ap). (buf b @ [NUL], int (cnt b)))
             (vprintfmt sprintputch fmt ap \<lparr>buf = [], hueco = nat (n - 1), cnt = 0\<rparr>))"

section \<open>cprintf of the user programs and of the kernel\<close>

text \<open>The buffer of \<^verbatim>\<open>lib/printf.c\<close> and what \<^verbatim>\<open>sys_cputs\<close> has been given.\<close>

record printbuf =
  pbuf :: string
  pcnt :: nat
  cputs :: "string list"

definition putch_usuario :: "char \<Rightarrow> printbuf \<Rightarrow> printbuf" where
  "putch_usuario ch b =
     (let b1 = b\<lparr>pbuf := pbuf b @ [ch]\<rparr>;
          b2 = (if length (pbuf b1) = 256 - 1 then b1\<lparr>cputs := cputs b1 @ [pbuf b1], pbuf := []\<rparr> else b1)
      in b2\<lparr>pcnt := pcnt b2 + 1\<rparr>)"

definition vcprintf_usuario :: "string \<Rightarrow> va_list \<Rightarrow> (string list \<times> nat) option" where
  "vcprintf_usuario fmt ap =
     map_option (\<lambda>(b, ap). (cputs b @ [pbuf b], pcnt b))
       (vprintfmt putch_usuario fmt ap \<lparr>pbuf = [], pcnt = 0, cputs = []\<rparr>)"

text \<open>The kernel's sink: \<^verbatim>\<open>cputchar\<close>, whose state is a parameter, and the count.\<close>

definition putch_kernel :: "(char \<Rightarrow> 'c \<Rightarrow> 'c) \<Rightarrow> char \<Rightarrow> 'c \<times> nat \<Rightarrow> 'c \<times> nat" where
  "putch_kernel cputchar ch = (\<lambda>(c, n). (cputchar ch c, n + 1))"

definition vcprintf_kernel ::
  "(char \<Rightarrow> 'c \<Rightarrow> 'c) \<Rightarrow> string \<Rightarrow> va_list \<Rightarrow> 'c \<Rightarrow> ('c \<times> nat) option" where
  "vcprintf_kernel cputchar fmt ap c = map_option fst (vprintfmt (putch_kernel cputchar) fmt ap (c, 0))"

end
