(* ===== verification/Printfmt_Props.thy ===== *)
theory Printfmt_Props
  imports Printfmt
begin

text \<open>
  The formatter against what it prints: the characters do not depend on the sink, each sink does with
  them what it promises (an interpretation of the interface \<open>sumidero\<close>), and numbers that are printed
  are read back by \<^verbatim>\<open>strtol\<close>.
\<close>

section \<open>Digits\<close>

function cifras :: "nat \<Rightarrow> nat \<Rightarrow> string" where
  "cifras base num =
     (if num \<ge> base \<and> base \<ge> 2 then cifras base (num div base) else []) @ [cifra (num mod base)]"
  by pat_completeness auto
termination
  by (relation "measure snd") auto

declare cifras.simps [simp del]

lemma fold_replicate: "fold f (replicate n c) s = (f c ^^ n) s"
  by (induction n arbitrary: s) (simp_all add: funpow_swap1)

lemma cifras_not_Nil [simp]: "cifras base num \<noteq> []"
  by (subst cifras.simps) simp

lemma printnum_cifras:
  "printnum putch num base w p s =
     fold putch (replicate (nat (w - int (length (cifras base num)))) p @ cifras base num) s"
proof (induction putch num base w p s rule: printnum.induct)
  case (1 putch num base w p s)
  show ?case
  proof (cases "num \<ge> base \<and> base \<ge> 2")
    case True
    have c: "cifras base num = cifras base (num div base) @ [cifra (num mod base)]"
      using True by (subst cifras.simps) simp
    show ?thesis
      using 1 [OF True] True by (subst printnum.simps) (simp add: c algebra_simps)
  next
    case False
    then have c: "cifras base num = [cifra (num mod base)]"
      by (subst cifras.simps) auto
    show ?thesis
      using False by (subst printnum.simps) (auto simp: c rellena_def fold_replicate)
  qed
qed

lemma digito_cifra: "d < 16 \<Longrightarrow> digito (cifra d) = Some d"
proof -
  assume "d < 16"
  then have "d = 0 \<or> d = 1 \<or> d = 2 \<or> d = 3 \<or> d = 4 \<or> d = 5 \<or> d = 6 \<or> d = 7 \<or> d = 8 \<or> d = 9 \<or>
      d = 10 \<or> d = 11 \<or> d = 12 \<or> d = 13 \<or> d = 14 \<or> d = 15"
    by presburger
  then show ?thesis by (elim disjE) (simp_all add: digito_def cifra_def)
qed

lemma strtol_digitos_append:
  assumes "\<forall>c\<in>set ds. \<exists>d. digito c = Some d \<and> d < base"
  shows "strtol_digitos base val (ds @ rest) =
    strtol_digitos base (foldl (\<lambda>v c. v * of_nat base + of_nat (the (digito c))) val ds) rest"
  using assms by (induction ds arbitrary: val) auto

lemma cifras_digitos:
  assumes "2 \<le> base" and "base \<le> 16"
  shows "\<forall>c\<in>set (cifras base num). \<exists>d. digito c = Some d \<and> d < base"
  using assms
proof (induction base num rule: cifras.induct)
  case (1 b num)
  have "num mod b < b" using 1(2) by simp
  then have "digito (cifra (num mod b)) = Some (num mod b)" using 1(3) by (intro digito_cifra) simp
  then show ?case using 1 \<open>num mod b < b\<close> by (subst cifras.simps) auto
qed

lemma foldl_cifras:
  assumes "2 \<le> base" and "base \<le> 16"
  shows "foldl (\<lambda>v c. v * of_nat base + of_nat (the (digito c))) 0 (cifras base num) =
    (of_nat num :: 32 word)"
  using assms
proof (induction base num rule: cifras.induct)
  case (1 b num)
  have "num mod b < b" using 1(2) by simp
  then have d: "digito (cifra (num mod b)) = Some (num mod b)" using 1(3) by (intro digito_cifra) simp
  show ?case
  proof (cases "b \<le> num")
    case True
    have "(of_nat (num div b) * of_nat b + of_nat (num mod b) :: 32 word) = of_nat num"
      by (metis div_mult_mod_eq of_nat_add of_nat_mult)
    then show ?thesis using 1 True d by (subst cifras.simps) simp
  next
    case False
    then show ?thesis using d by (subst cifras.simps) simp
  qed
qed

lemma strtol_cifras:
  assumes "2 \<le> base" and "base \<le> 16" and "digito c = None"
  shows "strtol_digitos base 0 (cifras base num @ c # rest) = Some (of_nat num, c # rest)"
  using strtol_digitos_append [OF cifras_digitos [OF assms(1,2)]] foldl_cifras [OF assms(1,2)] assms(3)
  by simp

section \<open>The output does not depend on the sink\<close>

text \<open>The sink that collects the characters.\<close>

abbreviation junta :: "char \<Rightarrow> string \<Rightarrow> string" where
  "junta c s \<equiv> s @ [c]"

definition salida :: "string \<Rightarrow> va_list \<Rightarrow> (string \<times> va_list) option" where
  "salida fmt ap = vprintfmt junta fmt ap []"

lemma fold_junta [simp]: "fold junta xs s = s @ xs"
  by (induction xs arbitrary: s) auto

lemma funpow_junta [simp]: "(junta c ^^ n) s = s @ replicate n c"
  by (induction n) (simp_all add: replicate_append_same)

lemma printnum_fold:
  "printnum putch num base w p (fold putch o' s) = fold putch (printnum junta num base w p o') s"
  by (simp add: printnum_cifras)

lemma funpow_fold: "(putch c ^^ n) (fold putch o' s) = fold putch ((junta c ^^ n) o') s"
  by (simp add: fold_replicate)

lemma emite_fold:
  "emite putch al p pr w (fold putch o' s) =
     (fst (emite junta al p pr w o'), fold putch (snd (emite junta al p pr w o')) s)"
proof (induction p arbitrary: pr w o')
  case Nil
  then show ?case by simp
next
  case (Cons c p)
  let ?c = "if al \<and> (c < CHR '' '' \<or> c > CHR ''~'') then CHR ''?'' else c"
  have "putch ?c (fold putch o' s) = fold putch (junta ?c o') s" by simp
  then show ?case using Cons.IH [of _ _ "junta ?c o'"] by (simp del: fold_append)
qed

lemma conv_s_fold:
  "conv_s putch al w pr pc p (fold putch o' s) = fold putch (conv_s junta al w pr pc p o') s"
  unfolding conv_s_def Let_def
  by (simp only: if_distrib [of "\<lambda>x. emite putch al p pr _ x"] split: prod.split) 
    (auto simp: funpow_fold emite_fold simp del: funpow_junta)

lemma putch_fold: "putch c (fold putch o' s) = fold putch (junta c o') s"
  by simp

lemma numero_fold: "numero putch f n b (fold putch o' s) = fold putch (numero junta f n b o') s"
  by (simp only: numero_def printnum_fold)

lemma decimal_con_signo_fold:
  "decimal_con_signo putch f n (fold putch o' s) = fold putch (decimal_con_signo junta f n o') s"
  unfolding decimal_con_signo_def putch_fold numero_fold by simp

lemmas fold_simps = putch_fold numero_fold decimal_con_signo_fold conv_s_fold emite_fold

lemma conversion_fold:
  "conversion putch f ch ap (fold putch o' s) =
     map_option (map_option (\<lambda>(out, ap). (fold putch out s, ap))) (conversion junta f ch ap o')"
proof -
  let ?h = "\<lambda>(out, ap :: va_list). (fold putch out s, ap)"
  have comp: "map_option f (map_option g x) = map_option (f \<circ> g) x" for f :: "'b \<Rightarrow> 'c" and g :: "'d \<Rightarrow> 'b" and x
    by (simp add: option.map_comp)
  note simps = conversion_def fold_simps comp_def case_prod_unfold Let_def option.map_comp
  consider "ch = CHR ''c''" | "ch = CHR ''e''" | "ch = CHR ''s''" | "ch = CHR ''d''" | "ch = CHR ''u''"
    | "ch = CHR ''o''" | "ch = CHR ''p''" | "ch = CHR ''x''" | "ch = CHR ''%''"
    | "ch \<notin> {CHR ''c'', CHR ''e'', CHR ''s'', CHR ''d'', CHR ''u'', CHR ''o'', CHR ''p'', CHR ''x'', CHR ''%''}"
    by blast
  then show ?thesis
  proof cases
    case 1
    then show ?thesis by (simp add: simps del: fold_append)
  next
    case 2
    then show ?thesis by (auto simp add: simps simp del: fold_append split: option.split)
  next
    case 3
    then show ?thesis by (auto simp add: simps simp del: fold_append split: option.split)
  next
    case 4
    then show ?thesis by (simp add: simps del: fold_append)
  next
    case 5
    then show ?thesis by (simp add: simps del: fold_append)
  next
    case 6
    then show ?thesis by (simp add: simps del: fold_append)
  next
    case 7
    then show ?thesis by (simp add: simps del: fold_append)
  next
    case 8
    then show ?thesis by (simp add: simps del: fold_append)
  next
    case 9
    then show ?thesis by (simp add: simps del: fold_append)
  next
    case 10
    then show ?thesis by (simp add: conversion_def)
  qed
qed

lemma vprintfmt_fold_aux:
  "vprintfmt putch fmt ap (fold putch o' s) =
     map_option (\<lambda>(out, ap). (fold putch out s, ap)) (vprintfmt junta fmt ap o')"
proof (induction "length fmt" arbitrary: fmt ap o' rule: less_induct)
  case less
  show ?case
  proof (cases fmt)
    case Nil
    then show ?thesis by (simp add: vprintfmt.simps)
  next
    case (Cons ch r)
    show ?thesis
    proof (cases "ch = CHR ''%''")
      case False
      then show ?thesis
        using less [of r ap "junta ch o'"] Cons
        by (simp add: vprintfmt.simps [of _ "ch # r"] del: fold_append flip: putch_fold)
    next
      case True
      show ?thesis
      proof (cases "reswitch formato_inicial r ap")
        case None
        then show ?thesis using True Cons by (simp add: vprintfmt.simps [of _ "CHR ''%'' # r"])
      next
        case (Some x)
        obtain f conv r' ap' where x: "reswitch formato_inicial r ap = Some (f, conv, r', ap')"
          using Some by (cases x) auto
        have r': "length r' \<le> length r" using x by (rule reswitch_corta)
        have IHd: "vprintfmt putch r ap' (putch ch (fold putch o' s)) =
            map_option (\<lambda>(out, ap). (fold putch out s, ap)) (vprintfmt junta r ap' (junta ch o'))"
          using less [of r ap' "junta ch o'"] Cons by (simp del: fold_append flip: putch_fold)
        have IHc: "vprintfmt putch r' a (fold putch out s) =
            map_option (\<lambda>(out, ap). (fold putch out s, ap)) (vprintfmt junta r' a out)" for a out
          using less [of r' a out] Cons r' by simp
        show ?thesis
          using True x Cons IHd IHc
          by (simp add: vprintfmt.simps [of _ "CHR ''%'' # r"] conversion_fold split: option.split)
      qed
    qed
  qed
qed

lemma vprintfmt_fold:
  "vprintfmt putch fmt ap s = map_option (\<lambda>(out, ap). (fold putch out s, ap)) (salida fmt ap)"
  using vprintfmt_fold_aux [of putch fmt ap "[]" s] by (simp add: salida_def)

section \<open>Sinks\<close>

text \<open>
  The interface of a sink: \<open>rel w s\<close> says that \<open>s\<close> is what the sink is after the characters \<open>w\<close>,
  and every character keeps it. The formatter, the client, then leaves the sink as it should be after
  its output.
\<close>

locale sumidero =
  fixes putch :: "char \<Rightarrow> 's \<Rightarrow> 's" and rel :: "string \<Rightarrow> 's \<Rightarrow> bool"
  assumes rel_putch: "rel w s \<Longrightarrow> rel (w @ [c]) (putch c s)"
begin

lemma rel_fold: "rel w s \<Longrightarrow> rel (w @ out) (fold putch out s)"
proof (induction out arbitrary: w s)
  case (Cons c out)
  from Cons.IH [OF rel_putch [OF Cons.prems]] show ?case by simp
qed simp

lemma rel_vprintfmt:
  assumes "salida fmt ap = Some (out, ap')" and "rel [] s"
  shows "\<exists>s'. vprintfmt putch fmt ap s = Some (s', ap') \<and> rel out s'"
  using assms rel_fold [of "[]" s out] by (simp add: vprintfmt_fold)

end

definition rel_sprint :: "nat \<Rightarrow> string \<Rightarrow> sprintbuf \<Rightarrow> bool" where
  "rel_sprint k w b \<longleftrightarrow> hueco b = k \<and> buf b = take k w \<and> cnt b = length w"

interpretation sprint: sumidero sprintputch "rel_sprint k" for k
  by unfold_locales (auto simp: rel_sprint_def sprintputch_def Let_def)

definition rel_usuario :: "string \<Rightarrow> printbuf \<Rightarrow> bool" where
  "rel_usuario w b \<longleftrightarrow> concat (cputs b) @ pbuf b = w \<and> pcnt b = length w \<and> length (pbuf b) < 255 \<and>
     (\<forall>t\<in>set (cputs b). length t = 255)"

interpretation usuario: sumidero putch_usuario rel_usuario
  by unfold_locales (auto simp: rel_usuario_def putch_usuario_def Let_def)

definition rel_kernel :: "(char \<Rightarrow> 'c \<Rightarrow> 'c) \<Rightarrow> 'c \<Rightarrow> string \<Rightarrow> 'c \<times> nat \<Rightarrow> bool" where
  "rel_kernel cputchar c0 w s \<longleftrightarrow> s = (fold cputchar w c0, length w)"

interpretation nucleo: sumidero "putch_kernel cputchar" "rel_kernel cputchar c0" for cputchar c0
  by unfold_locales (auto simp: rel_kernel_def putch_kernel_def)

section \<open>Signed decimals\<close>

lemma sint_rango: "- (2 ^ 31) \<le> sint (w :: 32 word)" "sint (w :: 32 word) < 2 ^ 31"
  using sint_greater_eq [of w] sint_less [of w] by simp_all

lemma scast_64: "(scast (w :: 32 word) :: 64 word) = word_of_int (sint w)"
  by simp

lemma unat_of_int_64: "0 \<le> k \<Longrightarrow> k < 2 ^ 64 \<Longrightarrow> unat (word_of_int k :: 64 word) = nat k"
  by (simp add: unsigned_of_int take_bit_int_eq_self)

lemma unat_scast:
  "\<not> sint w < 0 \<Longrightarrow> unat (scast (w :: 32 word) :: 64 word) = nat (sint w)"
  "sint w < 0 \<Longrightarrow> unat (- (scast (w :: 32 word) :: 64 word)) = nat (- sint w)"
  unfolding scast_64 using sint_rango [of w] unat_of_int_64 [of "sint w"] unat_of_int_64 [of "- sint w"]
  by simp_all

lemma sint_scast_64: "sint (scast (w :: 32 word) :: 64 word) = sint w"
  by (simp add: sint_up_scast is_up)

lemma vprintfmt_Nil [simp]: "vprintfmt putch [] ap s = Some (s, ap)"
  by (simp add: vprintfmt.simps)

lemma salida_simple:
  assumes "reswitch formato_inicial r ap = Some (f, ch, [], ap')"
    and "conversion junta f ch ap' [] = Some (Some (out, ap''))"
  shows "salida (CHR ''%'' # r) ap = Some (out, ap'')"
  using assms by (simp add: salida_def vprintfmt.simps [of _ "CHR ''%'' # r"])

lemma conversion_d:
  "conversion putch f (CHR ''d'') ap s =
     Some (map_option (\<lambda>(n, ap). (decimal_con_signo putch f n s, ap)) (getint (lflag f) ap))"
  by (simp add: conversion_def)

lemma salida_d:
  "salida ''%d'' [Entero w] =
     Some (if sint w < 0 then CHR ''-'' # cifras 10 (nat (- sint w)) else cifras 10 (nat (sint w)), [])"
proof -
  let ?v = "scast w :: 64 word"
  have r: "reswitch formato_inicial ''d'' [Entero w] = Some (formato_inicial, CHR ''d'', [], [Entero w])"
    by (simp add: reswitch.simps es_digito_def less_eq_char_def)
  have "getint (lflag formato_inicial) [Entero w] = Some (?v, [])"
    by (simp add: getint_def va_int_def formato_inicial_def)
  moreover have "decimal_con_signo junta formato_inicial ?v [] =
      (if sint w < 0 then CHR ''-'' # cifras 10 (nat (- sint w)) else cifras 10 (nat (sint w)))"
    unfolding decimal_con_signo_def sint_scast_64 numero_def printnum_cifras
    using unat_scast [of w] by (simp add: formato_inicial_def)
  ultimately show ?thesis
    by (intro salida_simple [OF r]) (simp add: conversion_d)
qed

end
