(* ===== verification/Lib_Contrato.thy ===== *)
theory Lib_Contrato
  imports Printfmt_Props
begin

text \<open>
  What the shared library of the kernel promises: \<^verbatim>\<open>memmove\<close> on overlapping ranges, \<^verbatim>\<open>strlcpy\<close> within
  its bound, formatted output in every sink, and the round trip of a number through \<^verbatim>\<open>%d\<close> and
  \<^verbatim>\<open>strtol\<close>; and what the flag \<open>-\<close> does to numbers.
\<close>

text \<open>
  C13: \<^verbatim>\<open>memmove\<close> copies \<open>n\<close> bytes as if through a temporary, also when the ranges overlap, whichever
  of its four string instructions it picks, and changes no other byte.
\<close>
theorem memmove_copia:
  "bytes_en (memmove d s n m) d n = bytes_en m s n \<and>
   {a. memmove d s n m a \<noteq> m a} \<subseteq> {d..<d + n}"
  by (auto simp: bytes_en_def memmove_efecto)

lemma strlcpy_bucle_efecto:
  assumes "NUL \<notin> set t"
  shows "\<exists>m'. strlcpy_bucle dst (t @ NUL # r) n m = Some (dst + min (length t) n, m') \<and>
    (\<forall>a. m' a = (if dst \<le> a \<and> a < dst + min (length t) n then t ! (a - dst)
                else if a = dst + min (length t) n then NUL else m a))"
  using assms
proof (induction t arbitrary: dst n m)
  case Nil
  then show ?case by (cases n) auto
next
  case (Cons c t)
  show ?case
  proof (cases n)
    case 0
    then show ?thesis by auto
  next
    case (Suc k)
    from Cons.IH [of "dst + 1" k "m(dst := c)"] Cons.prems obtain m'
      where "strlcpy_bucle (dst + 1) (t @ NUL # r) k (m(dst := c)) = Some (dst + 1 + min (length t) k, m')"
        "\<forall>a. m' a = (if dst + 1 \<le> a \<and> a < dst + 1 + min (length t) k then t ! (a - (dst + 1))
                else if a = dst + 1 + min (length t) k then NUL else (m(dst := c)) a)"
      by (metis (no_types, lifting) list.set_intros(2))
    then show ?thesis
      using Suc Cons.prems by (auto simp: nth_Cons' Suc_diff_Suc)
  qed
qed

text \<open>
  C16: \<^verbatim>\<open>strlcpy\<close> into a buffer of \<open>sz > 0\<close> bytes stores the longest prefix that fits with a terminator
  after it, writes nothing outside the buffer, and returns the length stored.
\<close>
theorem strlcpy_acotado:
  assumes "NUL \<notin> set t" and "0 < sz"
  shows "\<exists>m'. strlcpy dst (t @ NUL # r) sz m = Some (min (length t) (sz - 1), m') \<and>
    bytes_en m' dst (min (length t) (sz - 1) + 1) = take (sz - 1) t @ [NUL] \<and>
    {a. m' a \<noteq> m a} \<subseteq> {dst..<dst + sz}"
proof -
  let ?k = "min (length t) (sz - 1)"
  obtain m' where m: "strlcpy_bucle dst (t @ NUL # r) (sz - 1) m = Some (dst + ?k, m')"
    "\<And>a. m' a = (if dst \<le> a \<and> a < dst + ?k then t ! (a - dst) else if a = dst + ?k then NUL else m a)"
    using strlcpy_bucle_efecto [OF assms(1)] by blast
  have "bytes_en m' dst (?k + 1) = take (sz - 1) t @ [NUL]"
    by (rule nth_equalityI) (auto simp: bytes_en_def m(2) nth_append min_def not_less)
  moreover have "{a. m' a \<noteq> m a} \<subseteq> {dst..<dst + sz}"
    using assms(2) by (auto simp: m(2) split: if_splits)
  ultimately show ?thesis using m(1) assms(2) by (auto simp: strlcpy_def)
qed

theorem strlcpy_acotado_witness:
  "\<exists>m'. strlcpy 100 (''hello'' @ NUL # []) 4 (\<lambda>a. NUL) = Some (min (length ''hello'') (4 - 1), m') \<and>
    bytes_en m' 100 (min (length ''hello'') (4 - 1) + 1) = take (4 - 1) ''hello'' @ [NUL] \<and>
    {a. m' a \<noteq> (\<lambda>a. NUL) a} \<subseteq> {100..<100 + 4}"
  by (rule strlcpy_acotado) simp_all

text \<open>
  C14: A number printed with \<^verbatim>\<open>%d\<close> is read back by \<^verbatim>\<open>strtol\<close> in base 10, for each of the 2^32 values of an
  \<^verbatim>\<open>int\<close>.
\<close>
theorem decimal_ida_y_vuelta:
  "\<exists>d. salida ''%d'' [Entero w] = Some (d, []) \<and> strtol (d @ [NUL]) 10 = Some (w, [NUL])"
proof -
  have fin: "digito NUL = None" by (simp add: digito_def)
  have dig: "strtol_digitos 10 0 (cifras 10 k @ [NUL]) = Some (of_nat k, [NUL])" for k
    using strtol_cifras [of 10 NUL k "[]"] fin by simp
  have w: "(of_nat (nat (- sint w)) :: 32 word) = - w" if "sint w < 0"
    using that by (simp flip: word_of_int_minus)
  have s10: "strtol x 10 = map_option (\<lambda>(val, r). (if neg then - val else val, r)) (strtol_digitos 10 0 y)"
    if "x \<noteq> []" "hd x \<noteq> CHR '' ''" "hd x \<noteq> CHR 0x09" "hd x \<noteq> CHR ''+''" "neg = (hd x = CHR ''-'')"
      "y = (if neg then tl x else x)" for x y neg
    using that by (cases x) (auto simp: strtol_def Let_def)
  have cs: "\<exists>c r. cifras 10 k = c # r \<and> c \<noteq> CHR '' '' \<and> c \<noteq> CHR 0x09 \<and> c \<noteq> CHR ''+'' \<and> c \<noteq> CHR ''-''" for k
  proof -
    obtain c r where c: "cifras 10 k = c # r" by (cases "cifras 10 k") auto
    then obtain d where "digito c = Some d" using cifras_digitos [of 10 k] by auto
    then show ?thesis using c by (auto simp: digito_def Let_def)
  qed
  show ?thesis
  proof (cases "sint w < 0")
    case True
    then show ?thesis
      using s10 [of "CHR ''-'' # cifras 10 (nat (- sint w)) @ [NUL]" True "cifras 10 (nat (- sint w)) @ [NUL]"]
        dig w by (simp add: salida_d)
  next
    case False
    obtain c r where c: "cifras 10 (nat (sint w)) = c # r" "c \<noteq> CHR '' ''" "c \<noteq> CHR 0x09" "c \<noteq> CHR ''+''"
      "c \<noteq> CHR ''-''" using cs by blast
    have "(of_nat (nat (sint w)) :: 32 word) = w" using False by simp
    then show ?thesis
      using s10 [of "c # r @ [NUL]" False "c # r @ [NUL]"] dig [of "nat (sint w)"] c False
      by (simp add: salida_d)
  qed
qed

text \<open>
  C15: \<^verbatim>\<open>vsnprintf\<close> stores the output cut to the \<open>n - 1\<close> characters that fit, with a terminator, and
  returns the length of the whole output.
\<close>
theorem snprintf_acotado:
  assumes "salida fmt ap = Some (out, ap')" and "1 \<le> n"
  shows "vsnprintf n fmt ap = Some (take (nat (n - 1)) out @ [NUL], int (length out))"
proof -
  have "rel_sprint (nat (n - 1)) [] \<lparr>buf = [], hueco = nat (n - 1), cnt = 0\<rparr>"
    by (simp add: rel_sprint_def)
  from sprint.rel_vprintfmt [OF assms(1) this] show ?thesis
    using assms(2) by (auto simp: vsnprintf_def rel_sprint_def)
qed

theorem snprintf_acotado_witness:
  "vsnprintf 3 ''%d'' [Entero 1234] =
     Some (take (nat (3 - 1)) (cifras 10 (nat (sint (1234 :: 32 word)))) @ [NUL],
       int (length (cifras 10 (nat (sint (1234 :: 32 word))))))"
  by (rule snprintf_acotado) (simp_all add: salida_d)

text \<open>
  C17: \<^verbatim>\<open>cprintf\<close> of a user program hands \<^verbatim>\<open>sys_cputs\<close> exactly the formatted characters, in pieces of at
  most 255, and that of the kernel writes them to the console one by one; both return their number.
\<close>
theorem cprintf_completo:
  assumes "salida fmt ap = Some (out, ap')"
  shows "(\<exists>ps. vcprintf_usuario fmt ap = Some (ps, length out) \<and> concat ps = out \<and>
      (\<forall>p\<in>set ps. length p \<le> 255)) \<and>
    vcprintf_kernel cputchar fmt ap c = Some (fold cputchar out c, length out)"
proof
  have "rel_usuario [] \<lparr>pbuf = [], pcnt = 0, cputs = []\<rparr>" by (simp add: rel_usuario_def)
  from usuario.rel_vprintfmt [OF assms this] show "\<exists>ps. vcprintf_usuario fmt ap = Some (ps, length out) \<and>
      concat ps = out \<and> (\<forall>p\<in>set ps. length p \<le> 255)"
    by (auto simp: vcprintf_usuario_def rel_usuario_def)
  have "rel_kernel cputchar c [] (c, 0)" by (simp add: rel_kernel_def)
  from nucleo.rel_vprintfmt [OF assms this]
  show "vcprintf_kernel cputchar fmt ap c = Some (fold cputchar out c, length out)"
    by (auto simp: vcprintf_kernel_def rel_kernel_def)
qed

theorem cprintf_completo_witness:
  "(\<exists>ps. vcprintf_usuario ''%d'' [Entero 7] = Some (ps, length (cifras 10 (nat (sint (7 :: 32 word))))) \<and>
      concat ps = cifras 10 (nat (sint (7 :: 32 word))) \<and> (\<forall>p\<in>set ps. length p \<le> 255)) \<and>
    vcprintf_kernel (#) ''%d'' [Entero 7] [] =
      Some (fold (#) (cifras 10 (nat (sint (7 :: 32 word)))) [], length (cifras 10 (nat (sint (7 :: 32 word)))))"
  by (rule cprintf_completo) (simp add: salida_d)

text \<open>
  The flag \<open>-\<close>, which the code calls a flag to pad on the right, makes the numeric conversions pad
  on the left with dashes.
\<close>
theorem guion_a_la_izquierda:
  assumes "k \<in> {1..9}" and "0 \<le> sint w"
  shows "salida (''%-'' @ [cifra k] @ ''d'') [Entero w] =
    Some (replicate (k - length (cifras 10 (nat (sint w)))) (CHR ''-'') @ cifras 10 (nat (sint w)), [])"
proof -
  let ?f = "formato_inicial\<lparr>padc := CHR ''-'', width := int k, precision := - 1\<rparr>"
  have "k = 1 \<or> k = 2 \<or> k = 3 \<or> k = 4 \<or> k = 5 \<or> k = 6 \<or> k = 7 \<or> k = 8 \<or> k = 9"
    using assms(1) by auto
  then have r: "reswitch formato_inicial (CHR ''-'' # cifra k # ''d'') [Entero w] =
      Some (?f, CHR ''d'', [], [Entero w])"
    by (elim disjE) (simp_all add: reswitch.simps es_digito_def less_eq_char_def cifra_def valor_campo_def
        process_precision_def formato_inicial_def)
  have g: "getint (lflag ?f) [Entero w] = Some (scast w, [])"
    by (simp add: getint_def va_int_def formato_inicial_def)
  have "decimal_con_signo junta ?f (scast w) [] =
      replicate (k - length (cifras 10 (nat (sint w)))) (CHR ''-'') @ cifras 10 (nat (sint w))"
    unfolding decimal_con_signo_def sint_scast_64 numero_def printnum_cifras
    using unat_scast [of w] assms(2) by (simp flip: of_nat_diff)
  with g show ?thesis
    using salida_simple [OF r] by (simp add: conversion_d)
qed

theorem guion_a_la_izquierda_witness:
  "salida (''%-'' @ [cifra 5] @ ''d'') [Entero 42] =
    Some (replicate (5 - length (cifras 10 (nat (sint (42 :: 32 word))))) (CHR ''-'') @
      cifras 10 (nat (sint (42 :: 32 word))), [])"
  by (rule guion_a_la_izquierda) simp_all

end
