(* ===== verification/Kern_Console.thy ===== *)
theory Kern_Console
  imports Prelude
begin

text \<open>
  The console of the kernel (\<open>sched/kern/console.c\<close>): the circular input buffer, the keyboard
  decoder with its tables, and output to the serial port, the parallel port and the text screen.
  The devices are part of the state: what the UART and the keyboard controller still have to deliver
  (for the keyboard, each byte with the status bit \<open>KBS_TERR\<close> it comes with), and what the serial
  and parallel ports and the cursor registers were given. The busy-waiting of \<open>serial_putc\<close> and
  \<open>lpt_putc\<close> and the probing of \<open>cga_init\<close> and \<open>serial_init\<close> are not modelled.
\<close>

section \<open>State\<close>

record consola =
  cons_buf :: "8 word list"
  cons_rpos :: nat
  cons_wpos :: nat
  serial_exists :: bool
  serial_in :: "8 word list"
  kbd_in :: "(bool \<times> 8 word) list"
  kbd_shift :: "8 word"
  reinicia :: bool
  crt_buf :: "nat \<Rightarrow> 16 word"
  crt_pos :: "16 word"
  cursor :: "16 word"
  serial_out :: "8 word list"
  lpt_out :: "8 word list"

definition CONSBUFSIZE :: nat where "CONSBUFSIZE = 512"
definition CRT_COLS :: "16 word" where "CRT_COLS = 80"
definition CRT_SIZE :: "16 word" where "CRT_SIZE = 25 * CRT_COLS"


section \<open>Keyboard tables\<close>

definition SHIFT :: "8 word" where "SHIFT = 1"
definition CTL :: "8 word" where "CTL = 2"
definition ALT :: "8 word" where "ALT = 4"
definition CAPSLOCK :: "8 word" where "CAPSLOCK = 8"
definition NUMLOCK :: "8 word" where "NUMLOCK = 16"
definition SCROLLLOCK :: "8 word" where "SCROLLLOCK = 32"
definition E0ESC :: "8 word" where "E0ESC = 64"

definition KEY_HOME :: int where "KEY_HOME = 0xE0"
definition KEY_END :: int where "KEY_END = 0xE1"
definition KEY_UP :: int where "KEY_UP = 0xE2"
definition KEY_DN :: int where "KEY_DN = 0xE3"
definition KEY_LF :: int where "KEY_LF = 0xE4"
definition KEY_RT :: int where "KEY_RT = 0xE5"
definition KEY_PGUP :: int where "KEY_PGUP = 0xE6"
definition KEY_PGDN :: int where "KEY_PGDN = 0xE7"
definition KEY_INS :: int where "KEY_INS = 0xE8"
definition KEY_DEL :: int where "KEY_DEL = 0xE9"

fun shiftcode :: "8 word \<Rightarrow> 8 word" where
  "shiftcode d =
     (if d = 0x1D then CTL else if d = 0x2A then SHIFT else if d = 0x36 then SHIFT
      else if d = 0x38 then ALT else if d = 0x9D then CTL else if d = 0xB8 then ALT else 0)"

fun togglecode :: "8 word \<Rightarrow> 8 word" where
  "togglecode d =
     (if d = 0x3A then CAPSLOCK else if d = 0x45 then NUMLOCK else if d = 0x46 then SCROLLLOCK
      else 0)"

text \<open>
  A table is its first entries in order and then its designated ones; the rest are \<open>NO\<close>, which is 0.
\<close>

definition codigos :: "string \<Rightarrow> int list" where "codigos = map of_char"

definition tabla_tec :: "int list \<Rightarrow> (nat \<times> int) list \<Rightarrow> 8 word \<Rightarrow> int" where
  "tabla_tec base desig d =
     (case map_of desig (unat d) of
        Some v \<Rightarrow> v
      | None \<Rightarrow> if unat d < length base then base ! unat d else 0)"

definition normalmap :: "8 word \<Rightarrow> int" where
  "normalmap = tabla_tec
     ([0, 0x1B] @ codigos ''1234567890-='' @ [8, 9] @ codigos ''qwertyuiop[]'' @ [10, 0] @
      codigos ''asdfghjkl;'' @ [39, 96, 0, 92] @ codigos ''zxcvbnm,./'' @ [0, 42, 0, 32] @
      replicate 13 0 @ codigos ''789-456+1230.'' @ [0, 0, 0, 0])
     [(0xC7, KEY_HOME), (0x9C, 10), (0xB5, 47), (0xC8, KEY_UP), (0xC9, KEY_PGUP), (0xCB, KEY_LF),
      (0xCD, KEY_RT), (0xCF, KEY_END), (0xD0, KEY_DN), (0xD1, KEY_PGDN), (0xD2, KEY_INS),
      (0xD3, KEY_DEL)]"

definition shiftmap :: "8 word \<Rightarrow> int" where
  "shiftmap = tabla_tec
     ([0, 0x1B] @ codigos ''!@#$%^&*()_+'' @ [8, 9] @ codigos ''QWERTYUIOP{}'' @ [10, 0] @
      codigos ''ASDFGHJKL:'' @ [34, 126, 0, 124] @ codigos ''ZXCVBNM<>?'' @ [0, 42, 0, 32] @
      replicate 13 0 @ codigos ''789-456+1230.'' @ [0, 0, 0, 0])
     [(0xC7, KEY_HOME), (0x9C, 10), (0xB5, 47), (0xC8, KEY_UP), (0xC9, KEY_PGUP), (0xCB, KEY_LF),
      (0xCD, KEY_RT), (0xCF, KEY_END), (0xD0, KEY_DN), (0xD1, KEY_PGDN), (0xD2, KEY_INS),
      (0xD3, KEY_DEL)]"

text \<open>\<open>C(x)\<close>, stored in a \<open>uint8_t\<close>.\<close>

definition control :: "string \<Rightarrow> int list" where
  "control xs = map (\<lambda>c. (of_char c - 64) mod 256) xs"

definition ctlmap :: "8 word \<Rightarrow> int" where
  "ctlmap = tabla_tec
     (replicate 16 0 @ control ''QWERTYUIOP'' @ [0, 0, 13, 0] @ control ''ASDFGHJKL'' @
      [0, 0, 0, 0, 28] @ control ''ZXCVBNM'' @ [0, 0, 239, 0, 0])
     [(0x97, KEY_HOME), (0xB5, 239), (0xC8, KEY_UP), (0xC9, KEY_PGUP), (0xCB, KEY_LF),
      (0xCD, KEY_RT), (0xCF, KEY_END), (0xD0, KEY_DN), (0xD1, KEY_PGDN), (0xD2, KEY_INS),
      (0xD3, KEY_DEL)]"

definition charcode :: "8 word \<Rightarrow> 8 word \<Rightarrow> int" where
  "charcode sh d =
     (if sh AND (CTL OR SHIFT) = 0 then normalmap d
      else if sh AND (CTL OR SHIFT) = SHIFT then shiftmap d else ctlmap d)"


section \<open>Input\<close>

text \<open>The answer of a device routine: -1 for no data, 0 for no character yet.\<close>

definition serial_proc_data :: "consola \<Rightarrow> int \<times> consola" where
  "serial_proc_data k =
     (case serial_in k of
        [] \<Rightarrow> (-1, k)
      | b # bs \<Rightarrow> (uint b, k\<lparr>serial_in := bs\<rparr>))"

definition mayusculas :: "8 word \<Rightarrow> int \<Rightarrow> int" where
  "mayusculas sh c =
     (if sh AND CAPSLOCK \<noteq> 0 then
        (if 97 \<le> c \<and> c \<le> 122 then c + (65 - 97)
         else if 65 \<le> c \<and> c \<le> 90 then c + (97 - 65) else c)
      else c)"

text \<open>A key is pressed: its code, with the bit of an escaped key already set.\<close>

definition tecla :: "8 word \<Rightarrow> consola \<Rightarrow> int \<times> consola" where
  "tecla data k =
     (let sh = kbd_shift k OR shiftcode data;
          sh = sh XOR togglecode data;
          c = mayusculas sh (charcode sh data);
          k = k\<lparr>kbd_shift := sh\<rparr>
      in (c, if NOT sh AND (CTL OR ALT) = 0 \<and> c = KEY_DEL then k\<lparr>reinicia := True\<rparr> else k))"

definition kbd_proc_data :: "consola \<Rightarrow> int \<times> consola" where
  "kbd_proc_data k =
     (case kbd_in k of
        [] \<Rightarrow> (-1, k)
      | (terr, data) # ds \<Rightarrow>
          if terr then (-1, k)
          else
            let k = k\<lparr>kbd_in := ds\<rparr>; sh = kbd_shift k
            in if data = 0xE0 then (0, k\<lparr>kbd_shift := sh OR E0ESC\<rparr>)
               else if data AND 0x80 \<noteq> 0 then
                 let data = (if sh AND E0ESC \<noteq> 0 then data else data AND 0x7F)
                 in (0, k\<lparr>kbd_shift := sh AND NOT (shiftcode data OR E0ESC)\<rparr>)
               else if sh AND E0ESC \<noteq> 0 then
                 tecla (data OR 0x80) (k\<lparr>kbd_shift := sh AND NOT E0ESC\<rparr>)
               else tecla data k)"

definition guarda_car :: "int \<Rightarrow> consola \<Rightarrow> consola" where
  "guarda_car c k =
     (let k = k\<lparr>cons_buf := (cons_buf k)[cons_wpos k := word_of_int c], cons_wpos := cons_wpos k + 1\<rparr>
      in if cons_wpos k = CONSBUFSIZE then k\<lparr>cons_wpos := 0\<rparr> else k)"

text \<open>The loop of \<open>cons_intr\<close>, at most \<open>n\<close> turns; each turn but the last takes a byte of the device.\<close>

fun cons_intr :: "nat \<Rightarrow> (consola \<Rightarrow> int \<times> consola) \<Rightarrow> consola \<Rightarrow> consola" where
  "cons_intr 0 dispositivo k = k"
| "cons_intr (Suc n) dispositivo k =
     (let (c, k) = dispositivo k
      in if c = -1 then k
         else if c = 0 then cons_intr n dispositivo k
         else cons_intr n dispositivo (guarda_car c k))"

definition serial_intr :: "consola \<Rightarrow> consola" where
  "serial_intr k =
     (if serial_exists k then cons_intr (Suc (length (serial_in k))) serial_proc_data k else k)"

definition kbd_intr :: "consola \<Rightarrow> consola" where
  "kbd_intr k = cons_intr (Suc (length (kbd_in k))) kbd_proc_data k"

definition cons_getc :: "consola \<Rightarrow> int \<times> consola" where
  "cons_getc k =
     (let k = kbd_intr (serial_intr k)
      in if cons_rpos k \<noteq> cons_wpos k then
           let c = cons_buf k ! cons_rpos k; k = k\<lparr>cons_rpos := cons_rpos k + 1\<rparr>
           in (uint c, if cons_rpos k = CONSBUFSIZE then k\<lparr>cons_rpos := 0\<rparr> else k)
         else (0, k))"


section \<open>Output\<close>

definition serial_putc :: "32 word \<Rightarrow> consola \<Rightarrow> consola" where
  "serial_putc c k = k\<lparr>serial_out := serial_out k @ [ucast c]\<rparr>"

definition lpt_putc :: "32 word \<Rightarrow> consola \<Rightarrow> consola" where
  "lpt_putc c k = k\<lparr>lpt_out := lpt_out k @ [ucast c]\<rparr>"

text \<open>After the character: scrolling by a line when the position left the screen, and the cursor.\<close>

definition desplaza :: "consola \<Rightarrow> consola" where
  "desplaza k =
     (let k = (if crt_pos k \<ge> CRT_SIZE
               then k\<lparr>crt_buf := (\<lambda>i. if i < unat (CRT_SIZE - CRT_COLS) then crt_buf k (i + unat CRT_COLS)
                                      else if i < unat CRT_SIZE then 0x0700 OR 0x20
                                      else crt_buf k i),
                      crt_pos := crt_pos k - CRT_COLS\<rparr>
               else k)
      in k\<lparr>cursor := crt_pos k\<rparr>)"

lemma atributo_bajo: "((if c AND NOT 0xFF = 0 then c OR 0x0700 else c) :: 32 word) AND 0xff = c AND 0xff"
  by (simp add: word_ao_dist)

function cga_putc :: "32 word \<Rightarrow> consola \<Rightarrow> consola"
  and cons_putc :: "32 word \<Rightarrow> consola \<Rightarrow> consola" where
  "cga_putc c k =
     (let a = (if c AND NOT 0xFF = 0 then c OR 0x0700 else c)
      in desplaza
           (if a AND 0xff = 8 then
              (if crt_pos k > 0 then
                 k\<lparr>crt_pos := crt_pos k - 1,
                   crt_buf := (crt_buf k)(unat (crt_pos k - 1) := ucast ((a AND NOT 0xff) OR 0x20))\<rparr>
               else k)
            else if a AND 0xff = 10 then
              (let p = crt_pos k + CRT_COLS in k\<lparr>crt_pos := p - p mod CRT_COLS\<rparr>)
            else if a AND 0xff = 13 then k\<lparr>crt_pos := crt_pos k - crt_pos k mod CRT_COLS\<rparr>
            else if a AND 0xff = 9 then
              cons_putc 0x20 (cons_putc 0x20 (cons_putc 0x20 (cons_putc 0x20 (cons_putc 0x20 k))))
            else k\<lparr>crt_buf := (crt_buf k)(unat (crt_pos k) := ucast a), crt_pos := crt_pos k + 1\<rparr>))"
| "cons_putc c k = cga_putc c (lpt_putc c (serial_putc c k))"
  by pat_completeness auto

termination
  by (relation "measure (\<lambda>x. case x of Inl (c, k) \<Rightarrow> if c AND 0xff = 9 then 2 else 0
                                     | Inr (c, k) \<Rightarrow> if c AND 0xff = 9 then 3 else 1)")
    (auto simp: atributo_bajo [simplified])

declare cga_putc.simps [simp del] cons_putc.simps [simp del]

end
