(* ===== verification/Kern_Mmu.thy ===== *)
theory Kern_Mmu
  imports Kern_Console
begin

text \<open>
  The machine under the kernel of \<open>sched\<close>: the address arithmetic of \<open>inc/mmu.h\<close>, \<open>inc/memlayout.h\<close>
  and \<open>inc/types.h\<close>, the structures \<open>PageInfo\<close>, \<open>PushRegs\<close>, \<open>Trapframe\<close>, \<open>Env\<close> and \<open>sched_stats\<close>,
  the kernel state, and the ways in which kernel code does not return.

  A physical page is named by its frame number, which is also the index of its \<open>PageInfo\<close>, so a
  pointer into \<open>pages\<close> and the kernel address of a page are both a \<^typ>\<open>nat\<close>; a pointer to a page
  table entry is a frame and an index below 1024. Physical memory is seen as 32-bit words. An
  environment is named by its index in \<open>envs\<close>. \<open>curenv\<close> is the one of the CPU that runs the kernel:
  the code modelled here runs with the kernel lock held. What \<open>cprintf\<close> prints is not part of the
  state.
\<close>

section \<open>Addresses (inc/mmu.h, inc/memlayout.h, inc/types.h)\<close>

definition PGSIZE :: "32 word" where "PGSIZE = 4096"
definition PTSIZE :: "32 word" where "PTSIZE = PGSIZE * 1024"
definition PTE_P :: "32 word" where "PTE_P = 0x001"
definition PTE_W :: "32 word" where "PTE_W = 0x002"
definition PTE_U :: "32 word" where "PTE_U = 0x004"
definition PTE_PWT :: "32 word" where "PTE_PWT = 0x008"
definition PTE_PCD :: "32 word" where "PTE_PCD = 0x010"
definition PTE_AVAIL :: "32 word" where "PTE_AVAIL = 0xE00"
definition PTE_SYSCALL :: "32 word" where "PTE_SYSCALL = PTE_AVAIL OR PTE_P OR PTE_W OR PTE_U"

definition PGNUM :: "32 word \<Rightarrow> nat" where "PGNUM la = unat (drop_bit 12 la)"
definition PDX :: "32 word \<Rightarrow> nat" where "PDX la = unat (drop_bit 22 la AND 0x3FF)"
definition PTX :: "32 word \<Rightarrow> nat" where "PTX la = unat (drop_bit 12 la AND 0x3FF)"
definition PGADDR :: "nat \<Rightarrow> nat \<Rightarrow> 32 word \<Rightarrow> 32 word" where
  "PGADDR d t off = push_bit 22 (of_nat d) OR push_bit 12 (of_nat t) OR off"
definition PTE_ADDR :: "32 word \<Rightarrow> 32 word" where "PTE_ADDR pte = pte AND NOT 0xFFF"

definition KERNBASE :: "32 word" where "KERNBASE = 0xF0000000"
definition IOPHYSMEM :: "32 word" where "IOPHYSMEM = 0x0A0000"
definition EXTPHYSMEM :: "32 word" where "EXTPHYSMEM = 0x100000"
definition MPENTRY_PADDR :: "32 word" where "MPENTRY_PADDR = 0x7000"
definition KSTACKTOP :: "32 word" where "KSTACKTOP = KERNBASE"
definition MMIOLIM :: "32 word" where "MMIOLIM = KSTACKTOP - PTSIZE"
definition MMIOBASE :: "32 word" where "MMIOBASE = MMIOLIM - PTSIZE"
definition ULIM :: "32 word" where "ULIM = MMIOBASE"
definition UVPT :: "32 word" where "UVPT = ULIM - PTSIZE"
definition UPAGES :: "32 word" where "UPAGES = UVPT - PTSIZE"
definition UENVS :: "32 word" where "UENVS = UPAGES - PTSIZE"
definition UTOP :: "32 word" where "UTOP = UENVS"
definition UXSTACKTOP :: "32 word" where "UXSTACKTOP = UTOP"
definition USTACKTOP :: "32 word" where "USTACKTOP = UTOP - 2 * PGSIZE"

definition ROUNDDOWN :: "32 word \<Rightarrow> 32 word \<Rightarrow> 32 word" where
  "ROUNDDOWN a n = a - a mod n"
definition ROUNDUP :: "32 word \<Rightarrow> 32 word \<Rightarrow> 32 word" where
  "ROUNDUP a n = ROUNDDOWN (a + n - 1) n"

definition page2pa :: "nat \<Rightarrow> 32 word" where "page2pa pp = push_bit 12 (of_nat pp)"

definition NENV :: nat where "NENV = 1024"
definition ENVX :: "32 word \<Rightarrow> nat" where "ENVX envid = unat (envid AND 1023)"
definition ENVGENSHIFT :: nat where "ENVGENSHIFT = 12"
definition DEFAULT_PRIORITY :: "32 word" where "DEFAULT_PRIORITY = 5"

text \<open>Error codes (inc/error.h), as the integers the kernel returns.\<close>

definition E_BAD_ENV :: int where "E_BAD_ENV = 2"
definition E_INVAL :: int where "E_INVAL = 3"
definition E_NO_MEM :: int where "E_NO_MEM = 4"
definition E_NO_FREE_ENV :: int where "E_NO_FREE_ENV = 5"
definition E_FAULT :: int where "E_FAULT = 6"
definition E_IPC_NOT_RECV :: int where "E_IPC_NOT_RECV = 7"


section \<open>Structures\<close>

record page_info =
  pp_link :: "nat option"
  pp_ref :: "16 word"

record push_regs =
  reg_edi :: "32 word"
  reg_esi :: "32 word"
  reg_ebp :: "32 word"
  reg_oesp :: "32 word"
  reg_ebx :: "32 word"
  reg_edx :: "32 word"
  reg_ecx :: "32 word"
  reg_eax :: "32 word"

record trapframe =
  tf_regs :: push_regs
  tf_es :: "16 word"
  tf_ds :: "16 word"
  tf_trapno :: "32 word"
  tf_err :: "32 word"
  tf_eip :: "32 word"
  tf_cs :: "16 word"
  tf_eflags :: "32 word"
  tf_esp :: "32 word"
  tf_ss :: "16 word"

datatype env_estado = ENV_FREE | ENV_DYING | ENV_RUNNABLE | ENV_RUNNING | ENV_NOT_RUNNABLE

record env =
  env_tf :: trapframe
  env_link :: "nat option"
  env_id :: "32 word"
  env_parent_id :: "32 word"
  env_type :: nat
  env_status :: env_estado
  env_runs :: "32 word"
  env_cpunum :: nat
  env_pgdir :: "nat option"
  env_pgfault_upcall :: "32 word"
  env_ipc_recving :: bool
  env_ipc_dstva :: "32 word"
  env_ipc_value :: "32 word"
  env_ipc_from :: "32 word"
  env_ipc_perm :: "32 word"
  env_priority :: "32 word"
  env_wait_time :: "32 word"

record sched_stats =
  sched_calls :: "32 word"
  runs :: "nat \<Rightarrow> 32 word"
  history :: "nat \<Rightarrow> 32 word"
  history_index :: nat
  history_count :: nat
  env_start_time :: "nat \<Rightarrow> 32 word"
  env_end_time :: "nat \<Rightarrow> 32 word"
  global_time :: "32 word"
  prev_env_status :: "nat \<Rightarrow> env_estado"

text \<open>The two schedulers the build chooses between (\<open>USE_RR\<close>, \<open>USE_PR\<close> in \<open>GNUmakefile\<close>).\<close>

datatype planificador = SCHED_ROUND_ROBIN | SCHED_PRIORITIES

datatype cpu_estado = CPU_UNUSED | CPU_STARTED | CPU_HALTED

record kst =
  npages :: nat
  pages :: "page_info list"
  page_free_list :: "nat option"
  mem :: "nat \<Rightarrow> nat \<Rightarrow> 32 word"
  kern_pgdir :: nat
  nextfree :: "32 word"
  mmio_base :: "32 word"
  user_mem_check_addr :: "32 word"
  envs :: "env list"
  env_free_list :: "nat option"
  curenv :: "nat option"
  cpunum :: nat
  cpu_status :: cpu_estado
  kernel_lock :: bool
  cr3 :: nat
  invlpg :: "32 word list"
  sched_modo :: planificador
  stats :: sched_stats
  cons :: consola

text \<open>
  How control leaves the kernel without returning: a panic, an access through a null or
  uninitialised pointer, the switch to the environment with an index, a halted CPU, or the monitor's
  endless loop, each of the last three with the state it leaves.
\<close>

datatype fin_kern = Panico string | Indefinido | Corre nat kst | Halta kst | EnMonitor kst

type_synonym 'a kern = "kst \<Rightarrow> fin_kern + ('a \<times> kst)"


section \<open>Access\<close>

text \<open>\<open>pages[i].f = v\<close>, \<open>envs[i].f = v\<close> and a store of one word.\<close>

definition upd_page :: "nat \<Rightarrow> (page_info \<Rightarrow> page_info) \<Rightarrow> kst \<Rightarrow> kst" where
  "upd_page i f s = s\<lparr>pages := (pages s)[i := f (pages s ! i)]\<rparr>"

definition upd_env :: "nat \<Rightarrow> (env \<Rightarrow> env) \<Rightarrow> kst \<Rightarrow> kst" where
  "upd_env i f s = s\<lparr>envs := (envs s)[i := f (envs s ! i)]\<rparr>"

definition poke :: "nat \<times> nat \<Rightarrow> 32 word \<Rightarrow> kst \<Rightarrow> kst" where
  "poke p v s = s\<lparr>mem := (mem s)(fst p := (mem s (fst p))(snd p := v))\<rparr>"

definition peek :: "kst \<Rightarrow> nat \<times> nat \<Rightarrow> 32 word" where
  "peek s p = mem s (fst p) (snd p)"

definition memset0 :: "nat \<Rightarrow> kst \<Rightarrow> kst" where
  "memset0 f s = s\<lparr>mem := (mem s)(f := (\<lambda>i. if i < 1024 then 0 else mem s f i))\<rparr>"

definition memcpy_pag :: "nat \<Rightarrow> nat \<Rightarrow> kst \<Rightarrow> kst" where
  "memcpy_pag d f s = s\<lparr>mem := (mem s)(d := (\<lambda>i. if i < 1024 then mem s f i else mem s d i))\<rparr>"

text \<open>\<open>KADDR\<close> and \<open>pa2page\<close> (kern/pmap.h) panic outside physical memory; both name the frame.\<close>

definition kaddr :: "32 word \<Rightarrow> nat kern" where
  "kaddr pa s =
     (if PGNUM pa \<ge> npages s then Inl (Panico ''KADDR called with invalid pa'')
      else Inr (PGNUM pa, s))"

definition pa2page :: "32 word \<Rightarrow> nat kern" where
  "pa2page pa s =
     (if PGNUM pa \<ge> npages s then Inl (Panico ''pa2page called with invalid pa'')
      else Inr (PGNUM pa, s))"

definition page2kva :: "nat \<Rightarrow> nat kern" where
  "page2kva pp s = kaddr (page2pa pp) s"


section \<open>Address arithmetic\<close>

lemmas permisos = PTE_P_def PTE_W_def PTE_U_def PTE_PWT_def PTE_PCD_def PTE_AVAIL_def PTE_SYSCALL_def

lemmas mapa = KERNBASE_def KSTACKTOP_def MMIOLIM_def MMIOBASE_def ULIM_def UVPT_def UPAGES_def
  UENVS_def UTOP_def UXSTACKTOP_def USTACKTOP_def PTSIZE_def PGSIZE_def

lemma UTOP_val: "UTOP = 0xEEC00000"
  by (simp add: mapa)

lemma unat_and_le: "unat (x AND y :: 32 word) \<le> unat y"
  using word_and_le1 [of x y] by (simp add: word_le_nat_alt)

lemma PDX_lt [simp]: "PDX va < 1024"
  using unat_and_le [of "drop_bit 22 va" "0x3FF"] by (simp add: PDX_def)

lemma PTX_lt [simp]: "PTX va < 1024"
  using unat_and_le [of "drop_bit 12 va" "0x3FF"] by (simp add: PTX_def)

lemma ENVX_lt [simp]: "ENVX i < NENV"
  using unat_and_le [of i 1023] by (simp add: ENVX_def NENV_def)

lemma mask12: "(0xFFF :: 32 word) = mask 12"
  by (simp add: mask_eq_exp_minus_1)

lemma PGNUM_eq: "PGNUM pa = unat pa div 4096"
  by (simp add: PGNUM_def unat_drop_bit_eq drop_bit_eq_div unat_div)

lemma unat_page2pa: "f < 2 ^ 20 \<Longrightarrow> unat (page2pa f) = f * 4096"
  unfolding page2pa_def push_bit_eq_mult
  by (simp add: unat_word_ariths unat_of_nat take_bit_eq_mod)

lemma PGNUM_page2pa [simp]: "f < 2 ^ 20 \<Longrightarrow> PGNUM (page2pa f) = f"
  by (simp only: PGNUM_eq unat_page2pa)

lemma PGNUM_or: "PGNUM (a OR b) = PGNUM a OR PGNUM b"
  by (simp add: PGNUM_def drop_bit_or unsigned_or_eq)

lemma PGNUM_lt: "PGNUM pa < 2 ^ 20"
  using unsigned_less [of pa, where ?'a = nat] by (simp add: PGNUM_eq)

lemma PGNUM_PTE_ADDR [simp]: "PGNUM (PTE_ADDR p) = PGNUM p"
proof -
  have "drop_bit 12 (PTE_ADDR p) = drop_bit 12 p"
    unfolding PTE_ADDR_def mask12 by (rule bit_word_eqI) (auto simp: bit_simps dest: bit_imp_le_length)
  then show ?thesis by (simp add: PGNUM_def)
qed

text \<open>Bits that fit in the low twelve, as the permissions of an entry do.\<close>

definition bajos :: "32 word \<Rightarrow> bool" where "bajos p \<longleftrightarrow> p AND 0xFFF = p"

lemma bajos_or: "bajos p \<Longrightarrow> bajos q \<Longrightarrow> bajos (p OR q)"
  by (simp add: bajos_def word_bw_comms word_ao_dist)

lemma bajos_permisos: "bajos PTE_P" "bajos PTE_W" "bajos PTE_U"
  by (simp_all add: bajos_def permisos)

lemma PGNUM_bajos: "bajos p \<Longrightarrow> PGNUM p = 0"
  using unat_and_le [of p "0xFFF"] by (simp add: bajos_def PGNUM_eq)

lemma PGNUM_entrada: "f < 2 ^ 20 \<Longrightarrow> bajos p \<Longrightarrow> PGNUM (page2pa f OR p) = f"
  by (simp only: PGNUM_or PGNUM_page2pa PGNUM_bajos or.right_neutral)

lemma page2pa_bajos [simp]: "page2pa f AND 0xFFF = 0"
  unfolding page2pa_def mask12 by (rule bit_word_eqI) (auto simp: bit_simps)

end
