(* ===== verification/Kern_Pmap.thy ===== *)
theory Kern_Pmap
  imports Kern_Mmu
begin

text \<open>
  Physical pages and page tables (\<open>sched/kern/pmap.c\<close>): the boot allocator, the free list, the
  two-level page tables, and the check of user memory. A loop whose counter goes up by a page from
  \<open>lo\<close> while it is below \<open>hi\<close> is the list \<open>paginas lo hi\<close> of the values it takes; in each such loop
  \<open>hi\<close> is at most \<open>0xFFFFF000\<close>, so the counter does not wrap.
\<close>

section \<open>Boot\<close>

text \<open>\<open>rd\<close> is what the real-time clock's memory (\<open>mc146818_read\<close>) answers.\<close>

definition nvram_read :: "(nat \<Rightarrow> 32 word) \<Rightarrow> nat \<Rightarrow> 32 word" where
  "nvram_read rd r = rd r OR push_bit 8 (rd (r + 1))"

definition i386_detect_memory :: "(nat \<Rightarrow> 32 word) \<Rightarrow> nat \<times> nat" where
  "i386_detect_memory rd =
     (let basemem = nvram_read rd 0x15; extmem = nvram_read rd 0x17;
          ext16mem = nvram_read rd 0x34 * 64;
          totalmem = (if ext16mem \<noteq> 0 then 16 * 1024 + ext16mem
                      else if extmem \<noteq> 0 then 1 * 1024 + extmem else basemem)
      in (unat (totalmem div (PGSIZE div 1024)), unat (basemem div (PGSIZE div 1024))))"

definition paddr :: "32 word \<Rightarrow> 32 word kern" where
  "paddr kva s =
     (if kva < KERNBASE then Inl (Panico ''PADDR called with invalid kva'')
      else Inr (kva - KERNBASE, s))"

text \<open>\<open>kend\<close> is the linker's symbol \<open>end\<close>.\<close>

definition boot_alloc :: "32 word \<Rightarrow> 32 word \<Rightarrow> 32 word kern" where
  "boot_alloc kend n s =
     (let nf = (if nextfree s = 0 then ROUNDUP kend PGSIZE else nextfree s)
      in and_then (paddr (nf + n) (s\<lparr>nextfree := nf\<rparr>)) (\<lambda>(last, s).
           if last \<ge> PGSIZE * of_nat (npages s)
           then Inl (Panico ''boot_alloc: Not enough memory'')
           else and_then (kaddr last s) (\<lambda>(_, s).
             Inr (nf, s\<lparr>nextfree := ROUNDUP (last + KERNBASE) PGSIZE\<rparr>))))"

text \<open>One turn of the loop of \<open>page_init\<close>, and the loop from page \<open>i\<close> on.\<close>

definition page_init_uno :: "32 word \<Rightarrow> nat \<Rightarrow> unit kern" where
  "page_init_uno kend i s =
     (let s = upd_page i (pp_link_update (\<lambda>_. None)) s;
          libre = (\<lambda>s. Inr ((), upd_page i (\<lambda>p. p\<lparr>pp_link := page_free_list s, pp_ref := 0\<rparr>) s
                                  \<lparr>page_free_list := Some i\<rparr>))
      in if i = 0 then Inr ((), s)
         else if PGNUM MPENTRY_PADDR = i then Inr ((), s)
         else if PGNUM IOPHYSMEM \<le> i \<and> i < PGNUM EXTPHYSMEM then Inr ((), s)
         else if PGNUM EXTPHYSMEM \<le> i then
           and_then (boot_alloc kend 0 s) (\<lambda>(va, s).
           and_then (paddr va s) (\<lambda>(pa, s).
             if i < PGNUM pa then Inr ((), s) else libre s))
         else libre s)"

fun recorre :: "('a \<Rightarrow> unit kern) \<Rightarrow> 'a list \<Rightarrow> unit kern" where
  "recorre f [] s = Inr ((), s)"
| "recorre f (x # xs) s = and_then (f x s) (\<lambda>(_, s). recorre f xs s)"

definition page_init :: "32 word \<Rightarrow> unit kern" where
  "page_init kend s = recorre (page_init_uno kend) [0..<npages s] s"


section \<open>The free list\<close>

definition page_alloc :: "bool \<Rightarrow> nat option kern" where
  "page_alloc zero s =
     (case page_free_list s of
        None \<Rightarrow> Inr (None, s)
      | Some pp \<Rightarrow>
          let s = s\<lparr>page_free_list := pp_link (pages s ! pp)\<rparr>;
              s = upd_page pp (pp_link_update (\<lambda>_. None)) s
          in if zero then and_then (page2kva pp s) (\<lambda>(f, s). Inr (Some pp, memset0 f s))
             else Inr (Some pp, s))"

definition page_free :: "nat \<Rightarrow> unit kern" where
  "page_free pp s =
     (if pp_ref (pages s ! pp) \<noteq> 0 then Inl (Panico ''page_free: pp_ref is nonzero'')
      else if pp_link (pages s ! pp) \<noteq> None then Inl (Panico ''page_free: pp_link is not NULL'')
      else Inr ((), upd_page pp (pp_link_update (\<lambda>_. page_free_list s)) s
                      \<lparr>page_free_list := Some pp\<rparr>))"

definition page_decref :: "nat \<Rightarrow> unit kern" where
  "page_decref pp s =
     (let s = upd_page pp (pp_ref_update (\<lambda>r. r - 1)) s
      in if pp_ref (pages s ! pp) = 0 then page_free pp s else Inr ((), s))"


section \<open>Page tables\<close>

definition pgdir_walk :: "nat \<Rightarrow> 32 word \<Rightarrow> bool \<Rightarrow> (nat \<times> nat) option kern" where
  "pgdir_walk pd va create s =
     (let pdx = PDX va
      in and_then
           (if peek s (pd, pdx) = 0 \<and> create then
              and_then (page_alloc True s) (\<lambda>(page, s).
                case page of
                  None \<Rightarrow> Inr ((), s)
                | Some pp \<Rightarrow>
                    Inr ((), poke (pd, pdx) (page2pa pp OR PTE_P OR PTE_W OR PTE_U)
                               (upd_page pp (pp_ref_update (\<lambda>r. r + 1)) s)))
            else Inr ((), s)) (\<lambda>(_, s).
         if peek s (pd, pdx) \<noteq> 0 then
           and_then (kaddr (PTE_ADDR (peek s (pd, pdx))) s) (\<lambda>(pt, s). Inr (Some (pt, PTX va), s))
         else Inr (None, s)))"

text \<open>The answer of \<open>page_lookup\<close> is the page and the entry stored through \<open>pte_store\<close>.\<close>

definition page_lookup :: "nat \<Rightarrow> 32 word \<Rightarrow> (nat \<times> nat \<times> nat) option kern" where
  "page_lookup pd va s =
     and_then (pgdir_walk pd va False s) (\<lambda>(pte, s).
       case pte of
         None \<Rightarrow> Inr (None, s)
       | Some q \<Rightarrow>
           if \<not> (peek s q \<noteq> 0 \<and> PTE_P \<noteq> 0) then Inr (None, s)
           else and_then (pa2page (PTE_ADDR (peek s q)) s) (\<lambda>(pp, s). Inr (Some (pp, q), s)))"

definition tlb_invalidate :: "nat \<Rightarrow> 32 word \<Rightarrow> kst \<Rightarrow> kst" where
  "tlb_invalidate pd va s =
     (if curenv s = None \<or> env_pgdir (envs s ! the (curenv s)) = Some pd
      then s\<lparr>invlpg := invlpg s @ [va]\<rparr> else s)"

definition page_remove :: "nat \<Rightarrow> 32 word \<Rightarrow> unit kern" where
  "page_remove pd va s =
     and_then (pgdir_walk pd va False s) (\<lambda>(pte, s).
     and_then (page_lookup pd va s) (\<lambda>(r, s).
       let pte = (case r of Some (_, q) \<Rightarrow> Some q | None \<Rightarrow> pte)
       in case pte of
            None \<Rightarrow> Inr ((), s)
          | Some q \<Rightarrow>
              if \<not> (peek s q \<noteq> 0 \<and> PTE_P \<noteq> 0) then Inr ((), s)
              else case r of
                     None \<Rightarrow> Inl Indefinido
                   | Some (pp, _) \<Rightarrow>
                       and_then (page_decref pp s) (\<lambda>(_, s).
                         Inr ((), tlb_invalidate pd va (poke q 0 s)))))"

definition page_insert :: "nat \<Rightarrow> nat \<Rightarrow> 32 word \<Rightarrow> 32 word \<Rightarrow> int kern" where
  "page_insert pd pp va perm s =
     and_then (pgdir_walk pd va True s) (\<lambda>(pte, s).
       case pte of
         None \<Rightarrow> Inr (- E_NO_MEM, s)
       | Some q \<Rightarrow>
           and_then (page_remove pd va (upd_page pp (pp_ref_update (\<lambda>r. r + 1)) s)) (\<lambda>(_, s).
             Inr (0, poke q (page2pa pp OR perm OR PTE_P) s)))"

definition paginas :: "32 word \<Rightarrow> 32 word \<Rightarrow> 32 word list" where
  "paginas lo hi =
     map (\<lambda>k. lo + of_nat k * PGSIZE) [0..<(unat hi - unat lo + 4095) div 4096]"

text \<open>The build leaves \<open>TP1_PSE\<close> undefined.\<close>

definition boot_map_region :: "nat \<Rightarrow> 32 word \<Rightarrow> 32 word \<Rightarrow> 32 word \<Rightarrow> 32 word \<Rightarrow> unit kern" where
  "boot_map_region pgdir va sz pa perm s =
     recorre (\<lambda>i s.
       and_then (pgdir_walk pgdir (va + i) True s) (\<lambda>(pte, s).
       and_then (page_remove pgdir (va + i) s) (\<lambda>(_, s).
         case pte of
           None \<Rightarrow> Inl Indefinido
         | Some q \<Rightarrow> Inr ((), poke q ((pa + i) OR perm OR PTE_P) s)))) (paginas 0 sz) s"

text \<open>\<open>percpu_kstacks\<close> gives the physical address of each stack; \<open>KSTKSIZE\<close> and \<open>KSTKGAP\<close>
  are eight pages each, \<open>NCPU\<close> is 8.\<close>

definition mem_init_mp :: "(nat \<Rightarrow> 32 word) \<Rightarrow> unit kern" where
  "mem_init_mp percpu_kstacks s =
     recorre (\<lambda>i s. boot_map_region (kern_pgdir s)
                      (KSTACKTOP - of_nat i * (8 * PGSIZE + 8 * PGSIZE) - 8 * PGSIZE)
                      (8 * PGSIZE) (percpu_kstacks i) (PTE_W OR PTE_P) s) [0..<8] s"

definition mmio_map_region :: "32 word \<Rightarrow> 32 word \<Rightarrow> 32 word kern" where
  "mmio_map_region pa sz s =
     (let pa = ROUNDDOWN pa PGSIZE; sz = ROUNDUP sz PGSIZE
      in if mmio_base s + sz \<ge> MMIOLIM then Inl (Panico ''mmio_map_region: MMIOLIMIT overflow'')
         else and_then (boot_map_region (kern_pgdir s) (mmio_base s) sz pa
                          (PTE_W OR PTE_P OR PTE_PCD OR PTE_PWT) s) (\<lambda>(_, s).
           let s = s\<lparr>mmio_base := mmio_base s + sz\<rparr> in Inr (mmio_base s - sz, s)))"


section \<open>User memory\<close>

text \<open>\<open>env->env_pgdir\<close> used as a page directory.\<close>

definition con_pgdir :: "nat \<Rightarrow> (nat \<Rightarrow> 'a kern) \<Rightarrow> 'a kern" where
  "con_pgdir e f s = (case env_pgdir (envs s ! e) of None \<Rightarrow> Inl Indefinido | Some pd \<Rightarrow> f pd s)"

fun user_mem_bucle :: "nat \<Rightarrow> 32 word \<Rightarrow> 32 word \<Rightarrow> 32 word list \<Rightarrow> int kern" where
  "user_mem_bucle e va_lo perm [] s = Inr (0, s)"
| "user_mem_bucle e va_lo perm (va_act # vs) s =
     and_then (con_pgdir e (\<lambda>pd. pgdir_walk pd va_act False) s) (\<lambda>(pte, s).
       if pte = None \<or> peek s (the pte) AND (perm OR PTE_P) \<noteq> perm OR PTE_P
       then Inr (- E_FAULT, s\<lparr>user_mem_check_addr := (if va_act > va_lo then va_act else va_lo)\<rparr>)
       else user_mem_bucle e va_lo perm vs s)"

definition user_mem_check :: "nat \<Rightarrow> 32 word \<Rightarrow> 32 word \<Rightarrow> 32 word \<Rightarrow> int kern" where
  "user_mem_check e va len perm s =
     (let va_lo = va; va_hi = ROUNDUP (va + len) PGSIZE
      in if va_hi > UTOP then Inr (- E_FAULT, s\<lparr>user_mem_check_addr := va_lo\<rparr>)
         else user_mem_bucle e va_lo perm (paginas (ROUNDDOWN va_lo PGSIZE) va_hi) s)"

end
