(* ===== verification/Kern_Lista.thy ===== *)
theory Kern_Lista
  imports Kern_Pmap
begin

text \<open>
  The free list of physical pages. \<open>libres_ok s xs\<close> says that the links from \<open>page_free_list\<close> go
  through the pages \<open>xs\<close>, each once, that these have no references, and that no other page has a
  link. The interface \<open>reserva\<close> is what the code that takes and returns pages relies on.
\<close>

section \<open>Linked lists of pages\<close>

lemma nth_upd: "(ps[i := v]) ! j = (if i = j \<and> i < length ps then v else ps ! j)"
  by (cases "i < length ps") (auto simp: nth_list_update list_update_beyond)

fun cadena_pp :: "page_info list \<Rightarrow> nat option \<Rightarrow> nat list \<Rightarrow> bool" where
  "cadena_pp ps p [] \<longleftrightarrow> p = None"
| "cadena_pp ps p (x # xs) \<longleftrightarrow> p = Some x \<and> x < length ps \<and> cadena_pp ps (pp_link (ps ! x)) xs"

lemma cadena_None [simp]: "cadena_pp ps None xs \<longleftrightarrow> xs = []"
  by (cases xs) auto

lemma cadena_Some: "cadena_pp ps (Some x) xs \<longleftrightarrow>
    (\<exists>ys. xs = x # ys \<and> x < length ps \<and> cadena_pp ps (pp_link (ps ! x)) ys)"
  by (cases xs) auto

lemma cadena_unica: "cadena_pp ps p xs \<Longrightarrow> cadena_pp ps p ys \<Longrightarrow> xs = ys"
proof (induction xs arbitrary: p ys)
  case (Cons x xs)
  then show ?case by (cases ys) auto
qed simp

lemma cadena_otra:
  "cadena_pp ps p xs \<Longrightarrow> a \<notin> set xs \<Longrightarrow> cadena_pp (ps[a := v]) p xs"
  by (induction xs arbitrary: p) auto

lemma cadena_cola: "cadena_pp ps p (as @ x # bs) \<Longrightarrow> cadena_pp ps (Some x) (x # bs)"
  by (induction as arbitrary: p) auto

lemma cadena_distinct: "cadena_pp ps p xs \<Longrightarrow> distinct xs"
proof (induction xs arbitrary: p)
  case (Cons x xs)
  have "x \<notin> set xs"
  proof
    assume "x \<in> set xs"
    then obtain as bs where xs: "xs = as @ x # bs" by (meson split_list)
    with Cons.prems have "cadena_pp ps (Some x) (x # bs)" by (auto dest: cadena_cola)
    with Cons.prems have "x # xs = x # bs" by (auto dest: cadena_unica)
    then show False using xs by simp
  qed
  with Cons show ?case by auto
qed simp

lemma cadena_lt: "cadena_pp ps p xs \<Longrightarrow> x \<in> set xs \<Longrightarrow> x < length ps"
  by (induction xs arbitrary: p) auto

lemma cadena_links: "cadena_pp ps p xs \<Longrightarrow> x \<in> set xs \<Longrightarrow>
    pp_link (ps ! x) = None \<longleftrightarrow> x = last xs"
proof (induction xs arbitrary: p)
  case (Cons y xs)
  then have dist: "distinct (y # xs)" by (blast intro: cadena_distinct)
  show ?case
  proof (cases xs)
    case (Cons z zs)
    with dist \<open>x \<in> set (y # xs)\<close> Cons.IH Cons.prems show ?thesis by auto
  qed (use Cons.prems in simp)
qed simp

text \<open>Only the links matter.\<close>

lemma cadena_cong:
  "cadena_pp ps p xs \<Longrightarrow> length qs = length ps \<Longrightarrow>
   (\<And>i. i \<in> set xs \<Longrightarrow> pp_link (qs ! i) = pp_link (ps ! i)) \<Longrightarrow> cadena_pp qs p xs"
  by (induction xs arbitrary: p) auto


section \<open>The free list\<close>

definition libres_ok :: "kst \<Rightarrow> nat list \<Rightarrow> bool" where
  "libres_ok s xs \<longleftrightarrow>
     cadena_pp (pages s) (page_free_list s) xs \<and> length (pages s) = npages s \<and> npages s \<le> 2 ^ 20 \<and>
     (\<forall>i<npages s. i \<notin> set xs \<longrightarrow> pp_link (pages s ! i) = None) \<and>
     (\<forall>i\<in>set xs. pp_ref (pages s ! i) = 0)"

lemma libres_okD:
  assumes "libres_ok s xs"
  shows "cadena_pp (pages s) (page_free_list s) xs" "length (pages s) = npages s"
    "npages s \<le> 2 ^ 20" "distinct xs"
    "\<And>i. i < npages s \<Longrightarrow> i \<notin> set xs \<Longrightarrow> pp_link (pages s ! i) = None"
    "\<And>i. i \<in> set xs \<Longrightarrow> pp_ref (pages s ! i) = 0"
    "\<And>i. i \<in> set xs \<Longrightarrow> i < npages s"
  using assms by (auto simp: libres_ok_def dest: cadena_lt cadena_distinct)

text \<open>What a taken page leaves.\<close>

definition sin_primera :: "nat \<Rightarrow> kst \<Rightarrow> kst" where
  "sin_primera x s =
     upd_page x (pp_link_update (\<lambda>_. None)) (s\<lparr>page_free_list := pp_link (pages s ! x)\<rparr>)"

lemma libres_sin_primera:
  assumes "libres_ok s (x # xs)"
  shows "libres_ok (sin_primera x s) xs"
  using assms libres_okD(4) [OF assms]
  by (auto simp: libres_ok_def sin_primera_def upd_page_def nth_upd intro: cadena_otra)

lemma page_alloc_vacia: "libres_ok s [] \<Longrightarrow> page_alloc z s = Inr (None, s)"
  by (simp add: page_alloc_def libres_ok_def)

lemma page_alloc_primera:
  assumes "libres_ok s (x # xs)"
  shows "page_alloc z s =
    Inr (Some x, if z then memset0 x (sin_primera x s) else sin_primera x s)"
proof -
  have "x < 2 ^ 20" "x < npages s" "page_free_list s = Some x"
    using libres_okD [OF assms] by (auto dest: order_less_le_trans)
  then show ?thesis
    by (simp add: page_alloc_def sin_primera_def page2kva_def kaddr_def upd_page_def Let_def)
qed

lemma libres_memset0 [simp]: "libres_ok (memset0 f s) xs = libres_ok s xs"
  and libres_poke [simp]: "libres_ok (poke q v s) xs = libres_ok s xs"
  by (simp_all add: libres_ok_def memset0_def poke_def)

text \<open>Changing the reference count of a page that is not free.\<close>

lemma libres_ref:
  assumes "libres_ok s xs" and "p \<notin> set xs"
  shows "libres_ok (upd_page p (pp_ref_update g) s) xs"
  using assms
  by (auto simp: libres_ok_def upd_page_def nth_upd intro: cadena_otra)

definition devuelta :: "nat \<Rightarrow> kst \<Rightarrow> kst" where
  "devuelta p s = upd_page p (pp_link_update (\<lambda>_. page_free_list s)) s\<lparr>page_free_list := Some p\<rparr>"

lemma page_free_ok:
  assumes "libres_ok s xs" and "p < npages s" and "p \<notin> set xs" and "pp_ref (pages s ! p) = 0"
  shows "page_free p s = Inr ((), devuelta p s)" and "libres_ok (devuelta p s) (p # xs)"
  using assms libres_okD(5) [OF assms(1), of p]
  by (auto simp: page_free_def devuelta_def libres_ok_def upd_page_def nth_upd
      intro: cadena_otra)


section \<open>Starting the free list\<close>

text \<open>The pages \<open>page_init\<close> frees when the kernel's own data ends at page \<open>k\<close>.\<close>

definition pagina_libre :: "nat \<Rightarrow> nat \<Rightarrow> bool" where
  "pagina_libre k i \<longleftrightarrow> i \<noteq> 0 \<and> i \<noteq> 7 \<and> \<not> (160 \<le> i \<and> i < 256) \<and> \<not> (256 \<le> i \<and> i < k)"

lemma limites: "PGNUM MPENTRY_PADDR = 7" "PGNUM IOPHYSMEM = 160" "PGNUM EXTPHYSMEM = 256"
  by (simp_all add: PGNUM_eq MPENTRY_PADDR_def IOPHYSMEM_def EXTPHYSMEM_def)

lemma unat_ROUNDDOWN: "unat (ROUNDDOWN a PGSIZE) = unat a div 4096 * 4096"
proof -
  have "unat (a mod PGSIZE) = unat a mod 4096" by (simp add: unat_mod PGSIZE_def)
  moreover have "a mod PGSIZE \<le> a" by (simp add: word_le_nat_alt unat_mod)
  ultimately have "unat (ROUNDDOWN a PGSIZE) = unat a - unat a mod 4096"
    unfolding ROUNDDOWN_def by (metis unat_sub)
  then show ?thesis by (simp only: minus_mod_eq_div_mult)
qed

lemma unat_ROUNDUP:
  assumes "unat a + 4095 < 2 ^ 32"
  shows "unat (ROUNDUP a PGSIZE) = (unat a + 4095) div 4096 * 4096"
proof -
  have "a + PGSIZE - 1 = a + 4095" by (simp add: PGSIZE_def)
  moreover have "unat (a + 4095) = unat a + 4095"
    using assms unat_add_lem [of a "4095 :: 32 word"] by simp
  ultimately have "unat (a + PGSIZE - 1) = unat a + 4095" by (simp only:)
  then show ?thesis by (simp add: ROUNDUP_def unat_ROUNDDOWN)
qed

lemma boot_alloc_0:
  assumes k: "0 < k" "k < npages s" "npages s \<le> 2 ^ 16" and nf: "nextfree s = KERNBASE + page2pa k"
  shows "boot_alloc kend 0 s = Inr (nextfree s, s)" and "paddr (nextfree s) s = Inr (page2pa k, s)"
proof -
  have k20: "k < 2 ^ 20" using k by simp
  have u: "unat (nextfree s) = 0xF0000000 + k * 4096"
    using unat_page2pa [OF k20] k unat_add_lem [of KERNBASE "page2pa k"]
    by (simp add: nf KERNBASE_def)
  have ge: "\<not> nextfree s < KERNBASE" and nz: "nextfree s \<noteq> 0"
    using u by (auto simp: word_less_nat_alt KERNBASE_def)
  show pa: "paddr (nextfree s) s = Inr (page2pa k, s)"
    using ge by (simp add: paddr_def nf)
  have "unat (PGSIZE * of_nat (npages s)) = 4096 * npages s"
    using k(3) by (simp add: PGSIZE_def unat_word_ariths unat_of_nat take_bit_eq_mod)
  then have lt: "\<not> PGSIZE * of_nat (npages s) \<le> page2pa k"
    using k unat_page2pa [OF k20] by (simp add: word_le_nat_alt)
  have "unat (ROUNDUP (nextfree s) PGSIZE) = unat (nextfree s)"
    using u k by (subst unat_ROUNDUP) auto
  then have ru: "ROUNDUP (page2pa k + KERNBASE) PGSIZE = nextfree s"
    by (simp add: nf add.commute word_unat_eq_iff)
  have ka: "kaddr (page2pa k) s = Inr (k, s)"
    using k k20 by (simp add: kaddr_def)
  have same: "s\<lparr>nextfree := nextfree s\<rparr> = s" by simp
  show "boot_alloc kend 0 s = Inr (nextfree s, s)"
    using nz pa lt ru ka by (simp add: boot_alloc_def Let_def)
qed

lemma page_init_uno_ok:
  assumes ok: "libres_ok s xs" and i: "i < npages s" "i \<notin> set xs" "pp_ref (pages s ! i) = 0"
    and k: "0 < k" "k < npages s" "npages s \<le> 2 ^ 16" and nf: "nextfree s = KERNBASE + page2pa k"
  shows "page_init_uno kend i s = Inr ((), if pagina_libre k i then devuelta i s else s)"
proof -
  note D = libres_okD [OF ok] and B = boot_alloc_0 [OF k nf]
  have link: "pp_link (pages s ! i) = None" using D(5) i by simp
  have k20: "k < 2 ^ 20" using k by simp
  have 1: "upd_page i (pp_link_update (\<lambda>_. None)) s = s"
    using link D(2) i(1) by (cases "pages s ! i") (simp add: upd_page_def list_update_same_conv)
  have 2: "upd_page i (\<lambda>p. p\<lparr>pp_link := page_free_list s, pp_ref := 0\<rparr>) s\<lparr>page_free_list := Some i\<rparr> =
      devuelta i s"
    using i(3) by (cases "pages s ! i") (simp add: devuelta_def upd_page_def)
  show ?thesis
    using PGNUM_page2pa [OF k20] by (auto simp: page_init_uno_def 1 2 limites B pagina_libre_def)
qed

lemma recorre_append:
  "recorre f (xs @ ys) s = and_then (recorre f xs s) (\<lambda>(_, s). recorre f ys s)"
proof (induction xs arbitrary: s)
  case (Cons x xs)
  show ?case by (cases "f x s") (auto simp: Cons.IH)
qed auto

lemma page_init_hasta:
  assumes ok: "libres_ok s []" and refs: "\<forall>i<npages s. pp_ref (pages s ! i) = 0"
    and k: "0 < k" "k < npages s" "npages s \<le> 2 ^ 16" and nf: "nextfree s = KERNBASE + page2pa k"
  shows "n \<le> npages s \<Longrightarrow> \<exists>t. recorre (page_init_uno kend) [0..<n] s = Inr ((), t) \<and>
    libres_ok t (rev (filter (pagina_libre k) [0..<n])) \<and> npages t = npages s \<and>
    nextfree t = nextfree s \<and> (\<forall>i<npages s. pp_ref (pages t ! i) = 0)"
proof (induction n)
  case 0
  then show ?case using ok refs by simp
next
  case (Suc n)
  then obtain t where t: "recorre (page_init_uno kend) [0..<n] s = Inr ((), t)"
    "libres_ok t (rev (filter (pagina_libre k) [0..<n]))" "npages t = npages s"
    "nextfree t = nextfree s" "\<forall>i<npages s. pp_ref (pages t ! i) = 0"
    by auto
  have uno: "page_init_uno kend n t = Inr ((), if pagina_libre k n then devuelta n t else t)"
    using page_init_uno_ok [OF t(2), of n k kend] t Suc.prems k nf by simp
  have lib: "libres_ok (devuelta n t) (n # rev (filter (pagina_libre k) [0..<n]))"
    using page_free_ok(2) [OF t(2), of n] t Suc.prems by simp
  show ?case
    using t uno lib by (auto simp: recorre_append devuelta_def upd_page_def nth_upd)
qed


section \<open>The interface of a pool\<close>

fun pide_n :: "('s \<Rightarrow> 'e + 'p option \<times> 's) \<Rightarrow> nat \<Rightarrow> 's \<Rightarrow> 'e + 'p list \<times> 's" where
  "pide_n pide 0 s = Inr ([], s)"
| "pide_n pide (Suc n) s =
     and_then (pide s) (\<lambda>(r, s).
       case r of
         None \<Rightarrow> Inr ([], s)
       | Some p \<Rightarrow> and_then (pide_n pide n s) (\<lambda>(ps, s). Inr (p # ps, s)))"

locale reserva =
  fixes pide :: "'s \<Rightarrow> 'e + 'p option \<times> 's" and devuelve :: "'p \<Rightarrow> 's \<Rightarrow> 'e + unit \<times> 's"
    and rep :: "'s \<Rightarrow> 'p list \<Rightarrow> bool" and suelta :: "'p \<Rightarrow> 's \<Rightarrow> bool"
  assumes rep_distinct: "rep s xs \<Longrightarrow> distinct xs"
    and pide_vacia: "rep s [] \<Longrightarrow> pide s = Inr (None, s)"
    and pide_primera: "rep s (x # xs) \<Longrightarrow> \<exists>t. pide s = Inr (Some x, t) \<and> rep t xs \<and> suelta x t"
    and devuelve_ok: "rep s xs \<Longrightarrow> p \<notin> set xs \<Longrightarrow> suelta p s \<Longrightarrow>
      \<exists>t. devuelve p s = Inr ((), t) \<and> rep t (p # xs)"
begin

lemma pide_n_toma:
  "rep s xs \<Longrightarrow> \<exists>t. pide_n pide n s = Inr (take n xs, t) \<and> rep t (drop n xs)"
proof (induction n arbitrary: s xs)
  case (Suc n)
  show ?case
  proof (cases xs)
    case Nil
    with Suc.prems show ?thesis by (simp add: pide_vacia)
  next
    case (Cons x ys)
    with Suc.prems obtain t where t: "pide s = Inr (Some x, t)" "rep t ys"
      using pide_primera by blast
    from Suc.IH [OF t(2)] obtain u where "pide_n pide n t = Inr (take n ys, u)" "rep u (drop n ys)"
      by blast
    with t(1) Cons show ?thesis by simp
  qed
qed simp

lemma pide_y_devuelve:
  assumes "rep s (x # xs)"
  shows "\<exists>t u. pide s = Inr (Some x, t) \<and> devuelve x t = Inr ((), u) \<and> rep u (x # xs)"
proof -
  obtain t where t: "pide s = Inr (Some x, t)" "rep t xs" "suelta x t"
    using pide_primera [OF assms] by blast
  moreover have "x \<notin> set xs" using rep_distinct [OF assms] by simp
  ultimately show ?thesis using devuelve_ok by blast
qed

end

lemma suelta_primera:
  "libres_ok s (x # xs) \<Longrightarrow>
   x < npages (sin_primera x s) \<and> pp_ref (pages (sin_primera x s) ! x) = 0"
  using libres_okD(2,6,7) [of s "x # xs"] by (auto simp: sin_primera_def upd_page_def)

interpretation lp: reserva "page_alloc z" page_free libres_ok
  "\<lambda>p s. p < npages s \<and> pp_ref (pages s ! p) = 0" for z
proof (unfold_locales, goal_cases)
  case (3 s x xs)
  then show ?case
    using page_alloc_primera [OF 3] libres_sin_primera [OF 3] suelta_primera [OF 3]
    by (auto simp: memset0_def libres_ok_def)
next
  case (4 s xs p)
  then show ?case using page_free_ok by blast
qed (auto simp: page_alloc_vacia dest: libres_okD(4))

end
