(* ===== verification/Kern_Vm.thy ===== *)
theory Kern_Vm
  imports Kern_Lista
begin

text \<open>
  Address spaces. For a finite set \<open>P\<close> of page directories, a slot is a directory of \<open>P\<close>, an index
  below that of \<open>UTOP\<close> and an index in the table; \<open>ent s r\<close> is the entry in it, 0 when the table is
  missing. \<open>vm_ok s P xs\<close> keeps directories, tables, mapped pages and the free list \<open>xs\<close> apart, no
  table shared, and every page with at least as many references as slots that map it. The section
  on each operation says what it does to \<open>ent\<close>.
\<close>

section \<open>Slots and the invariant\<close>

definition NU :: nat where "NU = PDX UTOP"

definition ent :: "kst \<Rightarrow> nat \<times> nat \<times> nat \<Rightarrow> 32 word" where
  "ent s r = (case r of (pd, d, t) \<Rightarrow>
     if mem s pd d = 0 then 0 else mem s (PGNUM (mem s pd d)) t)"

definition ranuras :: "nat set \<Rightarrow> (nat \<times> nat \<times> nat) set" where
  "ranuras P = P \<times> {..<NU} \<times> {..<1024}"

text \<open>The directory entries in use, and the tables.\<close>

definition pdes :: "kst \<Rightarrow> nat set \<Rightarrow> (nat \<times> nat) set" where
  "pdes s P = {(pd, d). pd \<in> P \<and> d < NU \<and> mem s pd d \<noteq> 0}"

definition tabla_en :: "kst \<Rightarrow> nat \<times> nat \<Rightarrow> nat" where
  "tabla_en s q = PGNUM (mem s (fst q) (snd q))"

definition usos :: "kst \<Rightarrow> nat set \<Rightarrow> nat \<Rightarrow> (nat \<times> nat \<times> nat) set" where
  "usos s P f = {r \<in> ranuras P. ent s r \<noteq> 0 \<and> PGNUM (ent s r) = f}"

definition vm_ok :: "kst \<Rightarrow> nat set \<Rightarrow> nat list \<Rightarrow> bool" where
  "vm_ok s P xs \<longleftrightarrow>
     libres_ok s xs \<and> finite P \<and> P \<subseteq> {..<npages s} - set xs \<and>
     tabla_en s ` pdes s P \<subseteq> {..<npages s} - set xs - P \<and> inj_on (tabla_en s) (pdes s P) \<and>
     (\<forall>r\<in>ranuras P. ent s r \<noteq> 0 \<longrightarrow>
        PGNUM (ent s r) \<in> {..<npages s} - set xs - P - tabla_en s ` pdes s P) \<and>
     (\<forall>f<npages s. card (usos s P f) \<le> unat (pp_ref (pages s ! f)))"

lemma vm_okD:
  assumes "vm_ok s P xs"
  shows "libres_ok s xs" "finite P" "P \<subseteq> {..<npages s} - set xs"
    "tabla_en s ` pdes s P \<subseteq> {..<npages s} - set xs - P" "inj_on (tabla_en s) (pdes s P)"
    "\<And>r. r \<in> ranuras P \<Longrightarrow> ent s r \<noteq> 0 \<Longrightarrow>
       PGNUM (ent s r) \<in> {..<npages s} - set xs - P - tabla_en s ` pdes s P"
    "\<And>f. f < npages s \<Longrightarrow> card (usos s P f) \<le> unat (pp_ref (pages s ! f))"
  using assms by (auto simp: vm_ok_def)

text \<open>The slot of an address.\<close>

definition ranura_va :: "nat \<Rightarrow> 32 word \<Rightarrow> nat \<times> nat \<times> nat" where
  "ranura_va pd va = (pd, PDX va, PTX va)"

lemma ranura_in: "pd \<in> P \<Longrightarrow> PDX va < NU \<Longrightarrow> ranura_va pd va \<in> ranuras P"
  by (simp add: ranura_va_def ranuras_def)

lemma finite_ranuras: "finite P \<Longrightarrow> finite (ranuras P)"
  by (simp add: ranuras_def)

lemma finite_usos: "finite P \<Longrightarrow> finite (usos s P f)"
  by (rule finite_subset [OF _ finite_ranuras]) (auto simp: usos_def)

lemma NU_val: "NU = 955"
  by (simp add: NU_def PDX_def UTOP_val)

lemma and_3FF: "unat (w AND 0x3FF :: 32 word) = unat w mod 1024"
proof -
  have "w AND 0x3FF = take_bit 10 w"
    by (simp add: take_bit_eq_mask mask_eq_exp_minus_1)
  then show ?thesis by (simp add: unsigned_take_bit_eq take_bit_eq_mod unat_mod)
qed

lemma unat_desplaza: "unat (drop_bit n (w :: 32 word)) = unat w div 2 ^ n"
  unfolding unat_drop_bit_eq by (rule drop_bit_eq_div)

lemma PDX_div: "PDX va = unat va div 2 ^ 22"
  using unsigned_less [of va, where ?'a = nat]
  unfolding PDX_def and_3FF unat_desplaza by simp

lemma PTX_div: "PTX va = unat va div 4096 mod 1024"
  unfolding PTX_def and_3FF unat_desplaza by simp

lemma PDX_user: "va < UTOP \<Longrightarrow> PDX va < NU"
  by (simp add: PDX_div NU_val UTOP_val word_less_nat_alt less_mult_imp_div_less)

lemma PGNUM_PDX_PTX: "PGNUM va = PDX va * 1024 + PTX va"
proof -
  have "unat va div 2 ^ 22 = unat va div 4096 div 1024"
    by (simp add: div_mult2_eq [symmetric])
  then show ?thesis by (simp add: PDX_div PTX_div PGNUM_eq)
qed

lemma PDX_PGNUM: "PDX va = PGNUM va div 1024" and PTX_PGNUM: "PTX va = PGNUM va mod 1024"
  using PTX_lt [of va] by (simp_all add: PGNUM_PDX_PTX div_mult_self4 mod_mult_self4)

lemma ranura_eq: "ranura_va pd va = ranura_va pd' va' \<longleftrightarrow> pd = pd' \<and> PGNUM va = PGNUM va'"
  unfolding ranura_va_def by (metis PDX_PGNUM PGNUM_PDX_PTX PTX_PGNUM prod.inject)


section \<open>What each kind of update does\<close>

text \<open>Only memory matters to \<open>ent\<close>, and only the pages and the memory to the invariant.\<close>

lemma mem_upds [simp]:
  "mem (upd_page p g s) = mem s" "mem (devuelta p s) = mem s" "mem (sin_primera p s) = mem s"
  "mem (tlb_invalidate pd va s) = mem s"
  by (simp_all add: upd_page_def devuelta_def sin_primera_def tlb_invalidate_def)

lemma npages_upds [simp]:
  "npages (upd_page p g s) = npages s" "npages (devuelta p s) = npages s"
  "npages (sin_primera p s) = npages s" "npages (tlb_invalidate pd va s) = npages s"
  "npages (poke q v s) = npages s" "npages (memset0 p s) = npages s"
  by (simp_all add: upd_page_def devuelta_def sin_primera_def tlb_invalidate_def poke_def memset0_def)

lemma pages_upds [simp]:
  "pages (tlb_invalidate pd va s) = pages s" "pages (poke q v s) = pages s"
  "pages (memset0 p s) = pages s"
  by (simp_all add: tlb_invalidate_def poke_def memset0_def)

lemma solo_mem:
  assumes "mem t = mem s"
  shows "ent t = ent s" "pdes t P = pdes s P" "tabla_en t = tabla_en s" "usos t P f = usos s P f"
proof -
  show e: "ent t = ent s" unfolding ent_def [abs_def] assms by (rule refl)
  show "pdes t P = pdes s P" "tabla_en t = tabla_en s" "usos t P f = usos s P f"
    by (simp_all add: pdes_def tabla_en_def usos_def fun_eq_iff e assms)
qed

lemma libres_tlb [simp]: "libres_ok (tlb_invalidate pd va s) xs = libres_ok s xs"
  by (simp add: libres_ok_def tlb_invalidate_def)

lemma vm_tlb [simp]: "vm_ok (tlb_invalidate pd va s) P xs = vm_ok s P xs"
  by (simp add: vm_ok_def solo_mem [of "tlb_invalidate pd va s" s])

lemma vm_cong:
  assumes "mem t = mem s" and "npages t = npages s" and "pages t = pages s"
    and "page_free_list t = page_free_list s"
  shows "vm_ok t P xs = vm_ok s P xs"
  using assms(2-4) by (simp add: vm_ok_def libres_ok_def solo_mem [OF assms(1)])

text \<open>A store into a table in use changes the one slot.\<close>

lemma mem_poke: "mem (poke q v s) p i = (if (p, i) = q then v else mem s p i)"
  by (cases q) (auto simp: poke_def)

lemma poke_tabla:
  fixes v :: "32 word"
  assumes ok: "vm_ok s P xs" and r: "(pd, d, t) \<in> ranuras P" and pde: "mem s pd d \<noteq> 0"
  defines "u \<equiv> poke (tabla_en s (pd, d), t) v s"
  shows "\<And>r'. r' \<in> ranuras P \<Longrightarrow> ent u r' = (if r' = (pd, d, t) then v else ent s r')"
    and "pdes u P = pdes s P" and "\<And>q. q \<in> pdes s P \<Longrightarrow> tabla_en u q = tabla_en s q"
proof -
  have q: "(pd, d) \<in> pdes s P" using r pde by (auto simp: pdes_def ranuras_def)
  then have T: "tabla_en s (pd, d) \<notin> P" using vm_okD(4) [OF ok] by auto
  then have dir: "mem u pd' d' = mem s pd' d'" if "pd' \<in> P" for pd' d'
    using that by (auto simp: u_def mem_poke)
  then show "pdes u P = pdes s P" and "\<And>q. q \<in> pdes s P \<Longrightarrow> tabla_en u q = tabla_en s q"
    by (auto simp: pdes_def tabla_en_def)
  show "ent u r' = (if r' = (pd, d, t) then v else ent s r')" if r': "r' \<in> ranuras P" for r'
  proof -
    obtain pd' d' t' where e: "r' = (pd', d', t')" by (cases r')
    have P': "pd' \<in> P" "d' < NU" using r' by (auto simp: e ranuras_def)
    show ?thesis
    proof (cases "mem s pd' d' = 0")
      case True
      with pde P' show ?thesis by (auto simp: e ent_def dir)
    next
      case False
      then have q': "(pd', d') \<in> pdes s P" using P' by (simp add: pdes_def)
      have "tabla_en s (pd', d') = tabla_en s (pd, d) \<longleftrightarrow> (pd', d') = (pd, d)"
        using vm_okD(5) [OF ok] q q' by (auto dest: inj_onD)
      then have "ent u r' = (if (pd', d') = (pd, d) \<and> t' = t then v else mem s (tabla_en s (pd', d')) t')"
        using False P' by (auto simp: e ent_def dir tabla_en_def) (auto simp: u_def mem_poke tabla_en_def)
      then show ?thesis using False by (auto simp: e ent_def tabla_en_def)
    qed
  qed
qed

lemma vm_poke:
  assumes ok: "vm_ok s P xs" and r: "(pd, d, t) \<in> ranuras P" and pde: "mem s pd d \<noteq> 0"
    and v: "v \<noteq> 0 \<Longrightarrow> PGNUM v \<in> {..<npages s} - set xs - P - tabla_en s ` pdes s P \<and>
                     card (usos s P (PGNUM v)) < unat (pp_ref (pages s ! PGNUM v))"
  shows "vm_ok (poke (tabla_en s (pd, d), t) v s) P xs"
proof -
  let ?u = "poke (tabla_en s (pd, d), t) v s"
  note D = vm_okD [OF ok] and U = poke_tabla [OF ok r pde, where v = v]
  have img: "tabla_en ?u ` pdes ?u P = tabla_en s ` pdes s P"
    unfolding U(2) by (rule image_cong) (auto simp: U(3))
  have inj: "inj_on (tabla_en ?u) (pdes ?u P)"
    unfolding U(2) using D(5) by (subst inj_on_cong [where g = "tabla_en s"]) (auto simp: U(3))
  have us: "usos ?u P f \<subseteq> (if v \<noteq> 0 \<and> PGNUM v = f then insert (pd, d, t) (usos s P f) else usos s P f)" for f
    using U(1) by (auto simp: usos_def split: if_splits)
  have card: "card (usos ?u P f) \<le> unat (pp_ref (pages s ! f))" if "f < npages s" for f
  proof (cases "v \<noteq> 0 \<and> PGNUM v = f")
    case True
    then have "card (usos ?u P f) \<le> Suc (card (usos s P f))"
      using us [of f] card_mono [OF _ us, of f] finite_usos [OF D(2)]
      by (auto intro: order_trans card_insert_le_m1 simp: card_insert_if split: if_splits)
    with True v show ?thesis by auto
  next
    case False
    then have "card (usos ?u P f) \<le> card (usos s P f)"
      using us [of f] card_mono [OF finite_usos [OF D(2)]] by (auto split: if_splits)
    with D(7) [OF that] show ?thesis by simp
  qed
  have entu: "PGNUM (ent ?u r') \<in> {..<npages s} - set xs - P - tabla_en s ` pdes s P"
    if "r' \<in> ranuras P" "ent ?u r' \<noteq> 0" for r'
    using U(1) [OF that(1)] D(6) [OF that(1)] v that(2) by (auto split: if_splits)
  show ?thesis
    unfolding vm_ok_def img using D(1-4) inj entu card by simp
qed


section \<open>Walking the tables\<close>

lemma pgdir_walk_existe:
  assumes "mem s pd (PDX va) \<noteq> 0" and "tabla_en s (pd, PDX va) < npages s"
  shows "pgdir_walk pd va create s = Inr (Some (tabla_en s (pd, PDX va), PTX va), s)"
  using assms by (simp add: pgdir_walk_def peek_def kaddr_def tabla_en_def)

lemma pgdir_walk_falta:
  "mem s pd (PDX va) = 0 \<Longrightarrow> pgdir_walk pd va False s = Inr (None, s)"
  by (simp add: pgdir_walk_def peek_def)

lemma pgdir_walk_sin_memoria:
  "mem s pd (PDX va) = 0 \<Longrightarrow> libres_ok s [] \<Longrightarrow> pgdir_walk pd va True s = Inr (None, s)"
  by (simp add: pgdir_walk_def peek_def page_alloc_vacia)

definition pde_de :: "nat \<Rightarrow> 32 word" where
  "pde_de x = page2pa x OR PTE_P OR PTE_W OR PTE_U"

definition nueva_tabla :: "nat \<Rightarrow> nat \<Rightarrow> nat \<Rightarrow> kst \<Rightarrow> kst" where
  "nueva_tabla pd d x s =
     poke (pd, d) (pde_de x)
       (upd_page x (pp_ref_update (\<lambda>r. r + 1)) (memset0 x (sin_primera x s)))"

lemma or_PTE_P: "w OR PTE_P \<noteq> 0"
proof
  assume "w OR PTE_P = 0"
  then have "bit (w OR PTE_P) 0 = bit (0 :: 32 word) 0" by simp
  then show False by (simp add: PTE_P_def bit_simps)
qed

lemma pde_de [simp]: "x < 2 ^ 20 \<Longrightarrow> PGNUM (pde_de x) = x" "pde_de x \<noteq> 0"
proof -
  show "PGNUM (pde_de x) = x" if "x < 2 ^ 20"
    unfolding pde_de_def using that
    by (metis PGNUM_entrada bajos_or bajos_permisos or.assoc)
  have "pde_de x = (page2pa x OR PTE_W OR PTE_U) OR PTE_P"
    by (simp add: pde_de_def or.assoc or.commute or.left_commute)
  then show "pde_de x \<noteq> 0" by (simp only: or_PTE_P not_False_eq_True)
qed

lemma pgdir_walk_nueva:
  assumes "mem s pd (PDX va) = 0" and "libres_ok s (x # xs)"
  shows "pgdir_walk pd va True s = Inr (Some (x, PTX va), nueva_tabla pd (PDX va) x s)"
proof -
  have x: "x < npages s" "x < 2 ^ 20" using libres_okD [OF assms(2)] by (auto dest: order_less_le_trans)
  have "mem (nueva_tabla pd (PDX va) x s) pd (PDX va) = pde_de x"
    by (simp add: nueva_tabla_def mem_poke)
  moreover have "npages (nueva_tabla pd (PDX va) x s) = npages s"
    by (simp add: nueva_tabla_def)
  ultimately show ?thesis
    using assms x page_alloc_primera [OF assms(2)]
    by (simp add: pgdir_walk_def peek_def kaddr_def nueva_tabla_def [symmetric] flip: pde_de_def)
qed

lemma nueva_tabla_ent:
  assumes ok: "vm_ok s P (x # xs)" and pd: "pd \<in> P" and d: "d < NU" and pde: "mem s pd d = 0"
  defines "u \<equiv> nueva_tabla pd d x s"
  shows "\<And>r. r \<in> ranuras P \<Longrightarrow> ent u r = ent s r"
    and "pdes u P = insert (pd, d) (pdes s P)" and "tabla_en u (pd, d) = x"
    and "\<And>q. q \<in> pdes s P \<Longrightarrow> tabla_en u q = tabla_en s q"
proof -
  note D = vm_okD [OF ok]
  have x: "x < 2 ^ 20" "x \<notin> P" using libres_okD [OF D(1)] D(3) by (auto dest: order_less_le_trans)
  have dir: "mem u p i = (if (p, i) = (pd, d) then pde_de x else mem s p i)" if "p \<in> P" for p i
    using that x by (auto simp: u_def nueva_tabla_def mem_poke memset0_def)
  show "pdes u P = insert (pd, d) (pdes s P)"
    using pd d by (auto simp: pdes_def dir split: if_splits)
  show "tabla_en u (pd, d) = x" using pd x by (simp add: tabla_en_def dir)
  show te: "tabla_en u q = tabla_en s q" if "q \<in> pdes s P" for q
    using that pde by (auto simp: pdes_def tabla_en_def dir)
  show "ent u r = ent s r" if r: "r \<in> ranuras P" for r
  proof -
    obtain p i j where e: "r = (p, i, j)" by (cases r)
    have p: "p \<in> P" "i < NU" "j < 1024" using r by (auto simp: e ranuras_def)
    show ?thesis
    proof (cases "(p, i) = (pd, d)")
      case True
      have "mem u x j = 0" using p x pd by (auto simp: u_def nueva_tabla_def mem_poke memset0_def)
      with True pde p x show ?thesis by (simp add: e ent_def dir)
    next
      case False
      show ?thesis
      proof (cases "mem s p i = 0")
        case True
        with False p show ?thesis by (auto simp: e ent_def dir)
      next
        case nz: False
        then have "(p, i) \<in> pdes s P" using p by (simp add: pdes_def)
        then have "tabla_en s (p, i) \<notin> P" "tabla_en s (p, i) \<noteq> x" using D(4) by auto
        then have "mem u (tabla_en s (p, i)) j = mem s (tabla_en s (p, i)) j"
          using pd by (auto simp: u_def nueva_tabla_def mem_poke memset0_def)
        moreover have "ent u (p, i, j) = mem u (tabla_en s (p, i)) j"
          using False nz p by (auto simp: ent_def dir tabla_en_def)
        moreover have "ent s (p, i, j) = mem s (tabla_en s (p, i)) j"
          using nz by (simp add: ent_def tabla_en_def)
        ultimately show ?thesis by (simp add: e)
      qed
    qed
  qed
qed

lemma vm_nueva_tabla:
  assumes ok: "vm_ok s P (x # xs)" and pd: "pd \<in> P" and d: "d < NU" and pde: "mem s pd d = 0"
  shows "vm_ok (nueva_tabla pd d x s) P xs"
proof -
  let ?u = "nueva_tabla pd d x s"
  note D = vm_okD [OF ok] and U = nueva_tabla_ent [OF assms]
  have x: "x < npages s" "x \<notin> set xs" "x \<notin> P" "pp_ref (pages s ! x) = 0"
    using libres_okD [OF D(1)] D(3) by auto
  have xt: "x \<notin> tabla_en s ` pdes s P" using D(4) by auto
  have img: "tabla_en ?u ` pdes ?u P = insert x (tabla_en s ` pdes s P)"
    using U(3,4) by (auto simp: U(2) image_iff)
  have us: "usos ?u P f = usos s P f" for f
    using U(1) by (auto simp: usos_def)
  have inj: "inj_on (tabla_en ?u) (pdes ?u P)"
    unfolding U(2)
  proof (rule inj_on_insert [THEN iffD2], intro conjI)
    show "inj_on (tabla_en ?u) (pdes s P)"
      using D(5) by (subst inj_on_cong [where g = "tabla_en s"]) (auto simp: U(4))
    show "tabla_en ?u (pd, d) \<notin> tabla_en ?u ` (pdes s P - {(pd, d)})"
      using xt by (auto simp: U(3,4))
  qed
  have lib: "libres_ok ?u xs"
    unfolding nueva_tabla_def using libres_sin_primera [OF D(1)] x by (simp add: libres_ref)
  have pg: "pp_ref (pages ?u ! f) = (if f = x then 1 else pp_ref (pages s ! f))" if "f < npages s" for f
    using that x libres_okD(2) [OF D(1)]
    by (auto simp: nueva_tabla_def sin_primera_def upd_page_def poke_def memset0_def nth_upd)
  have refs: "card (usos ?u P f) \<le> unat (pp_ref (pages ?u ! f))" if "f < npages s" for f
    using D(7) [OF that] x(4) by (auto simp: us pg [OF that])
  have np: "npages ?u = npages s" by (simp add: nueva_tabla_def)
  have ents: "PGNUM (ent ?u r) \<in> {..<npages s} - set xs - P - insert x (tabla_en s ` pdes s P)"
    if "r \<in> ranuras P" "ent ?u r \<noteq> 0" for r
    using D(6) [OF that(1)] that(2) by (auto simp: U(1) [OF that(1)])
  show ?thesis
    unfolding vm_ok_def img np using lib D(2-4) x inj ents refs by auto
qed


section \<open>Reference counts\<close>

text \<open>A count that covers the uses, changed on a page that is not free.\<close>

lemma vm_ref:
  assumes ok: "vm_ok s P xs" and p: "p \<notin> set xs"
    and g: "p < npages s \<Longrightarrow> card (usos s P p) \<le> unat (g (pp_ref (pages s ! p)))"
  shows "vm_ok (upd_page p (pp_ref_update g) s) P xs"
proof -
  note D = vm_okD [OF ok] and M = solo_mem [of "upd_page p (pp_ref_update g) s" s, simplified]
  have "card (usos s P f) \<le> unat (pp_ref (pages (upd_page p (pp_ref_update g) s) ! f))"
    if "f < npages s" for f
    using D(7) [OF that] g that by (auto simp: upd_page_def nth_upd)
  then show ?thesis
    unfolding vm_ok_def M using D libres_ref [OF D(1) p] by simp
qed

text \<open>A page with no references and no uses goes to the free list.\<close>

lemma vm_devuelta:
  assumes ok: "vm_ok s P xs" and p: "p < npages s" "p \<notin> set xs" "pp_ref (pages s ! p) = 0"
    and otros: "p \<notin> P" "p \<notin> tabla_en s ` pdes s P"
  shows "vm_ok (devuelta p s) P (p # xs)"
proof -
  note D = vm_okD [OF ok] and M = solo_mem [of "devuelta p s" s, simplified]
  have "card (usos s P p) \<le> 0" using D(7) [OF p(1)] p(3) by simp
  then have "usos s P p = {}" using finite_usos [OF D(2)] by simp
  then have sin: "PGNUM (ent s r) \<noteq> p" if "r \<in> ranuras P" "ent s r \<noteq> 0" for r
    using that \<open>usos s P p = {}\<close> unfolding usos_def by blast
  have pg: "pp_ref (pages (devuelta p s) ! f) = pp_ref (pages s ! f)" for f
    by (simp add: devuelta_def upd_page_def nth_upd)
  have ents: "PGNUM (ent s r) \<in> {..<npages s} - set (p # xs) - P - tabla_en s ` pdes s P"
    if "r \<in> ranuras P" "ent s r \<noteq> 0" for r
    using D(6) [OF that] sin [OF that] by auto
  show ?thesis
    unfolding vm_ok_def M npages_upds pg using page_free_ok(2) [OF D(1) p] D(2-5,7) ents otros p by auto
qed

definition sin_ref :: "nat \<Rightarrow> kst \<Rightarrow> kst" where
  "sin_ref p s = upd_page p (pp_ref_update (\<lambda>r. r - 1)) s"

definition suelta_ref :: "nat \<Rightarrow> kst \<Rightarrow> kst" where
  "suelta_ref p s = (if pp_ref (pages s ! p) = 1 then devuelta p (sin_ref p s) else sin_ref p s)"

lemma unat_menos_uno: "(w :: 16 word) \<noteq> 0 \<Longrightarrow> unat (w - 1) = unat w - 1"
  by (simp add: unat_minus_one)

lemma vm_suelta_ref:
  assumes ok: "vm_ok s P xs" and p: "p < npages s" "p \<notin> set xs"
    and holgura: "card (usos s P p) < unat (pp_ref (pages s ! p))"
    and otros: "p \<notin> P" "p \<notin> tabla_en s ` pdes s P"
  shows "page_decref p s = Inr ((), suelta_ref p s)"
    and "vm_ok (suelta_ref p s) P (if pp_ref (pages s ! p) = 1 then p # xs else xs)"
proof -
  note D = vm_okD [OF ok]
  have nz: "pp_ref (pages s ! p) \<noteq> 0" using holgura by auto
  have pg: "pp_ref (pages (sin_ref p s) ! p) = pp_ref (pages s ! p) - 1"
    using p(1) libres_okD(2) [OF D(1)] by (simp add: sin_ref_def upd_page_def)
  have ok1: "vm_ok (sin_ref p s) P xs"
    unfolding sin_ref_def
    by (rule vm_ref [OF ok p(2)]) (use holgura in \<open>simp add: unat_menos_uno [OF nz]\<close>)
  have uno: "pp_ref (pages s ! p) = 1 \<longleftrightarrow> pp_ref (pages (sin_ref p s) ! p) = 0"
    unfolding pg by simp
  have np: "npages (sin_ref p s) = npages s" by (simp add: sin_ref_def)
  show "page_decref p s = Inr ((), suelta_ref p s)"
    using page_free_ok(1) [OF vm_okD(1) [OF ok1], of p] p np uno
    by (simp add: page_decref_def suelta_ref_def Let_def flip: sin_ref_def)
  have te: "tabla_en (sin_ref p s) ` pdes (sin_ref p s) P = tabla_en s ` pdes s P"
    using solo_mem(2,3) [of "sin_ref p s" s] by (simp add: sin_ref_def)
  show "vm_ok (suelta_ref p s) P (if pp_ref (pages s ! p) = 1 then p # xs else xs)"
    using ok1 vm_devuelta [OF ok1, of p] p np uno otros te by (auto simp: suelta_ref_def)
qed

lemma suelta_ref_mem [simp]: "mem (suelta_ref p s) = mem s" "npages (suelta_ref p s) = npages s"
  by (simp_all add: suelta_ref_def sin_ref_def)

lemma poke_suelta_ref: "poke q v (suelta_ref p s) = suelta_ref p (poke q v s)"
  by (simp add: suelta_ref_def sin_ref_def devuelta_def upd_page_def poke_def)

lemma suelta_ref_ref:
  "length (pages s) = npages s \<Longrightarrow> f < npages s \<Longrightarrow>
   pp_ref (pages (suelta_ref p s) ! f) = (if f = p then pp_ref (pages s ! f) - 1 else pp_ref (pages s ! f))"
  by (auto simp: suelta_ref_def sin_ref_def devuelta_def upd_page_def nth_upd)


section \<open>Removing and inserting a page\<close>

lemma usos_poke:
  assumes "vm_ok s P xs" and "(pd, d, t) \<in> ranuras P" and "mem s pd d \<noteq> 0"
  shows "usos (poke (tabla_en s (pd, d), t) 0 s) P f = usos s P f - {(pd, d, t)}"
  using poke_tabla(1) [OF assms, of _ 0] by (auto simp: usos_def split: if_splits)

text \<open>The state after the page of a mapped slot is removed.\<close>

definition sin_pagina :: "nat \<Rightarrow> 32 word \<Rightarrow> kst \<Rightarrow> kst" where
  "sin_pagina pd va s =
     tlb_invalidate pd va (poke (tabla_en s (pd, PDX va), PTX va) 0
       (suelta_ref (PGNUM (ent s (ranura_va pd va))) s))"

lemma page_lookup_ok:
  assumes ok: "vm_ok s P xs" and pd: "pd \<in> P" "PDX va < NU"
  shows "page_lookup pd va s =
    Inr (if ent s (ranura_va pd va) = 0 then None
         else Some (PGNUM (ent s (ranura_va pd va)), tabla_en s (pd, PDX va), PTX va), s)"
proof (cases "mem s pd (PDX va) = 0")
  case True
  then show ?thesis
    by (simp add: page_lookup_def pgdir_walk_falta ranura_va_def ent_def)
next
  case False
  then have q: "(pd, PDX va) \<in> pdes s P" using pd by (simp add: pdes_def)
  then have w: "pgdir_walk pd va False s = Inr (Some (tabla_en s (pd, PDX va), PTX va), s)"
    using False vm_okD(4) [OF ok] by (intro pgdir_walk_existe) auto
  have pk: "peek s (tabla_en s (pd, PDX va), PTX va) = ent s (ranura_va pd va)"
    using False by (simp add: ranura_va_def ent_def peek_def tabla_en_def)
  have "ent s (ranura_va pd va) = 0 \<or> PGNUM (ent s (ranura_va pd va)) < npages s"
    using vm_okD(6) [OF ok ranura_in [OF pd]] by blast
  then show ?thesis
    by (auto simp: page_lookup_def w pk pa2page_def PTE_P_def)
qed

lemma page_remove_nada:
  assumes ok: "vm_ok s P xs" and pd: "pd \<in> P" "PDX va < NU" and nada: "ent s (ranura_va pd va) = 0"
  shows "page_remove pd va s = Inr ((), s)"
proof (cases "mem s pd (PDX va) = 0")
  case True
  then show ?thesis
    using page_lookup_ok [OF ok pd] nada by (simp add: page_remove_def pgdir_walk_falta)
next
  case False
  then have q: "(pd, PDX va) \<in> pdes s P" using pd by (simp add: pdes_def)
  then have w: "pgdir_walk pd va False s = Inr (Some (tabla_en s (pd, PDX va), PTX va), s)"
    using False vm_okD(4) [OF ok] by (intro pgdir_walk_existe) auto
  have "peek s (tabla_en s (pd, PDX va), PTX va) = 0"
    using False nada by (simp add: ranura_va_def ent_def peek_def tabla_en_def)
  then show ?thesis
    using page_lookup_ok [OF ok pd] nada by (simp add: page_remove_def w)
qed


lemma page_remove_pagina:
  assumes ok: "vm_ok s P xs" and pd: "pd \<in> P" "PDX va < NU" and hay: "ent s (ranura_va pd va) \<noteq> 0"
  defines "f \<equiv> PGNUM (ent s (ranura_va pd va))"
  shows "page_remove pd va s = Inr ((), sin_pagina pd va s)"
    and "vm_ok (sin_pagina pd va s) P (if pp_ref (pages s ! f) = 1 then f # xs else xs)"
    and "r \<in> ranuras P \<Longrightarrow> ent (sin_pagina pd va s) r = (if r = ranura_va pd va then 0 else ent s r)"
    and "usos (sin_pagina pd va s) P g = usos s P g - {ranura_va pd va}"
proof -
  note D = vm_okD [OF ok]
  let ?T = "tabla_en s (pd, PDX va)"
  let ?u = "poke (?T, PTX va) 0 s"
  have r: "(pd, PDX va, PTX va) \<in> ranuras P" using ranura_in [OF pd] by (simp add: ranura_va_def)
  have pde: "mem s pd (PDX va) \<noteq> 0" using hay by (auto simp: ranura_va_def ent_def)
  then have q: "(pd, PDX va) \<in> pdes s P" using pd by (simp add: pdes_def)
  have f: "f < npages s" "f \<notin> set xs" "f \<notin> P" "f \<notin> tabla_en s ` pdes s P"
    using D(6) [OF ranura_in [OF pd] hay] by (auto simp: f_def)
  have uso: "ranura_va pd va \<in> usos s P f"
    using ranura_in [OF pd] hay by (simp add: usos_def f_def)
  have us: "usos ?u P g = usos s P g - {ranura_va pd va}" for g
    using usos_poke [OF ok r pde] by (simp add: ranura_va_def)
  have oku: "vm_ok ?u P xs" by (rule vm_poke [OF ok r pde]) simp
  have teu: "tabla_en ?u ` pdes ?u P = tabla_en s ` pdes s P"
    using poke_tabla(2,3) [OF ok r pde, where v = 0] by auto
  have "card (usos ?u P f) < card (usos s P f)"
    unfolding us by (rule card_Diff1_less [OF finite_usos [OF D(2)] uso])
  also have "\<dots> \<le> unat (pp_ref (pages ?u ! f))" using D(7) [OF f(1)] by simp
  finally have hol: "card (usos ?u P f) < unat (pp_ref (pages ?u ! f))" .
  have eq: "sin_pagina pd va s = tlb_invalidate pd va (suelta_ref f ?u)"
    by (simp add: sin_pagina_def poke_suelta_ref flip: f_def)
  have np: "npages ?u = npages s" by simp
  note DR = vm_suelta_ref [OF oku, of f, unfolded np teu, OF f(1,2) hol f(3,4)]
  show "vm_ok (sin_pagina pd va s) P (if pp_ref (pages s ! f) = 1 then f # xs else xs)"
    using DR(2) by (simp add: eq)
  have hols: "card (usos s P f) \<le> unat (pp_ref (pages s ! f))" "0 < card (usos s P f)"
    using D(7) [OF f(1)] uso finite_usos [OF D(2)] by (auto simp: card_gt_0_iff)
  have dec: "page_decref f s = Inr ((), suelta_ref f s)"
  proof -
    have nz: "pp_ref (pages s ! f) \<noteq> 0" using hols by auto
    have len: "length (pages s) = npages s" using libres_okD(2) [OF D(1)] .
    have link: "pp_link (pages s ! f) = None" using libres_okD(5) [OF D(1) f(1,2)] .
    show ?thesis
      using f(1) len link
      by (simp add: page_decref_def suelta_ref_def sin_ref_def page_free_def devuelta_def upd_page_def
          Let_def)
  qed
  have w: "pgdir_walk pd va False s = Inr (Some (?T, PTX va), s)"
    using D(4) q pde by (intro pgdir_walk_existe) auto
  have pk: "peek s (?T, PTX va) \<noteq> 0"
    using hay pde by (simp add: ranura_va_def ent_def peek_def tabla_en_def)
  show "page_remove pd va s = Inr ((), sin_pagina pd va s)"
    using page_lookup_ok [OF ok pd] hay dec pk
    by (simp add: page_remove_def w PTE_P_def sin_pagina_def peek_def Let_def flip: f_def)
  have M: "mem (sin_pagina pd va s) = mem ?u" by (simp add: eq)
  show "ent (sin_pagina pd va s) r = (if r = ranura_va pd va then 0 else ent s r)" if "r \<in> ranuras P"
    using poke_tabla(1) [OF ok, of pd "PDX va" "PTX va" r 0] r pde that
    by (simp add: solo_mem(1) [OF M] ranura_va_def)
  show "usos (sin_pagina pd va s) P g = usos s P g - {ranura_va pd va}"
    by (simp add: solo_mem(4) [OF M] us)
qed

lemma sin_pagina_simps:
  "length (pages s) = npages s \<Longrightarrow> g < npages s \<Longrightarrow>
     pp_ref (pages (sin_pagina pd va s) ! g) =
       (if g = PGNUM (ent s (ranura_va pd va)) then pp_ref (pages s ! g) - 1 else pp_ref (pages s ! g))"
  "npages (sin_pagina pd va s) = npages s"
  by (simp_all add: sin_pagina_def suelta_ref_ref)


text \<open>Both cases of a walk that creates, and of a removal, for the caller.\<close>

lemma walk_crea:
  assumes ok: "vm_ok s P xs" and pd: "pd \<in> P" "PDX va < NU"
    and cabe: "mem s pd (PDX va) \<noteq> 0 \<or> xs \<noteq> []"
    and pp: "pp < npages s" "pp \<notin> set xs" "pp \<notin> tabla_en s ` pdes s P"
  obtains t ys where "pgdir_walk pd va True s = Inr (Some (tabla_en t (pd, PDX va), PTX va), t)"
    "vm_ok t P ys" "\<And>r. r \<in> ranuras P \<Longrightarrow> ent t r = ent s r" "mem t pd (PDX va) \<noteq> 0"
    "pp \<notin> set ys" "pp \<notin> tabla_en t ` pdes t P" "pages t ! pp = pages s ! pp" "npages t = npages s"
    "set ys \<subseteq> set xs"
proof (cases "mem s pd (PDX va) = 0")
  case False
  then have "tabla_en s (pd, PDX va) < npages s" using vm_okD(4) [OF ok] pd by (auto simp: pdes_def)
  with False show thesis using ok pp by (intro that [of s xs]) (auto intro: pgdir_walk_existe)
next
  case True
  with cabe obtain x ys where xs: "xs = x # ys" by (cases xs) auto
  note U = nueva_tabla_ent [OF ok [unfolded xs] pd True]
  let ?u = "nueva_tabla pd (PDX va) x s"
  have x: "pp \<noteq> x" using pp(2) xs by simp
  show thesis
  proof (rule that [of ?u ys])
    show "pgdir_walk pd va True s = Inr (Some (tabla_en ?u (pd, PDX va), PTX va), ?u)"
      using pgdir_walk_nueva [OF True, of x ys] vm_okD(1) [OF ok] by (simp add: U(3) xs)
    show "vm_ok ?u P ys" by (rule vm_nueva_tabla [OF ok [unfolded xs] pd True])
    show "mem ?u pd (PDX va) \<noteq> 0" by (simp add: nueva_tabla_def mem_poke)
    have "tabla_en ?u ` pdes ?u P = insert x (tabla_en s ` pdes s P)"
      using U(3,4) by (auto simp: U(2) image_iff)
    then show "pp \<notin> tabla_en ?u ` pdes ?u P" using pp(3) x by simp
    show "pages ?u ! pp = pages s ! pp"
      using x by (simp add: nueva_tabla_def sin_primera_def upd_page_def memset0_def poke_def)
    show "npages ?u = npages s" by (simp add: nueva_tabla_def)
  qed (use pp xs U(1) in auto)
qed

lemma quita:
  assumes ok: "vm_ok s P xs" and pd: "pd \<in> P" "PDX va < NU"
    and pp: "pp < npages s" "pp \<notin> set xs"
    and holgura: "card (usos s P pp) < unat (pp_ref (pages s ! pp))"
  obtains t ys where "page_remove pd va s = Inr ((), t)" "vm_ok t P ys"
    "\<And>r. r \<in> ranuras P \<Longrightarrow> ent t r = (if r = ranura_va pd va then 0 else ent s r)"
    "\<And>p d. p \<in> P \<Longrightarrow> mem t p d = mem s p d" "pp \<notin> set ys"
    "card (usos t P pp) < unat (pp_ref (pages t ! pp))" "npages t = npages s"
proof (cases "ent s (ranura_va pd va) = 0")
  case True
  show thesis
    by (rule that [OF page_remove_nada [OF ok pd True] ok]) (use True pp holgura in auto)
next
  case False
  define f where "f = PGNUM (ent s (ranura_va pd va))"
  note R = page_remove_pagina [OF ok pd False, folded f_def]
  note len = libres_okD(2) [OF vm_okD(1) [OF ok]]
  have pde: "mem s pd (PDX va) \<noteq> 0" using False by (auto simp: ranura_va_def ent_def)
  have uso: "ranura_va pd va \<in> usos s P f"
    using ranura_in [OF pd] False by (simp add: usos_def f_def)
  have dos: "pp_ref (pages s ! pp) \<noteq> 1" if "f = pp"
  proof
    assume "pp_ref (pages s ! pp) = 1"
    with holgura have "card (usos s P pp) = 0" by simp
    with uso that show False using finite_usos [OF vm_okD(2) [OF ok]] by auto
  qed
  have card: "card (usos (sin_pagina pd va s) P pp) < unat (pp_ref (pages (sin_pagina pd va s) ! pp))"
  proof (cases "f = pp")
    case True
    have nz: "pp_ref (pages s ! pp) \<noteq> 0" using holgura by auto
    have "0 < card (usos s P pp)" using uso True finite_usos [OF vm_okD(2) [OF ok]]
      by (auto simp: card_gt_0_iff)
    with True holgura uso show ?thesis
      using finite_usos [OF vm_okD(2) [OF ok]] sin_pagina_simps(1) [OF len pp(1), of pd va]
      by (simp add: R(4) card_Diff_singleton unat_menos_uno [OF nz] flip: f_def)
  next
    case False
    have "card (usos (sin_pagina pd va s) P pp) \<le> card (usos s P pp)"
      unfolding R(4) by (rule card_mono [OF finite_usos [OF vm_okD(2) [OF ok]]]) auto
    with False holgura show ?thesis
      using sin_pagina_simps(1) [OF len pp(1), of pd va] by (simp flip: f_def)
  qed
  show thesis
  proof (rule that [OF R(1,2) R(3) _ _ card])
    have "tabla_en s (pd, PDX va) \<notin> P" using vm_okD(4) [OF ok] pd pde by (auto simp: pdes_def)
    then show "mem (sin_pagina pd va s) p d = mem s p d" if "p \<in> P" for p d
      using that by (auto simp: sin_pagina_def mem_poke)
    show "pp \<notin> set (if pp_ref (pages s ! f) = 1 then f # xs else xs)"
      using dos pp(2) by auto
    show "npages (sin_pagina pd va s) = npages s" by (rule sin_pagina_simps(2))
  qed
qed

definition entrada_pte :: "nat \<Rightarrow> 32 word \<Rightarrow> 32 word" where
  "entrada_pte pp perm = page2pa pp OR perm OR PTE_P"

lemma entrada_nz [simp]: "entrada_pte pp perm \<noteq> 0"
  unfolding entrada_pte_def by (metis or.assoc or_PTE_P)

lemma page_insert_ok:
  assumes ok: "vm_ok s P xs" and pd: "pd \<in> P" "PDX va < NU"
    and cabe: "mem s pd (PDX va) \<noteq> 0 \<or> xs \<noteq> []"
    and pp: "pp < npages s" "pp \<notin> set xs" "pp \<notin> P" "pp \<notin> tabla_en s ` pdes s P"
    and ref: "unat (pp_ref (pages s ! pp)) < 65535"
  obtains t ys where "page_insert pd pp va perm s = Inr (0, t)" "bajos perm \<Longrightarrow> vm_ok t P ys"
    "\<And>r. r \<in> ranuras P \<Longrightarrow> ent t r = (if r = ranura_va pd va then entrada_pte pp perm else ent s r)"
proof -
  from walk_crea [OF ok pd cabe pp(1,2,4)] obtain u ys where
    u: "pgdir_walk pd va True s = Inr (Some (tabla_en u (pd, PDX va), PTX va), u)" "vm_ok u P ys"
      "\<And>r. r \<in> ranuras P \<Longrightarrow> ent u r = ent s r" "mem u pd (PDX va) \<noteq> 0" "pp \<notin> set ys"
      "pp \<notin> tabla_en u ` pdes u P" "pages u ! pp = pages s ! pp" "npages u = npages s"
    by metis
  define v where "v = upd_page pp (pp_ref_update (\<lambda>r. r + 1)) u"
  note len = libres_okD(2) [OF vm_okD(1) [OF u(2)]]
  have mas: "unat (pp_ref (pages u ! pp) + 1) = unat (pp_ref (pages u ! pp)) + 1"
    using ref by (simp add: u(7) unat_word_ariths)
  have cu: "card (usos u P pp) \<le> unat (pp_ref (pages u ! pp))"
    using vm_okD(7) [OF u(2)] pp(1) u(8) by simp
  have v_ok: "vm_ok v P ys"
    unfolding v_def by (rule vm_ref [OF u(2,5)]) (use mas cu in simp)
  have np_v: "npages v = npages s" by (simp add: v_def u(8))
  have cv: "card (usos v P pp) < unat (pp_ref (pages v ! pp))"
    using cu mas pp(1) len u(8) solo_mem(4) [of v u] by (simp add: v_def upd_page_def)
  from quita [OF v_ok pd pp(1) [folded np_v] u(5) cv] obtain w zs where
    w: "page_remove pd va v = Inr ((), w)" "vm_ok w P zs"
      "\<And>r. r \<in> ranuras P \<Longrightarrow> ent w r = (if r = ranura_va pd va then 0 else ent v r)"
      "\<And>p d. p \<in> P \<Longrightarrow> mem w p d = mem v p d" "pp \<notin> set zs"
      "card (usos w P pp) < unat (pp_ref (pages w ! pp))" "npages w = npages v"
    by metis
  have same: "tabla_en w q = tabla_en u q" if "fst q \<in> P" for q
    using w(4) [of "fst q"] that by (simp add: tabla_en_def v_def)
  have "pdes w P = pdes u P" using w(4) by (auto simp: pdes_def v_def)
  then have tw: "tabla_en w ` pdes w P = tabla_en u ` pdes u P"
    using same by (intro image_cong) (auto simp: pdes_def)
  let ?t = "poke (tabla_en u (pd, PDX va), PTX va) (entrada_pte pp perm) w"
  have r: "(pd, PDX va, PTX va) \<in> ranuras P" using ranura_in [OF pd] by (simp add: ranura_va_def)
  have pde: "mem w pd (PDX va) \<noteq> 0" using u(4) w(4) pd by (simp add: v_def)
  have Tw: "tabla_en w (pd, PDX va) = tabla_en u (pd, PDX va)" using same pd by simp
  have num: "PGNUM (entrada_pte pp perm) = pp" if "bajos perm"
    using pp(1) libres_okD(3) [OF vm_okD(1) [OF ok]] that
    by (metis PGNUM_entrada bajos_or bajos_permisos(1) entrada_pte_def order_less_le_trans)
  show thesis
  proof (rule that [of ?t zs])
    show "page_insert pd pp va perm s = Inr (0, ?t)"
      by (simp add: page_insert_def u(1) w(1) entrada_pte_def flip: v_def)
    show "vm_ok ?t P zs" if "bajos perm"
      using num [OF that] vm_poke [OF w(2) r pde, of "entrada_pte pp perm"] w(5,6,7) np_v pp u(6) tw Tw by simp
    show "ent ?t r' = (if r' = ranura_va pd va then entrada_pte pp perm else ent s r')" if "r' \<in> ranuras P" for r'
      using poke_tabla(1) [OF w(2) r pde that, of "entrada_pte pp perm"] w(3) [OF that] u(3) [OF that]
        solo_mem(1) [of v u] by (simp add: Tw ranura_va_def v_def)
  qed
qed


section \<open>Checking user memory\<close>

lemma find_map: "find Q (map f ks) = map_option f (find (\<lambda>k. Q (f k)) ks)"
  by (induction ks) auto

lemma find_cong2: "(\<And>k. k \<in> set ks \<Longrightarrow> Q k = R k) \<Longrightarrow> find Q ks = find R ks"
  by (induction ks) auto

text \<open>The pages of a loop, by number.\<close>

lemma paginas_num:
  assumes lo: "unat lo = a * 4096" and hi: "unat hi = b * 4096"
  shows "paginas lo hi = map (\<lambda>k. of_nat (k * 4096)) [a..<b]"
proof -
  have n: "(unat hi - unat lo + 4095) div 4096 = b - a"
    by (simp add: lo hi flip: diff_mult_distrib)
  have "of_nat (unat lo) = lo" by simp
  then have lo': "lo = of_nat (a * 4096)" by (simp only: lo)
  have "lo + of_nat k * PGSIZE = of_nat ((a + k) * 4096)" for k
    by (subst lo') (simp add: PGSIZE_def algebra_simps)
  then show ?thesis
    unfolding paginas_def n by (intro nth_equalityI) (simp_all del: of_nat_mult)
qed

lemma unat_pagina: "k < 2 ^ 20 \<Longrightarrow> unat (of_nat (k * 4096) :: 32 word) = k * 4096"
  by (simp add: unat_of_nat take_bit_eq_mod del: of_nat_mult)

lemma PGNUM_pagina: "k < 2 ^ 20 \<Longrightarrow> PGNUM (of_nat (k * 4096)) = k"
  by (simp only: PGNUM_eq unat_pagina)

text \<open>The entry of the page with number \<open>k\<close>, and whether it lacks a permission.\<close>

definition ent_pag :: "kst \<Rightarrow> nat \<Rightarrow> nat \<Rightarrow> 32 word" where
  "ent_pag s pd k = ent s (pd, k div 1024, k mod 1024)"

lemma ent_ranura: "ent s (ranura_va pd va) = ent_pag s pd (PGNUM va)"
  by (simp add: ent_pag_def ranura_va_def PDX_PGNUM PTX_PGNUM)

definition falta :: "kst \<Rightarrow> nat \<Rightarrow> 32 word \<Rightarrow> nat \<Rightarrow> bool" where
  "falta s pd perm k \<longleftrightarrow> ent_pag s pd k AND (perm OR PTE_P) \<noteq> perm OR PTE_P"

lemma user_mem_bucle_find:
  assumes ok: "vm_ok s P xs" and pd: "pd \<in> P" "env_pgdir (envs s ! e) = Some pd"
    and vs: "\<forall>v\<in>set vs. v < UTOP"
  shows "user_mem_bucle e va_lo perm vs s =
    (case find (\<lambda>v. falta s pd perm (PGNUM v)) vs of
       None \<Rightarrow> Inr (0, s)
     | Some v \<Rightarrow> Inr (- E_FAULT, s\<lparr>user_mem_check_addr := (if v > va_lo then v else va_lo)\<rparr>))"
  using vs
proof (induction vs)
  case (Cons v vs)
  then have u: "PDX v < NU" by (simp add: PDX_user)
  have cero: "perm OR PTE_P \<noteq> 0" by (rule or_PTE_P)
  show ?case
  proof (cases "mem s pd (PDX v) = 0")
    case True
    then have "falta s pd perm (PGNUM v)"
      using cero by (simp add: falta_def flip: ent_ranura) (simp add: ranura_va_def ent_def)
    with True show ?thesis by (simp add: con_pgdir_def pd(2) pgdir_walk_falta)
  next
    case False
    then have "tabla_en s (pd, PDX v) < npages s"
      using vm_okD(4) [OF ok] pd u by (auto simp: pdes_def)
    with False have w: "pgdir_walk pd v False s = Inr (Some (tabla_en s (pd, PDX v), PTX v), s)"
      by (rule pgdir_walk_existe)
    have "peek s (tabla_en s (pd, PDX v), PTX v) = ent_pag s pd (PGNUM v)"
      using False by (simp add: peek_def tabla_en_def ranura_va_def ent_def flip: ent_ranura)
    with Cons w show ?thesis by (simp add: con_pgdir_def pd(2) falta_def)
  qed
qed simp

lemma user_mem_check_dentro:
  assumes ok: "vm_ok s P xs" and pd: "pd \<in> P" "env_pgdir (envs s ! e) = Some pd"
    and lim: "unat va + unat len \<le> unat UTOP"
  shows "user_mem_check e va len perm s =
    (case find (falta s pd perm) [PGNUM va..<(unat va + unat len + 4095) div 4096] of
       None \<Rightarrow> Inr (0, s)
     | Some k \<Rightarrow> Inr (- E_FAULT, s\<lparr>user_mem_check_addr :=
                                     (if k = PGNUM va then va else of_nat (k * 4096))\<rparr>))"
proof -
  let ?b = "(unat va + unat len + 4095) div 4096"
  have top: "unat UTOP = 977920 * 4096" by (simp add: UTOP_val)
  have sum: "unat (va + len) = unat va + unat len"
    using lim unat_add_lem [of va len] by (simp add: top)
  have hi: "unat (ROUNDUP (va + len) PGSIZE) = ?b * 4096"
    using lim by (subst unat_ROUNDUP) (simp_all add: sum top)
  have lo: "unat (ROUNDDOWN va PGSIZE) = PGNUM va * 4096"
    by (simp add: unat_ROUNDDOWN PGNUM_eq)
  have b: "?b \<le> 977920" using lim by (simp add: top)
  have vs: "paginas (ROUNDDOWN va PGSIZE) (ROUNDUP (va + len) PGSIZE) =
      map (\<lambda>k. of_nat (k * 4096)) [PGNUM va..<?b]"
    by (rule paginas_num [OF lo hi])
  have hi_top: "\<not> ROUNDUP (va + len) PGSIZE > UTOP"
    using hi b by (simp add: word_less_nat_alt top)
  have v_top: "(of_nat (k * 4096) :: 32 word) < UTOP" if "k \<in> set [PGNUM va..<?b]" for k
    using that b unat_pagina [of k] by (simp add: word_less_nat_alt top del: of_nat_mult)
  have num: "PGNUM (of_nat (k * 4096)) = k" if "k \<in> set [PGNUM va..<?b]" for k
    using that b by (intro PGNUM_pagina) auto
  have mayor: "(of_nat (k * 4096) :: 32 word) > va \<longleftrightarrow> k \<noteq> PGNUM va" if "k \<in> set [PGNUM va..<?b]" for k
    using that b unat_pagina [of k] by (auto simp: word_less_nat_alt PGNUM_eq simp del: of_nat_mult)
  have fnd: "find (\<lambda>v. falta s pd perm (PGNUM v)) (map (\<lambda>k. of_nat (k * 4096)) [PGNUM va..<?b]) =
      map_option (\<lambda>k. of_nat (k * 4096)) (find (falta s pd perm) [PGNUM va..<?b])"
    unfolding find_map by (rule arg_cong [OF find_cong2]) (simp only: num)
  have "user_mem_check e va len perm s =
      user_mem_bucle e va perm (map (\<lambda>k. of_nat (k * 4096)) [PGNUM va..<?b]) s"
    using hi_top vs by (simp add: user_mem_check_def Let_def del: of_nat_mult)
  also have "\<dots> = (case find (falta s pd perm) [PGNUM va..<?b] of
       None \<Rightarrow> Inr (0, s)
     | Some k \<Rightarrow> Inr (- E_FAULT, s\<lparr>user_mem_check_addr :=
                                     (if k = PGNUM va then va else of_nat (k * 4096))\<rparr>))"
  proof -
    have todas: "\<forall>v\<in>set (map (\<lambda>k. of_nat (k * 4096)) [PGNUM va..<?b]). v < UTOP"
      using v_top by (auto simp del: of_nat_mult)
    show ?thesis
    proof (cases "find (falta s pd perm) [PGNUM va..<?b]")
      case None
      then show ?thesis
        unfolding user_mem_bucle_find [OF ok pd todas] fnd by simp
    next
      case (Some k)
      then have "k \<in> set [PGNUM va..<?b]" by (auto simp: find_Some_iff)
      then show ?thesis
        unfolding user_mem_bucle_find [OF ok pd todas] fnd Some
        using mayor by (simp del: of_nat_mult)
    qed
  qed
  finally show ?thesis .
qed

lemma user_mem_check_fuera:
  assumes "unat UTOP < unat va + unat len" and "unat va + unat len + 4095 < 2 ^ 32"
  shows "user_mem_check e va len perm s = Inr (- E_FAULT, s\<lparr>user_mem_check_addr := va\<rparr>)"
proof -
  have sum: "unat (va + len) = unat va + unat len"
    using assms(2) unat_add_lem [of va len] by simp
  have "unat (ROUNDUP (va + len) PGSIZE) \<ge> unat va + unat len"
    using assms(2) by (subst unat_ROUNDUP) (auto simp: sum)
  then have "ROUNDUP (va + len) PGSIZE > UTOP"
    using assms(1) by (simp add: word_less_nat_alt)
  then show ?thesis by (simp add: user_mem_check_def)
qed

lemma user_mem_check_vuelta: "user_mem_check e va (- va) perm s = Inr (0, s)"
proof -
  have r: "ROUNDUP (0 :: 32 word) PGSIZE = 0" by (simp add: ROUNDUP_def ROUNDDOWN_def PGSIZE_def)
  have "paginas lo 0 = []" for lo by (simp add: paginas_def)
  then show ?thesis by (simp add: user_mem_check_def r)
qed

end
