(* ===== verification/Kern_Env.thy ===== *)
theory Kern_Env
  imports Kern_Pmap
begin

text \<open>
  Environments (\<open>sched/kern/env.c\<close>): identifiers, allocation, release and the switch to one. An
  environment pointer is an index into \<open>envs\<close>. What \<open>context_switch\<close> does afterwards
  is not modelled; loading an ELF image is in \<open>Kern_Carga\<close>.
\<close>

section \<open>Identifiers\<close>

text \<open>The answer of \<open>envid2env\<close> is the return value and what it stores through \<open>env_store\<close>.\<close>

definition envid2env :: "32 word \<Rightarrow> bool \<Rightarrow> (int \<times> nat option) kern" where
  "envid2env envid checkperm s =
     (if envid = 0 then Inr ((0, curenv s), s)
      else let e = ENVX envid
           in if env_status (envs s ! e) = ENV_FREE \<or> env_id (envs s ! e) \<noteq> envid
              then Inr ((- E_BAD_ENV, None), s)
              else if checkperm \<and> Some e \<noteq> curenv s then
                (case curenv s of
                   None \<Rightarrow> Inl Indefinido
                 | Some c \<Rightarrow>
                     if env_parent_id (envs s ! e) \<noteq> env_id (envs s ! c)
                     then Inr ((- E_BAD_ENV, None), s) else Inr ((0, Some e), s))
              else Inr ((0, Some e), s))"

definition env_init :: "kst \<Rightarrow> kst" where
  "env_init s =
     (let s = fold (\<lambda>i. upd_env i (\<lambda>e. e\<lparr>env_id := 0, env_status := ENV_FREE,
                                         env_link := Some (i + 1)\<rparr>)) [0..<NENV] s;
          s = upd_env (NENV - 1) (env_link_update (\<lambda>_. None)) s
      in s\<lparr>env_free_list := Some 0\<rparr>)"


section \<open>Allocation\<close>

definition env_setup_vm :: "nat \<Rightarrow> int kern" where
  "env_setup_vm e s =
     and_then (page_alloc True s) (\<lambda>(p, s).
       case p of
         None \<Rightarrow> Inr (- E_NO_MEM, s)
       | Some p \<Rightarrow>
           and_then (page2kva p s) (\<lambda>(pd, s).
             let s = upd_env e (env_pgdir_update (\<lambda>_. Some pd)) s;
                 s = memcpy_pag pd (kern_pgdir s) s;
                 s = upd_page p (pp_ref_update (\<lambda>r. r + 1)) s
             in Inr (0, poke (pd, PDX UVPT) (page2pa pd OR PTE_P OR PTE_U) s)))"

definition GD_UT :: "16 word" where "GD_UT = 0x18"
definition GD_UD :: "16 word" where "GD_UD = 0x20"
definition FL_IF :: "32 word" where "FL_IF = 0x200"

definition tf_vacio :: trapframe where
  "tf_vacio =
     \<lparr>tf_regs = \<lparr>reg_edi = 0, reg_esi = 0, reg_ebp = 0, reg_oesp = 0, reg_ebx = 0, reg_edx = 0,
                 reg_ecx = 0, reg_eax = 0\<rparr>,
      tf_es = 0, tf_ds = 0, tf_trapno = 0, tf_err = 0, tf_eip = 0, tf_cs = 0, tf_eflags = 0,
      tf_esp = 0, tf_ss = 0\<rparr>"

text \<open>The new identifier, from the one the slot had.\<close>

definition nueva_id :: "32 word \<Rightarrow> nat \<Rightarrow> 32 word" where
  "nueva_id viejo e =
     (let generation = (viejo + push_bit ENVGENSHIFT 1) AND NOT (of_nat NENV - 1);
          generation = (if sint generation \<le> 0 then push_bit ENVGENSHIFT 1 else generation)
      in generation OR of_nat e)"

text \<open>The answer is the return value and what is stored through \<open>newenv_store\<close>, if anything.\<close>

definition env_alloc :: "32 word \<Rightarrow> (int \<times> nat option) kern" where
  "env_alloc parent_id s =
     (case env_free_list s of
        None \<Rightarrow> Inr ((- E_NO_FREE_ENV, None), s)
      | Some e \<Rightarrow>
          and_then (env_setup_vm e s) (\<lambda>(r, s).
            if r < 0 then Inr ((r, None), s)
            else
              let s = upd_env e (\<lambda>v. v\<lparr>
                        env_id := nueva_id (env_id v) e,
                        env_parent_id := parent_id,
                        env_type := 0,
                        env_status := ENV_RUNNABLE,
                        env_runs := 0,
                        env_priority := DEFAULT_PRIORITY,
                        env_wait_time := 0,
                        env_tf := tf_vacio\<lparr>tf_ds := GD_UD OR 3, tf_es := GD_UD OR 3,
                                          tf_ss := GD_UD OR 3, tf_esp := USTACKTOP,
                                          tf_cs := GD_UT OR 3, tf_eflags := FL_IF\<rparr>,
                        env_pgfault_upcall := 0,
                        env_ipc_recving := False\<rparr>) s
              in Inr ((0, Some e), s\<lparr>env_free_list := env_link (envs s ! e)\<rparr>)))"

definition region_alloc :: "nat \<Rightarrow> 32 word \<Rightarrow> 32 word \<Rightarrow> unit kern" where
  "region_alloc e va len s =
     (let va_lo = ROUNDDOWN va PGSIZE; va_hi = ROUNDUP (va + len) PGSIZE
      in if va_hi > UTOP then Inl (Panico ''region_alloc: cannot map in high va'')
         else recorre (\<lambda>va_act s.
           and_then (page_alloc False s) (\<lambda>(p, s).
             case p of
               None \<Rightarrow> Inl (Panico ''region_alloc: could not alloc page'')
             | Some p \<Rightarrow>
                 and_then (con_pgdir e (\<lambda>pd. page_insert pd p va_act (PTE_U OR PTE_W)) s) (\<lambda>(r, s).
                   if r \<noteq> 0 then Inl (Panico ''region_alloc: page_insert falied'')
                   else Inr ((), s)))) (paginas va_lo va_hi) s)"


section \<open>Release\<close>

text \<open>Unmapping the entries of one page table, and one directory entry of the user's part.\<close>

definition env_free_pt :: "nat \<Rightarrow> nat \<Rightarrow> nat \<Rightarrow> unit kern" where
  "env_free_pt pd pdeno pt s =
     recorre (\<lambda>pteno s. if peek s (pt, pteno) AND PTE_P \<noteq> 0
                        then page_remove pd (PGADDR pdeno pteno 0) s else Inr ((), s))
       [0..<Suc (PTX (NOT 0))] s"

definition env_free_pde :: "nat \<Rightarrow> nat \<Rightarrow> unit kern" where
  "env_free_pde pd pdeno s =
     (if peek s (pd, pdeno) AND PTE_P = 0 then Inr ((), s)
      else
        let pa = PTE_ADDR (peek s (pd, pdeno))
        in and_then (kaddr pa s) (\<lambda>(pt, s).
           and_then (env_free_pt pd pdeno pt s) (\<lambda>(_, s).
           and_then (pa2page pa (poke (pd, pdeno) 0 s)) (\<lambda>(pp, s).
             page_decref pp s))))"

definition env_free :: "nat \<Rightarrow> unit kern" where
  "env_free e s =
     (let s = (if Some e = curenv s then s\<lparr>cr3 := kern_pgdir s\<rparr> else s)
      in con_pgdir e (\<lambda>pd s.
        and_then (recorre (env_free_pde pd) [0..<PDX UTOP] s) (\<lambda>(_, s).
        and_then (pa2page (page2pa pd) (upd_env e (env_pgdir_update (\<lambda>_. None)) s)) (\<lambda>(pp, s).
        and_then (page_decref pp s) (\<lambda>(_, s).
          Inr ((), upd_env e (\<lambda>v. v\<lparr>env_status := ENV_FREE, env_link := env_free_list s\<rparr>) s
                     \<lparr>env_free_list := Some e\<rparr>))))) s)"


section \<open>Running\<close>

definition env_load_pgdir :: "nat \<Rightarrow> unit kern" where
  "env_load_pgdir e s =
     (case env_pgdir (envs s ! e) of
        None \<Rightarrow> Inl (Panico ''PADDR called with invalid kva'')
      | Some pd \<Rightarrow> Inr ((), s\<lparr>cr3 := pd\<rparr>))"

definition env_run :: "nat \<Rightarrow> kst \<Rightarrow> fin_kern" where
  "env_run e s =
     (let s = (case curenv s of
                 Some c \<Rightarrow> if env_status (envs s ! c) = ENV_RUNNING
                           then upd_env c (env_status_update (\<lambda>_. ENV_RUNNABLE)) s else s
               | None \<Rightarrow> s);
          s = s\<lparr>curenv := Some e\<rparr>;
          s = upd_env e (\<lambda>v. v\<lparr>env_status := ENV_RUNNING, env_runs := env_runs v + 1\<rparr>) s
      in case env_load_pgdir e s of
           Inl f \<Rightarrow> f
         | Inr (_, s) \<Rightarrow>
             let s = s\<lparr>kernel_lock := False\<rparr>
             in Corre e (upd_env e (env_cpunum_update (\<lambda>_. cpunum s)) s))"

end
