(* ===== verification/Kern_Sched.thy ===== *)
theory Kern_Sched
  imports Kern_Env
begin

text \<open>
  The two schedulers, their statistics and the idle loop (\<open>sched/kern/sched.c\<close>), and what the kernel
  does through them: \<open>env_destroy\<close> (\<open>kern/env.c\<close>) and \<open>user_mem_assert\<close> (\<open>kern/pmap.c\<close>). Signed
  integers are read with \<^const>\<open>sint\<close>. \<open>print_sched_stats\<close> only prints.
\<close>

section \<open>Statistics\<close>

definition MAX_WAIT_TIME :: int where "MAX_WAIT_TIME = 3"

definition init_sched_stats :: "kst \<Rightarrow> kst" where
  "init_sched_stats s = s\<lparr>stats := (stats s)\<lparr>
     sched_calls := 0, history_index := 0, history_count := 0, global_time := 0,
     runs := (\<lambda>i. if i < NENV then 0 else runs (stats s) i),
     env_start_time := (\<lambda>i. if i < NENV then 0 else env_start_time (stats s) i),
     env_end_time := (\<lambda>i. if i < NENV then 0 else env_end_time (stats s) i),
     prev_env_status := (\<lambda>i. if i < NENV then ENV_FREE else prev_env_status (stats s) i)\<rparr>\<rparr>"

definition record_env_run :: "nat \<Rightarrow> kst \<Rightarrow> kst" where
  "record_env_run e s =
     (let env_idx = ENVX (env_id (envs s ! e)); t = stats s;
          t = t\<lparr>runs := (runs t)(env_idx := runs t env_idx + 1)\<rparr>;
          t = t\<lparr>history := (history t)(history_index t := env_id (envs s ! e))\<rparr>;
          t = t\<lparr>history_index := (history_index t + 1) mod 100\<rparr>;
          t = (if history_count t < 100 then t\<lparr>history_count := history_count t + 1\<rparr> else t);
          t = (if runs t env_idx = 1
               then t\<lparr>env_start_time := (env_start_time t)(env_idx := global_time t)\<rparr> else t)
      in s\<lparr>stats := t\<rparr>)"

definition record_env_exit :: "nat \<Rightarrow> kst \<Rightarrow> kst" where
  "record_env_exit e s =
     (let env_idx = ENVX (env_id (envs s ! e)); t = stats s
      in if env_end_time t env_idx = 0 \<and> env_start_time t env_idx \<ge> 0
         then s\<lparr>stats := t\<lparr>env_end_time := (env_end_time t)(env_idx := global_time t)\<rparr>\<rparr> else s)"


section \<open>Choosing an environment\<close>

definition raise_priority :: "nat \<Rightarrow> kst \<Rightarrow> kst" where
  "raise_priority e s =
     (if sint (env_priority (envs s ! e)) < 5 then upd_env e (env_priority_update (\<lambda>p. p + 1)) s
      else s)"

definition lower_priority :: "nat \<Rightarrow> kst \<Rightarrow> kst" where
  "lower_priority e s =
     (if sint (env_priority (envs s ! e)) > 0 then upd_env e (env_priority_update (\<lambda>p. p - 1)) s
      else s)"

definition sched_halt :: "kst \<Rightarrow> fin_kern" where
  "sched_halt s =
     (if \<forall>i\<in>{0..<NENV}. \<not> (env_status (envs s ! i) = ENV_RUNNABLE \<or>
           env_status (envs s ! i) = ENV_RUNNING \<or> env_status (envs s ! i) = ENV_DYING)
      then EnMonitor s
      else Halta (s\<lparr>curenv := None, cr3 := kern_pgdir s, cpu_status := CPU_HALTED,
                   kernel_lock := False\<rparr>))"

text \<open>The loop that notes the environments that are no longer active.\<close>

definition anota_salida :: "nat \<Rightarrow> kst \<Rightarrow> kst" where
  "anota_salida i s =
     (let st = env_status (envs s ! i); prev = prev_env_status (stats s) i;
          s = (if (st \<noteq> ENV_RUNNABLE \<and> st \<noteq> ENV_RUNNING) \<and>
                  (prev = ENV_RUNNABLE \<or> prev = ENV_RUNNING) then record_env_exit i s else s)
      in s\<lparr>stats := (stats s)\<lparr>prev_env_status := (prev_env_status (stats s))(i := st)\<rparr>\<rparr>)"

definition anota :: "kst \<Rightarrow> kst" where
  "anota s =
     (let s = s\<lparr>stats := (stats s)\<lparr>global_time := global_time (stats s) + 1,
                                  sched_calls := sched_calls (stats s) + 1\<rparr>\<rparr>
      in fold anota_salida [0..<NENV] s)"

definition comienzo :: "kst \<Rightarrow> nat" where
  "comienzo s = (case curenv s of Some c \<Rightarrow> ENVX (env_id (envs s ! c)) | None \<Rightarrow> 0)"

text \<open>The round-robin search: the first runnable environment at \<open>(start + i) % NENV\<close>.\<close>

fun busca_rr :: "kst \<Rightarrow> nat \<Rightarrow> nat list \<Rightarrow> nat option" where
  "busca_rr s start [] = None"
| "busca_rr s start (i # is) =
     (let idx = (start + i) mod NENV
      in if env_status (envs s ! idx) = ENV_RUNNABLE then Some idx else busca_rr s start is)"

definition sched_rr :: "kst \<Rightarrow> fin_kern" where
  "sched_rr s =
     (case busca_rr s (comienzo s) [1..<NENV + 1] of
        Some idx \<Rightarrow> env_run idx (record_env_run idx s)
      | None \<Rightarrow>
          (case curenv s of
             Some c \<Rightarrow> if env_status (envs s ! c) = ENV_RUNNING
                       then env_run c (record_env_run c s) else sched_halt s
           | None \<Rightarrow> sched_halt s))"

text \<open>One turn of the loop of the priority scheduler: \<open>max_e\<close>, then ageing.\<close>

definition paso_pr :: "nat \<Rightarrow> nat \<Rightarrow> nat option \<times> kst \<Rightarrow> nat option \<times> kst" where
  "paso_pr start i m =
     (let max_e = fst m; s = snd m; idx = (start + i) mod NENV;
          max_e = (if env_status (envs s ! idx) = ENV_RUNNABLE \<and>
                      (max_e = None \<or> sint (env_priority (envs s ! idx)) >
                                      sint (env_priority (envs s ! the max_e)))
                   then Some idx else max_e);
          s = (if sint (env_wait_time (envs s ! idx)) \<ge> MAX_WAIT_TIME
               then upd_env idx (env_wait_time_update (\<lambda>_. 0)) (raise_priority idx s) else s)
      in (max_e, upd_env idx (env_wait_time_update (\<lambda>t. t + 1)) s))"

definition corre_pr :: "nat \<Rightarrow> kst \<Rightarrow> fin_kern" where
  "corre_pr e s =
     env_run e (record_env_run e (upd_env e (env_wait_time_update (\<lambda>_. 0)) (lower_priority e s)))"

definition sched_pr :: "kst \<Rightarrow> fin_kern" where
  "sched_pr s =
     (let m = fold (paso_pr (comienzo s)) [1..<NENV + 1] (None, s); s = snd m
      in case fst m of
           Some e \<Rightarrow> corre_pr e s
         | None \<Rightarrow>
             (case curenv s of
                Some c \<Rightarrow> if env_status (envs s ! c) = ENV_RUNNING then corre_pr c s
                          else sched_halt s
              | None \<Rightarrow> sched_halt s))"

definition sched_yield :: "kst \<Rightarrow> fin_kern" where
  "sched_yield s =
     (let s = anota s
      in case sched_modo s of
           SCHED_ROUND_ROBIN \<Rightarrow> sched_rr s
         | SCHED_PRIORITIES \<Rightarrow> sched_pr s)"


section \<open>Destroying an environment\<close>

definition env_destroy :: "nat \<Rightarrow> unit kern" where
  "env_destroy e s =
     (if env_status (envs s ! e) = ENV_RUNNING \<and> curenv s \<noteq> Some e
      then Inr ((), upd_env e (env_status_update (\<lambda>_. ENV_DYING)) s)
      else and_then (env_free e s) (\<lambda>(_, s).
        if curenv s = Some e then Inl (sched_yield (s\<lparr>curenv := None\<rparr>)) else Inr ((), s)))"

definition user_mem_assert :: "nat \<Rightarrow> 32 word \<Rightarrow> 32 word \<Rightarrow> 32 word \<Rightarrow> unit kern" where
  "user_mem_assert e va len perm s =
     and_then (user_mem_check e va len (perm OR PTE_U) s) (\<lambda>(r, s).
       if r < 0 then env_destroy e s else Inr ((), s))"

end
