(* ===== verification/Kern_Syscall.thy ===== *)
theory Kern_Syscall
  imports Kern_Sched
begin

text \<open>
  The system calls (\<open>sched/kern/syscall.c\<close>). A handler's answer is what it returns to the caller;
  \<open>Inl\<close> when the kernel does not come back to it. What \<open>sys_cputs\<close> prints is not modelled.
\<close>

section \<open>Helpers\<close>

text \<open>\<open>(int) envid2env(...)\<close> followed by a use of the pointer.\<close>

definition con_env :: "nat option \<Rightarrow> (nat \<Rightarrow> 'a kern) \<Rightarrow> 'a kern" where
  "con_env e f s = (case e of None \<Rightarrow> Inl Indefinido | Some e \<Rightarrow> f e s)"

text \<open>\<open>pte\<close> is the entry a pointer leads to, or \<open>None\<close> for a null pointer.\<close>

definition check_perm :: "32 word \<Rightarrow> 32 word option \<Rightarrow> int" where
  "check_perm perm pte =
     (if perm AND NOT PTE_SYSCALL \<noteq> 0 then - E_INVAL
      else if perm AND PTE_P = 0 \<or> perm AND PTE_U = 0 then - E_INVAL
      else case pte of
             None \<Rightarrow> 0
           | Some v \<Rightarrow>
               if v \<noteq> 0 \<and> v AND PTE_P = 0 then - E_INVAL
               else if perm AND PTE_W \<noteq> 0 \<and> v AND PTE_W = 0 then - E_INVAL else 0)"

definition env_page_alloc :: "nat \<Rightarrow> 32 word \<Rightarrow> 32 word \<Rightarrow> int kern" where
  "env_page_alloc env va perm s =
     (let err = check_perm perm None
      in if err < 0 then Inr (err, s)
         else and_then (page_alloc True s) (\<lambda>(p, s).
           case p of
             None \<Rightarrow> Inr (- E_NO_MEM, s)
           | Some p \<Rightarrow> con_pgdir env (\<lambda>pd. page_insert pd p va perm) s))"

definition env_page_map :: "nat \<Rightarrow> 32 word \<Rightarrow> nat \<Rightarrow> 32 word \<Rightarrow> 32 word \<Rightarrow> int kern" where
  "env_page_map srcenv srcva dstenv dstva perm s =
     and_then (con_pgdir srcenv (\<lambda>pd. page_lookup pd srcva) s) (\<lambda>(r, s).
       case r of
         None \<Rightarrow> Inr (- E_INVAL, s)
       | Some (page, srcpte) \<Rightarrow>
           if (perm AND PTE_W) AND NOT (PTE_W AND peek s srcpte) \<noteq> 0 then Inr (- E_INVAL, s)
           else con_pgdir dstenv (\<lambda>pd. page_insert pd page dstva perm) s)"

definition va_mala :: "32 word \<Rightarrow> bool" where
  "va_mala va \<longleftrightarrow> va \<ge> UTOP \<or> va mod PGSIZE \<noteq> 0"


section \<open>Handlers\<close>

definition sys_cputs :: "32 word \<Rightarrow> 32 word \<Rightarrow> unit kern" where
  "sys_cputs str len s = con_env (curenv s) (\<lambda>c. user_mem_assert c str len (PTE_P OR PTE_W OR PTE_U)) s"

definition sys_cgetc :: "int kern" where
  "sys_cgetc s = (let (c, k) = cons_getc (cons s) in Inr (c, s\<lparr>cons := k\<rparr>))"

definition sys_getenvid :: "int kern" where
  "sys_getenvid s = con_env (curenv s) (\<lambda>c s. Inr (sint (env_id (envs s ! c)), s)) s"

definition sys_env_destroy :: "32 word \<Rightarrow> int kern" where
  "sys_env_destroy envid s =
     and_then (envid2env envid True s) (\<lambda>((r, e), s).
       if r < 0 then Inr (r, s)
       else con_env e (\<lambda>e s. and_then (env_destroy e s) (\<lambda>(_, s). Inr (0, s))) s)"

definition sys_yield :: "'a kern" where
  "sys_yield s = Inl (sched_yield s)"

definition sys_exofork :: "int kern" where
  "sys_exofork s = con_env (curenv s) (\<lambda>c s.
     and_then (env_alloc (env_id (envs s ! c)) s) (\<lambda>((r, newenv), s).
       if r \<noteq> 0 then Inr (r, s)
       else con_env newenv (\<lambda>n s.
         let tf = env_tf (envs s ! c);
             s = upd_env n (\<lambda>v. v\<lparr>env_status := ENV_NOT_RUNNABLE,
                                 env_tf := tf\<lparr>tf_regs := (tf_regs tf)\<lparr>reg_eax := 0\<rparr>\<rparr>\<rparr>) s
         in Inr (sint (env_id (envs s ! n)), s)) s)) s"

text \<open>The status as the number a program passes.\<close>

definition estado_num :: "32 word \<Rightarrow> env_estado option" where
  "estado_num st = (if st = 2 then Some ENV_RUNNABLE else if st = 4 then Some ENV_NOT_RUNNABLE
                    else None)"

definition sys_env_set_status :: "32 word \<Rightarrow> 32 word \<Rightarrow> int kern" where
  "sys_env_set_status envid status s =
     (case estado_num status of
        None \<Rightarrow> Inr (- E_INVAL, s)
      | Some st \<Rightarrow>
          and_then (envid2env envid True s) (\<lambda>((r, env), s).
            if r \<noteq> 0 then Inr (r, s)
            else con_env env (\<lambda>e s. Inr (0, upd_env e (env_status_update (\<lambda>_. st)) s)) s))"

definition sys_env_set_pgfault_upcall :: "32 word \<Rightarrow> 32 word \<Rightarrow> int kern" where
  "sys_env_set_pgfault_upcall envid func s =
     and_then (envid2env envid True s) (\<lambda>((r, env), s).
       if r \<noteq> 0 then Inr (r, s)
       else con_env env (\<lambda>e s.
         and_then (user_mem_assert e func PGSIZE (PTE_P OR PTE_U) s) (\<lambda>(_, s).
           Inr (0, upd_env e (env_pgfault_upcall_update (\<lambda>_. func)) s))) s)"

definition sys_page_alloc :: "32 word \<Rightarrow> 32 word \<Rightarrow> 32 word \<Rightarrow> int kern" where
  "sys_page_alloc envid va perm s =
     (if va_mala va then Inr (- E_INVAL, s)
      else and_then (envid2env envid True s) (\<lambda>((r, env), s).
        if r \<noteq> 0 then Inr (r, s)
        else con_env env (\<lambda>e. env_page_alloc e va (perm OR PTE_U OR PTE_P)) s))"

definition sys_page_map ::
  "32 word \<Rightarrow> 32 word \<Rightarrow> 32 word \<Rightarrow> 32 word \<Rightarrow> 32 word \<Rightarrow> int kern" where
  "sys_page_map srcenvid srcva dstenvid dstva perm s =
     (if va_mala srcva then Inr (- E_INVAL, s)
      else if va_mala dstva then Inr (- E_INVAL, s)
      else and_then (envid2env srcenvid True s) (\<lambda>((r, srcenv), s).
        if r \<noteq> 0 then Inr (r, s)
        else and_then (envid2env dstenvid True s) (\<lambda>((r, dstenv), s).
          if r \<noteq> 0 then Inr (r, s)
          else con_env srcenv (\<lambda>se. con_env dstenv (\<lambda>de.
                 env_page_map se srcva de dstva (PTE_P OR PTE_U OR perm))) s)))"

definition sys_page_unmap :: "32 word \<Rightarrow> 32 word \<Rightarrow> int kern" where
  "sys_page_unmap envid va s =
     (if va_mala va then Inr (- E_INVAL, s)
      else and_then (envid2env envid True s) (\<lambda>((r, env), s).
        if r \<noteq> 0 then Inr (r, s)
        else con_env env (\<lambda>e s.
          and_then (con_pgdir e (\<lambda>pd. page_remove pd va) s) (\<lambda>(_, s). Inr (0, s))) s))"

text \<open>The last steps of a send, from the label \<open>bail\<close>.\<close>

definition ipc_bail :: "nat \<Rightarrow> 32 word \<Rightarrow> int kern" where
  "ipc_bail d value s = con_env (curenv s) (\<lambda>c s.
     Inr (0, upd_env d (\<lambda>v. v\<lparr>
       env_ipc_from := env_id (envs s ! c),
       env_ipc_recving := False,
       env_ipc_value := value,
       env_tf := (env_tf v)\<lparr>tf_regs := (tf_regs (env_tf v))\<lparr>reg_eax := 0\<rparr>\<rparr>,
       env_status := ENV_RUNNABLE\<rparr>) s)) s"

text \<open>
  The part of a send that checks and maps the page. \<open>srcpte\<close> is uninitialised when \<open>page_lookup\<close>
  finds no page, and is read all the same.
\<close>

definition ipc_pagina :: "nat \<Rightarrow> 32 word \<Rightarrow> 32 word \<Rightarrow> int kern" where
  "ipc_pagina d srcva perm s = con_env (curenv s) (\<lambda>c s.
     and_then (con_pgdir c (\<lambda>pd. page_lookup pd srcva) s) (\<lambda>(r, s).
       case r of
         None \<Rightarrow> Inl Indefinido
       | Some (_, q) \<Rightarrow>
           let srcpte = peek s q
           in if srcpte \<noteq> 0 \<and> srcpte AND PTE_P = 0 then Inr (- E_INVAL, s)
              else if perm AND PTE_W \<noteq> 0 \<and> srcpte AND PTE_W = 0 then Inr (- E_INVAL, s)
              else
                let perm = perm OR (PTE_U OR PTE_P); dstva = env_ipc_dstva (envs s ! d)
                in if dstva = 0 then Inr (0, s)
                   else and_then (env_page_alloc d dstva perm s) (\<lambda>(r, s).
                     if r < 0 then Inr (r, s)
                     else and_then (env_page_map c srcva d (env_ipc_dstva (envs s ! d)) perm s) (\<lambda>(r, s).
                       if r < 0 then Inr (r, s)
                       else Inr (0, upd_env d (env_ipc_perm_update (\<lambda>_. perm)) s))))) s"

definition sys_ipc_try_send :: "32 word \<Rightarrow> 32 word \<Rightarrow> 32 word \<Rightarrow> 32 word \<Rightarrow> int kern" where
  "sys_ipc_try_send envid value srcva perm s =
     and_then (envid2env envid False s) (\<lambda>((r, dstenv), s).
       if r \<noteq> 0 then Inr (r, s)
       else con_env dstenv (\<lambda>d s.
         if \<not> env_ipc_recving (envs s ! d) then Inr (- E_IPC_NOT_RECV, s)
         else if srcva \<ge> UTOP then ipc_bail d value (upd_env d (env_ipc_perm_update (\<lambda>_. 0)) s)
         else if srcva mod PGSIZE \<noteq> 0 then Inr (- E_INVAL, s)
         else and_then (ipc_pagina d srcva perm s) (\<lambda>(r, s).
           if r < 0 then Inr (r, s) else ipc_bail d value s)) s)"

definition sys_ipc_recv :: "32 word \<Rightarrow> int kern" where
  "sys_ipc_recv dstva s = con_env (curenv s) (\<lambda>c s.
     let s = upd_env c (env_ipc_recving_update (\<lambda>_. True)) s
     in if va_mala dstva then Inr (- E_INVAL, s)
        else sys_yield (upd_env c (\<lambda>v. v\<lparr>env_ipc_dstva := dstva, env_status := ENV_NOT_RUNNABLE\<rparr>) s)) s"

definition sys_env_get_priority :: "32 word \<Rightarrow> int kern" where
  "sys_env_get_priority envid s =
     and_then (envid2env envid True s) (\<lambda>((r, e), s).
       if r < 0 then Inr (-1, s)
       else con_env e (\<lambda>e s. Inr (sint (env_priority (envs s ! e)), s)) s)"

definition sys_env_lower_priority :: "32 word \<Rightarrow> int kern" where
  "sys_env_lower_priority envid s =
     and_then (envid2env envid True s) (\<lambda>((r, e), s).
       if r < 0 then Inr (-1, s)
       else con_env e (\<lambda>e s. Inr (0, upd_env e (env_priority_update (\<lambda>p. p - 1)) s)) s)"


section \<open>Dispatch\<close>

text \<open>The numbers are those of \<open>inc/syscall.h\<close>, in its order.\<close>

definition syscall ::
  "32 word \<Rightarrow> 32 word \<Rightarrow> 32 word \<Rightarrow> 32 word \<Rightarrow> 32 word \<Rightarrow> 32 word \<Rightarrow> int kern" where
  "syscall syscallno a1 a2 a3 a4 a5 s =
     (if syscallno = 0 then and_then (sys_cputs a1 a2 s) (\<lambda>(_, s). Inr (0, s))
      else if syscallno = 2 then sys_getenvid s
      else if syscallno = 3 then sys_env_destroy a1 s
      else if syscallno = 1 then sys_cgetc s
      else if syscallno = 7 then sys_exofork s
      else if syscallno = 8 then sys_env_set_status a1 a2 s
      else if syscallno = 4 then sys_page_alloc a1 a2 a3 s
      else if syscallno = 5 then sys_page_map a1 a2 a3 a4 a5 s
      else if syscallno = 6 then sys_page_unmap a1 a2 s
      else if syscallno = 12 then sys_ipc_recv a1 s
      else if syscallno = 11 then sys_ipc_try_send a1 a2 a3 a4 s
      else if syscallno = 9 then sys_env_set_pgfault_upcall a1 a2 s
      else if syscallno = 10 then sys_yield s
      else if syscallno = 13 then sys_env_get_priority a1 s
      else if syscallno = 14 then sys_env_lower_priority a1 s
      else Inr (- E_INVAL, s))"

end
