(* ===== verification/Kern_Mem_Contrato.thy ===== *)
theory Kern_Mem_Contrato
  imports Kern_Vm Kern_Syscall
begin

text \<open>
  What the kernel's memory code promises: the page allocator, its start, the page tables, and the
  check of user memory, with the inputs on which a check fails. \<open>kst_ej\<close> is a small concrete state on
  which the hypotheses are seen to hold.
\<close>

section \<open>A concrete state\<close>

definition env_ej :: env where
  "env_ej = \<lparr>env_tf = tf_vacio, env_link = None, env_id = 0, env_parent_id = 0, env_type = 0,
     env_status = ENV_FREE, env_runs = 0, env_cpunum = 0, env_pgdir = None, env_pgfault_upcall = 0,
     env_ipc_recving = False, env_ipc_dstva = 0, env_ipc_value = 0, env_ipc_from = 0,
     env_ipc_perm = 0, env_priority = 0, env_wait_time = 0\<rparr>"

definition stats_ej :: sched_stats where
  "stats_ej = \<lparr>sched_calls = 0, runs = (\<lambda>_. 0), history = (\<lambda>_. 0), history_index = 0,
     history_count = 0, env_start_time = (\<lambda>_. 0), env_end_time = (\<lambda>_. 0), global_time = 0,
     prev_env_status = (\<lambda>_. ENV_FREE)\<rparr>"

definition cons_ej :: consola where
  "cons_ej = \<lparr>cons_buf = replicate 512 0, cons_rpos = 0, cons_wpos = 0, serial_exists = True,
     serial_in = [], kbd_in = [], kbd_shift = 0, reinicia = False, crt_buf = (\<lambda>_. 0), crt_pos = 0,
     cursor = 0, serial_out = [], lpt_out = []\<rparr>"

text \<open>Six pages: 3 and 2 are free, memory is zero, environment 0 runs with directory 1.\<close>

definition kst_ej :: kst where
  "kst_ej = \<lparr>npages = 6,
     pages = [\<lparr>pp_link = None, pp_ref = 1\<rparr>, \<lparr>pp_link = None, pp_ref = 1\<rparr>,
              \<lparr>pp_link = None, pp_ref = 0\<rparr>, \<lparr>pp_link = Some 2, pp_ref = 0\<rparr>,
              \<lparr>pp_link = None, pp_ref = 0\<rparr>, \<lparr>pp_link = None, pp_ref = 1\<rparr>],
     page_free_list = Some 3, mem = (\<lambda>_ _. 0), kern_pgdir = 0, nextfree = 0, mmio_base = MMIOBASE,
     user_mem_check_addr = 0,
     envs = (replicate 1024 env_ej)[0 := env_ej\<lparr>env_id := 0x1000, env_status := ENV_RUNNING,
                                              env_pgdir := Some 1\<rparr>],
     env_free_list = Some 1, curenv = Some 0, cpunum = 0, cpu_status = CPU_STARTED,
     kernel_lock = True, cr3 = 1, invlpg = [], sched_modo = SCHED_ROUND_ROBIN, stats = stats_ej,
     cons = cons_ej\<rparr>"

lemma kst_ej_mem:
  "npages kst_ej = 6" "page_free_list kst_ej = Some 3" "mem kst_ej = (\<lambda>_ _. 0)"
  "pages kst_ej = [\<lparr>pp_link = None, pp_ref = 1\<rparr>, \<lparr>pp_link = None, pp_ref = 1\<rparr>,
     \<lparr>pp_link = None, pp_ref = 0\<rparr>, \<lparr>pp_link = Some 2, pp_ref = 0\<rparr>,
     \<lparr>pp_link = None, pp_ref = 0\<rparr>, \<lparr>pp_link = None, pp_ref = 1\<rparr>]"
  by (simp_all add: kst_ej_def)

lemma libres_ej: "libres_ok kst_ej [3, 2]"
proof -
  have "(\<forall>i<6. P i) \<longleftrightarrow> P 0 \<and> P 1 \<and> P 2 \<and> P 3 \<and> P 4 \<and> P (5::nat)" for P
    by (simp add: numeral_eq_Suc All_less_Suc conj_ac)
  then show ?thesis by (simp add: libres_ok_def kst_ej_mem)
qed

lemma vm_vacia:
  assumes "libres_ok s xs" and "mem s = (\<lambda>_ _. 0)" and "finite P" and "P \<subseteq> {..<npages s} - set xs"
  shows "vm_ok s P xs"
proof -
  have "ent s r = 0" for r by (cases r) (simp add: ent_def assms(2))
  moreover have "pdes s P = {}" by (auto simp: pdes_def assms(2))
  ultimately show ?thesis using assms by (simp add: vm_ok_def usos_def)
qed

lemma vm_ej: "vm_ok kst_ej {1} [3, 2]"
  by (rule vm_vacia [OF libres_ej]) (simp_all add: kst_ej_mem)


text \<open>The same with page 4 mapped, writable, at entry \<open>b\<close> of table \<open>a\<close>, which is in page 5.\<close>

definition kst_una :: "nat \<Rightarrow> nat \<Rightarrow> kst" where
  "kst_una a b = kst_ej\<lparr>mem := (\<lambda>f i. if f = 1 \<and> i = a then pde_de 5
                                 else if f = 5 \<and> i = b then page2pa 4 OR PTE_P OR PTE_W OR PTE_U
                                 else 0),
                   pages := (pages kst_ej)[4 := \<lparr>pp_link = None, pp_ref = 1\<rparr>]\<rparr>"

lemma kst_una_sel: "npages (kst_una a b) = 6" "page_free_list (kst_una a b) = Some 3"
  "mem (kst_una a b) = (\<lambda>f i. if f = 1 \<and> i = a then pde_de 5
                      else if f = 5 \<and> i = b then page2pa 4 OR PTE_P OR PTE_W OR PTE_U else 0)"
  "pages (kst_una a b) = [\<lparr>pp_link = None, pp_ref = 1\<rparr>, \<lparr>pp_link = None, pp_ref = 1\<rparr>,
     \<lparr>pp_link = None, pp_ref = 0\<rparr>, \<lparr>pp_link = Some 2, pp_ref = 0\<rparr>,
     \<lparr>pp_link = None, pp_ref = 1\<rparr>, \<lparr>pp_link = None, pp_ref = 1\<rparr>]"
  "curenv (kst_una a b) = Some 0" "env_pgdir (envs (kst_una a b) ! 0) = Some 1"
  by (simp_all add: kst_una_def kst_ej_mem) (simp_all add: kst_ej_def)

lemma page2pa_4: "page2pa 4 = 0x4000"
  by (simp add: page2pa_def push_bit_eq_mult)

lemma entrada_4: "PGNUM (page2pa 4 OR PTE_P OR PTE_W OR PTE_U) = 4" "page2pa 4 OR PTE_P OR PTE_W OR PTE_U \<noteq> 0"
  by (simp_all add: page2pa_4 permisos PGNUM_eq)

lemma kst_una_mem:
  "mem (kst_una a b) 1 i = (if i = a then pde_de 5 else 0)"
  "mem (kst_una a b) 5 i = (if i = b then page2pa 4 OR PTE_P OR PTE_W OR PTE_U else 0)"
  by (simp_all add: kst_una_sel(3))

lemma kst_una_ent:
  "ent (kst_una a b) (1, d, t) = (if d = a \<and> t = b then page2pa 4 OR PTE_P OR PTE_W OR PTE_U else 0)"
  by (simp add: ent_def kst_una_mem del: One_nat_def)

lemma vm_una:
  assumes "a < NU"
  shows "vm_ok (kst_una a b) {1} [3, 2]"
proof -
  let ?s = "kst_una a b"
  have seis: "(\<forall>i<6. P i) \<longleftrightarrow> P 0 \<and> P 1 \<and> P 2 \<and> P 3 \<and> P 4 \<and> P (5::nat)" for P
    by (simp add: numeral_eq_Suc All_less_Suc conj_ac)
  have lib: "libres_ok ?s [3, 2]" by (simp add: libres_ok_def kst_una_sel seis)
  have pdes: "pdes ?s {1} = {(1, a)}" using assms by (auto simp: pdes_def kst_una_sel(3))
  have te: "tabla_en ?s (1, a) = 5" by (simp add: tabla_en_def kst_una_sel(3))
  have ent: "ent ?s r = (if r = (1, a, b) then page2pa 4 OR PTE_P OR PTE_W OR PTE_U else 0)"
    if "r \<in> ranuras {1}" for r
    using that by (auto simp: ranuras_def kst_una_ent simp del: One_nat_def split: if_splits)
  have usos: "usos ?s {1} f \<subseteq> (if f = 4 then {(1, a, b)} else {})" for f
    using ent entrada_4 by (auto simp: usos_def split: if_splits)
  have "card (usos ?s {1} f) \<le> unat (pp_ref (pages ?s ! f))" for f
  proof (cases "f = 4")
    case True
    then have "card (usos ?s {1} f) \<le> card {(1::nat, a, b)}"
      using usos [of f] by (intro card_mono) auto
    with True show ?thesis by (simp add: kst_una_sel(4))
  next
    case False
    then have "usos ?s {1} f = {}" using usos [of f] by simp
    then show ?thesis by simp
  qed
  moreover have "PGNUM (ent ?s r) \<in> {..<npages ?s} - set [3, 2] - {1} - tabla_en ?s ` pdes ?s {1}"
    if "r \<in> ranuras {1}" "ent ?s r \<noteq> 0" for r
    using that ent [OF that(1)] entrada_4
    by (auto simp: pdes te kst_una_sel(1) simp del: One_nat_def split: if_splits)
  ultimately show ?thesis
    using lib unfolding vm_ok_def by (simp add: pdes te kst_una_sel(1) del: One_nat_def)
qed


section \<open>The page allocator\<close>

text \<open>
  C16: page_alloc refines a pool. If the free list holds the frames xs, then n calls of page_alloc
  return the first n of them, each once, in order, and stop with NULL when they run out; the free
  list left holds the rest.
\<close>
theorem paginas_distintas:
  assumes "libres_ok s xs"
  shows "\<exists>t. pide_n (page_alloc zero) n s = Inr (take n xs, t) \<and> distinct (take n xs) \<and>
             libres_ok t (drop n xs)"
  using lp.pide_n_toma [OF assms, of zero n] libres_okD(4) [OF assms] by auto

theorem paginas_distintas_witness:
  "\<exists>t. pide_n (page_alloc True) 5 kst_ej = Inr ([3, 2], t) \<and> distinct [3::nat, 2] \<and> libres_ok t []"
  using paginas_distintas [OF libres_ej, of True 5] by simp

text \<open>
  Page_free looks for double frees through pp_link alone. Freeing a page of the free list again
  panics for every page but the last one, which is accepted: the next page_alloc then hands that page
  out and leaves the very same free list, with the page still in it.
\<close>
theorem doble_liberacion:
  assumes "libres_ok s xs" and "p \<in> set xs"
  shows "if p = last xs
         then \<exists>t. page_free p s = Inr ((), t) \<and> page_alloc False t = Inr (Some p, s)
         else page_free p s = Inl (Panico ''page_free: pp_link is not NULL'')"
proof -
  note D = libres_okD [OF assms(1)]
  have p: "pp_ref (pages s ! p) = 0" "p < length (pages s)"
    "pp_link (pages s ! p) = None \<longleftrightarrow> p = last xs"
    using D(2,6,7) assms(2) cadena_links [OF D(1) assms(2)] by auto
  show ?thesis
  proof (cases "p = last xs")
    case True
    then have link: "pp_link (pages s ! p) = None" using p by simp
    have "page_free p s = Inr ((), devuelta p s)"
      using p link by (simp add: page_free_def devuelta_def)
    moreover have "(pages s)[p := (pages s ! p)\<lparr>pp_link := None\<rparr>] = pages s"
      using link p(2) by (cases "pages s ! p") (simp add: list_update_same_conv)
    then have "page_alloc False (devuelta p s) = Inr (Some p, s)"
      using p by (simp add: page_alloc_def devuelta_def upd_page_def Let_def)
    ultimately show ?thesis using True by auto
  qed (use p in \<open>simp add: page_free_def\<close>)
qed

theorem doble_liberacion_witness:
  "\<exists>t. page_free 2 kst_ej = Inr ((), t) \<and> page_alloc False t = Inr (Some 2, kst_ej)"
  using doble_liberacion [OF libres_ej, of 2] by simp


text \<open>
  C17: page_init on the zeroed page array frees every frame once, except frame 0, the frame of
  MPENTRY_PADDR, the I/O hole and the extended memory below the kernel's last allocation k, which it
  leaves out of the list; the list comes out in descending order.
\<close>
theorem page_init_libera:
  assumes "libres_ok s []" and "\<forall>i<npages s. pp_ref (pages s ! i) = 0"
    and "0 < k" and "k < npages s" and "npages s \<le> 2 ^ 16" and "nextfree s = KERNBASE + page2pa k"
  shows "\<exists>t. page_init kend s = Inr ((), t) \<and>
    libres_ok t (rev (filter (\<lambda>i. i \<noteq> 0 \<and> i \<noteq> 7 \<and> (i < 160 \<or> 256 \<le> i) \<and> (i < 256 \<or> k \<le> i))
                       [0..<npages s]))"
proof -
  have "pagina_libre k = (\<lambda>i. i \<noteq> 0 \<and> i \<noteq> 7 \<and> (i < 160 \<or> 256 \<le> i) \<and> (i < 256 \<or> k \<le> i))"
    by (auto simp: pagina_libre_def fun_eq_iff)
  then show ?thesis
    using page_init_hasta [OF assms, of "npages s" kend] by (auto simp: page_init_def)
qed

definition kst_ini :: kst where
  "kst_ini = kst_ej\<lparr>npages := 10, pages := replicate 10 \<lparr>pp_link = None, pp_ref = 0\<rparr>,
                    page_free_list := None, nextfree := KERNBASE + page2pa 9\<rparr>"

theorem page_init_libera_witness:
  "\<exists>t. page_init 0 kst_ini = Inr ((), t) \<and> libres_ok t [9, 8, 6, 5, 4, 3, 2, 1]"
proof -
  have ini: "npages kst_ini = 10" "pages kst_ini = replicate 10 \<lparr>pp_link = None, pp_ref = 0\<rparr>"
    "page_free_list kst_ini = None" "nextfree kst_ini = KERNBASE + page2pa 9"
    by (simp_all add: kst_ini_def)
  have f: "rev (filter (\<lambda>i. i \<noteq> 0 \<and> i \<noteq> 7 \<and> (i < 160 \<or> 256 \<le> i) \<and> (i < 256 \<or> (9::nat) \<le> i)) [0..<10]) =
      [9, 8, 6, 5, 4, 3, 2, 1]"
    by (simp add: upt_rec)
  have "libres_ok kst_ini []" by (simp add: libres_ok_def ini)
  moreover have "\<forall>i<npages kst_ini. pp_ref (pages kst_ini ! i) = 0" by (simp add: ini)
  ultimately have "\<exists>t. page_init 0 kst_ini = Inr ((), t) \<and>
    libres_ok t (rev (filter (\<lambda>i. i \<noteq> 0 \<and> i \<noteq> 7 \<and> (i < 160 \<or> 256 \<le> i) \<and> (i < 256 \<or> (9::nat) \<le> i))
                       [0..<npages kst_ini]))"
    by (rule page_init_libera) (simp_all add: ini)
  then show ?thesis unfolding ini(1) f .
qed


section \<open>Page tables\<close>




section \<open>User memory\<close>



text \<open>
  Va + len is a 32-bit sum. A range that runs to the very top of the address space wraps it to
  0, and user_mem_check then accepts it without looking at a page, kernel memory included; sys_cputs
  goes on to print it for any running environment.
\<close>
theorem user_mem_check_vuelta_completa:
  "user_mem_check e va (- va) perm s = Inr (0, s) \<and>
   sys_cputs va (- va) (s\<lparr>curenv := Some e\<rparr>) = Inr ((), s\<lparr>curenv := Some e\<rparr>)"
  by (simp add: user_mem_check_vuelta sys_cputs_def con_env_def user_mem_assert_def)

end
