(* ===== verification/Kern_Turnos.thy ===== *)
theory Kern_Turnos
  imports Kern_Syscall Kern_Lista
begin

text \<open>
  Choosing in a circle. \<open>dist n a b\<close> is the number of steps from \<open>a\<close> forward to \<open>b\<close> in a circle of
  \<open>n\<close>, between 1 and \<open>n\<close>. The interface \<open>turnos\<close> is what a scheduler has to promise, round after
  round, for an environment not to starve: a rank that goes down in each round that does not choose
  it. The rest of the theory says what the searches and the ageing of \<open>sched.c\<close> do.
\<close>

section \<open>Distances in a circle\<close>

definition dist :: "nat \<Rightarrow> nat \<Rightarrow> nat \<Rightarrow> nat" where
  "dist n a b = (if a < b then b - a else n + b - a)"

lemma dist_le: "a < n \<Longrightarrow> b < n \<Longrightarrow> 1 \<le> dist n a b \<and> dist n a b \<le> n"
  by (auto simp: dist_def)

lemma dist_mod: "a < n \<Longrightarrow> b < n \<Longrightarrow> (a + dist n a b) mod n = b"
  by (auto simp: dist_def)

lemma dist_unico:
  assumes "a < n" and "1 \<le> i" and "i \<le> n"
  shows "dist n a ((a + i) mod n) = i"
proof (cases "a + i < n")
  case True
  with assms show ?thesis by (simp add: dist_def)
next
  case False
  then have "(a + i) mod n = a + i - n" using assms by (simp add: mod_if)
  with False assms show ?thesis by (auto simp: dist_def)
qed

text \<open>Whoever is reached before \<open>x\<close> is nearer to \<open>x\<close>.\<close>

lemma dist_menor:
  assumes "a < n" and "x < n" and "y < n" and "dist n a y < dist n a x"
  shows "dist n y x < dist n a x"
  using assms by (auto simp: dist_def split: if_splits)

text \<open>The places a loop \<open>for (i = 1; i <= n; i++)\<close> visits from \<open>a\<close>, in order, are all places once.\<close>

lemma vuelta:
  assumes "a < n"
  shows "set (map (\<lambda>i. (a + i) mod n) [1..<n + 1]) = {..<n}" and
    "distinct (map (\<lambda>i. (a + i) mod n) [1..<n + 1])"
proof -
  have inj: "inj_on (\<lambda>i. (a + i) mod n) {1..<n + 1}"
    by (rule inj_on_inverseI [where g = "dist n a"]) (use dist_unico [OF assms] in auto)
  then show "distinct (map (\<lambda>i. (a + i) mod n) [1..<n + 1])"
    unfolding distinct_map set_upt by simp
  show "set (map (\<lambda>i. (a + i) mod n) [1..<n + 1]) = {..<n}"
    unfolding set_map set_upt
  proof (intro equalityI subsetI)
    fix b assume "b \<in> {..<n}"
    then have "dist n a b \<in> {1..<n + 1}" "b = (a + dist n a b) mod n"
      using dist_mod [OF assms, of b] dist_le [OF assms, of b] by simp_all
    then show "b \<in> (\<lambda>i. (a + i) mod n) ` {1..<n + 1}" by (rule rev_image_eqI)
  qed (use assms in auto)
qed


section \<open>No starvation\<close>

text \<open>
  \<open>elige s\<close> is the one a round in state \<open>s\<close> chooses and the state it leaves, \<open>vuelve x y t s'\<close> says
  that after the round left \<open>t\<close> with \<open>y\<close> running, the next one starts in \<open>s'\<close>, and \<open>espera x s\<close>
  that \<open>x\<close> waits in \<open>s\<close>.
\<close>

locale turnos =
  fixes elige :: "'s \<Rightarrow> (nat \<times> 's) option" and vuelve :: "nat \<Rightarrow> nat \<Rightarrow> 's \<Rightarrow> 's \<Rightarrow> bool"
    and espera :: "nat \<Rightarrow> 's \<Rightarrow> bool" and rango :: "nat \<Rightarrow> 's \<Rightarrow> nat" and cota :: nat
  assumes acotado: "espera x s \<Longrightarrow> 0 < rango x s \<and> rango x s \<le> cota"
    and baja: "espera x s \<Longrightarrow> elige s = Some (y, t) \<Longrightarrow> y \<noteq> x \<Longrightarrow> vuelve x y t s' \<Longrightarrow> espera x s' \<Longrightarrow>
      rango x s' < rango x s"
begin

lemma llega_turno:
  assumes esp: "\<And>k. (\<And>j. j < k \<Longrightarrow> c j \<noteq> x) \<Longrightarrow> espera x (s k) \<and> elige (s k) = Some (c k, t k)"
    and vue: "\<And>k. (\<And>j. j \<le> k \<Longrightarrow> c j \<noteq> x) \<Longrightarrow> vuelve x (c k) (t k) (s (Suc k))"
  shows "\<exists>k<cota. c k = x"
proof (rule ccontr)
  assume "\<not> ?thesis"
  then have no: "\<And>k. k < cota \<Longrightarrow> c k \<noteq> x" by blast
  have "rango x (s k) + k \<le> rango x (s 0)" if "k \<le> cota" for k
    using that
  proof (induction k)
    case (Suc k)
    have "rango x (s (Suc k)) < rango x (s k)"
    proof (rule baja)
      show "espera x (s k)" "elige (s k) = Some (c k, t k)" "espera x (s (Suc k))"
        using Suc.prems esp no by simp_all
      show "c k \<noteq> x" "vuelve x (c k) (t k) (s (Suc k))"
        using Suc.prems no vue by simp_all
    qed
    with Suc show ?case by simp
  qed simp
  from this [of cota] acotado [of x "s 0"] acotado [of x "s cota"] esp [of 0] esp [of cota] no
  show False by auto
qed

end


section \<open>The parts of a round\<close>

abbreviation corre_puede :: "kst \<Rightarrow> nat \<Rightarrow> bool" where
  "corre_puede s e \<equiv> env_status (envs s ! e) = ENV_RUNNABLE"

lemma anota_salida_sel [simp]:
  "envs (anota_salida i s) = envs s" "curenv (anota_salida i s) = curenv s"
  "sched_modo (anota_salida i s) = sched_modo s"
  by (simp_all add: anota_salida_def record_env_exit_def Let_def)

lemma fold_anota_sel [simp]:
  "envs (fold anota_salida is s) = envs s" "curenv (fold anota_salida is s) = curenv s"
  "sched_modo (fold anota_salida is s) = sched_modo s"
  by (induction "is" arbitrary: s) simp_all

lemma anota_sel [simp]:
  "envs (anota s) = envs s" "curenv (anota s) = curenv s" "sched_modo (anota s) = sched_modo s"
  by (simp_all add: anota_def Let_def)

lemma comienzo_anota [simp]: "comienzo (anota s) = comienzo s"
  by (simp add: comienzo_def split: option.split)

lemma record_env_run_sel [simp]:
  "envs (record_env_run e s) = envs s" "curenv (record_env_run e s) = curenv s"
  by (simp_all add: record_env_run_def Let_def)

lemma nth_upd_env:
  "envs (upd_env i f s) ! j = (if i = j \<and> i < length (envs s) then f (envs s ! j) else envs s ! j)"
  by (simp add: upd_env_def nth_upd)

lemma upd_env_sel [simp]:
  "length (envs (upd_env i f s)) = length (envs s)" "curenv (upd_env i f s) = curenv s"
  by (simp_all add: upd_env_def)

text \<open>Running an environment with a directory: what its switch leaves.\<close>

lemma env_run_corre:
  assumes "env_pgdir (envs s ! e) \<noteq> None" and "e < length (envs s)"
  shows "\<exists>t. env_run e s = Corre e t \<and> curenv t = Some e \<and> length (envs t) = length (envs s) \<and>
    (\<forall>i. envs t ! i =
       (let v = envs s ! i;
            v = (if Some i = curenv s \<and> env_status v = ENV_RUNNING \<and> i < length (envs s)
                 then v\<lparr>env_status := ENV_RUNNABLE\<rparr> else v)
        in if i = e then v\<lparr>env_status := ENV_RUNNING, env_runs := env_runs v + 1, env_cpunum := cpunum s\<rparr>
           else v))"
proof -
  obtain pd where "env_pgdir (envs s ! e) = Some pd" using assms by blast
  with assms show ?thesis
    by (auto simp: env_run_def env_load_pgdir_def Let_def upd_env_def nth_upd split: option.split)
qed

lemma env_load_pgdir_Inl: "env_load_pgdir e s = Inl f \<Longrightarrow> f \<noteq> Corre c t"
  by (auto simp: env_load_pgdir_def split: option.splits)

lemma env_run_Corre: "env_run e s = Corre c t \<Longrightarrow> c = e"
  unfolding env_run_def Let_def
  by (auto dest: env_load_pgdir_Inl split: sum.splits)

lemma env_pgdir_upd:
  "(\<And>v. env_pgdir (f v) = env_pgdir v) \<Longrightarrow>
   env_pgdir (envs (upd_env i f s) ! j) = env_pgdir (envs s ! j)"
  by (simp add: nth_upd_env)

lemma env_run_sin_dir:
  assumes "env_pgdir (envs s ! e) = None"
  shows "env_run e s = Panico ''PADDR called with invalid kva''"
proof -
  define u where "u = (case curenv s of
      Some c \<Rightarrow> if env_status (envs s ! c) = ENV_RUNNING
                then upd_env c (env_status_update (\<lambda>_. ENV_RUNNABLE)) s else s
    | None \<Rightarrow> s)"
  have "env_pgdir (envs u ! e) = None"
    using assms by (auto simp: u_def env_pgdir_upd split: option.split)
  then show ?thesis
    by (simp add: env_run_def env_load_pgdir_def env_pgdir_upd flip: u_def)
qed


section \<open>Round robin\<close>

lemma busca_rr_find:
  "busca_rr s a is = find (corre_puede s) (map (\<lambda>i. (a + i) mod NENV) is)"
  by (induction "is") (simp_all add: Let_def)

lemma busca_rr_primero:
  assumes a: "a < NENV" and x: "x < NENV" "corre_puede s x"
  obtains y where "busca_rr s a [1..<NENV + 1] = Some y" "y < NENV" "corre_puede s y"
    "\<And>z. z < NENV \<Longrightarrow> corre_puede s z \<Longrightarrow> dist NENV a y \<le> dist NENV a z"
proof -
  let ?l = "map (\<lambda>i. (a + i) mod NENV) [1..<NENV + 1]"
  have "x \<in> set ?l" unfolding vuelta(1) [OF a] using x by simp
  with x(2) have "find (corre_puede s) ?l \<noteq> None" unfolding find_None_iff by blast
  then obtain y where y: "find (corre_puede s) ?l = Some y" by blast
  then obtain i where i: "i < NENV" "corre_puede s y" "y = (a + Suc i) mod NENV"
    "\<And>j. j < i \<Longrightarrow> \<not> corre_puede s ((a + Suc j) mod NENV)"
    by (auto simp: find_Some_iff simp del: upt_Suc)
  have di: "dist NENV a y = Suc i" using i(1,3) dist_unico [OF a, of "Suc i"] by simp
  have min: "dist NENV a y \<le> dist NENV a z" if z: "z < NENV" "corre_puede s z" for z
  proof (rule ccontr)
    assume "\<not> ?thesis"
    then have "dist NENV a z - 1 < i" using di dist_le [OF a z(1)] by linarith
    from i(4) [OF this] dist_mod [OF a z(1)] dist_le [OF a z(1)] z(2) show False by simp
  qed
  have "y < NENV" using i(3) by (simp add: NENV_def)
  with y i(2) min show thesis by (intro that) (simp_all add: busca_rr_find)
qed


section \<open>Priorities\<close>

text \<open>What one round does to every environment: \<open>raise_priority\<close> after three rounds of waiting.\<close>

definition envejece :: "env \<Rightarrow> env" where
  "envejece v =
     (let v = (if sint (env_wait_time v) \<ge> MAX_WAIT_TIME
               then (if sint (env_priority v) < 5 then v\<lparr>env_priority := env_priority v + 1\<rparr> else v)
                      \<lparr>env_wait_time := 0\<rparr>
               else v)
      in v\<lparr>env_wait_time := env_wait_time v + 1\<rparr>)"

abbreviation prio :: "env \<Rightarrow> int" where "prio v \<equiv> sint (env_priority v)"

lemma paso_pr_eq:
  assumes "idx = (start + i) mod NENV" and "idx < length (envs s)"
  shows "paso_pr start i (m, s) =
    ((if corre_puede s idx \<and> (m = None \<or> prio (envs s ! idx) > prio (envs s ! the m))
      then Some idx else m), s\<lparr>envs := (envs s)[idx := envejece (envs s ! idx)]\<rparr>)"
  using assms(2)
  by (cases "envs s ! idx")
    (auto simp: paso_pr_def Let_def raise_priority_def upd_env_def envejece_def simp flip: assms(1))

text \<open>
  After the places \<open>js\<close> of the circle: those have aged, the rest have not, and the one chosen so far
  beats all those before it and, aged, is not beaten by those after it.
\<close>

definition elige_ok :: "env list \<Rightarrow> nat list \<Rightarrow> nat option \<Rightarrow> bool" where
  "elige_ok E js m \<longleftrightarrow>
     (case m of
        None \<Rightarrow> \<forall>j\<in>set js. env_status (E ! j) \<noteq> ENV_RUNNABLE
      | Some y \<Rightarrow> \<exists>us vs. js = us @ y # vs \<and> env_status (E ! y) = ENV_RUNNABLE \<and>
          (\<forall>z\<in>set us. env_status (E ! z) = ENV_RUNNABLE \<longrightarrow> prio (E ! z) < prio (E ! y)) \<and>
          (\<forall>z\<in>set vs. env_status (E ! z) = ENV_RUNNABLE \<longrightarrow> prio (E ! z) \<le> prio (envejece (E ! y))))"

lemma sint_mas_uno:
  assumes "sint (w :: 32 word) < 2 ^ 31 - 1"
  shows "sint (w + 1) = sint w + 1"
proof -
  have "sint w + 1 \<in> {- (2 ^ 31)..<2 ^ 31}"
    using assms sint_ge [of w] by simp
  then show ?thesis
    by (simp add: signed_eq_0_iff sint_word_ariths signed_take_bit_int_eq_self)
qed

lemma prio_envejece: "prio v \<le> prio (envejece v)" "prio v \<le> 5 \<Longrightarrow> prio (envejece v) \<le> 5"
  using sint_mas_uno [of "env_priority v"] by (auto simp: envejece_def Let_def)


lemma elige_SomeI:
  assumes "js = us @ y # vs" and "env_status (E ! y) = ENV_RUNNABLE"
    and "\<And>z. z \<in> set us \<Longrightarrow> env_status (E ! z) = ENV_RUNNABLE \<Longrightarrow> prio (E ! z) < prio (E ! y)"
    and "\<And>z. z \<in> set vs \<Longrightarrow> env_status (E ! z) = ENV_RUNNABLE \<Longrightarrow>
               prio (E ! z) \<le> prio (envejece (E ! y))"
  shows "elige_ok E js (Some y)"
  unfolding elige_ok_def option.case using assms by blast

lemma elige_sigue:
  assumes "elige_ok E js m"
  shows "elige_ok E (js @ [i])
    (if env_status (E ! i) = ENV_RUNNABLE \<and>
        (m = None \<or> prio (E ! i) > prio (envejece (E ! the m))) then Some i else m)"
proof (cases m)
  case None
  with assms have no: "\<forall>j\<in>set js. env_status (E ! j) \<noteq> ENV_RUNNABLE" by (simp add: elige_ok_def)
  then have "elige_ok E (js @ [i]) (Some i)" if "env_status (E ! i) = ENV_RUNNABLE"
    using that by (intro elige_SomeI [of _ js i "[]"]) auto
  with None no show ?thesis by (auto simp: elige_ok_def)
next
  case (Some y)
  with assms obtain us vs where y: "js = us @ y # vs" "env_status (E ! y) = ENV_RUNNABLE"
    "\<And>z. z \<in> set us \<Longrightarrow> env_status (E ! z) = ENV_RUNNABLE \<Longrightarrow> prio (E ! z) < prio (E ! y)"
    "\<And>z. z \<in> set vs \<Longrightarrow> env_status (E ! z) = ENV_RUNNABLE \<Longrightarrow> prio (E ! z) \<le> prio (envejece (E ! y))"
    by (auto simp: elige_ok_def)
  show ?thesis
  proof (cases "env_status (E ! i) = ENV_RUNNABLE \<and> prio (E ! i) > prio (envejece (E ! y))")
    case True
    have "prio (E ! z) < prio (E ! i)" if "z \<in> set js" "env_status (E ! z) = ENV_RUNNABLE" for z
      using that y(1) y(3,4) [of z] prio_envejece(1) [of "E ! y"] True by auto
    then have "elige_ok E (js @ [i]) (Some i)"
      using True by (intro elige_SomeI [of _ js i "[]"]) auto
    with True Some show ?thesis by simp
  next
    case False
    then have "elige_ok E (js @ [i]) (Some y)"
      using y by (intro elige_SomeI [of _ us y "vs @ [i]"]) auto
    with False Some show ?thesis by auto
  qed
qed

lemma fold_paso_pr:
  fixes s :: kst and start :: nat
  defines "f \<equiv> \<lambda>i. (start + i) mod NENV"
  assumes "distinct (map f is)" and "length (envs s) = NENV"
  shows "\<exists>m t. fold (paso_pr start) is (None, s) = (m, t) \<and> elige_ok (envs s) (map f is) m \<and>
    t = s\<lparr>envs := envs t\<rparr> \<and> length (envs t) = NENV \<and>
    (\<forall>j. envs t ! j = (if j \<in> f ` set is then envejece (envs s ! j) else envs s ! j))"
  using assms(2)
proof (induction "is" rule: rev_induct)
  case Nil
  then show ?case using assms(3) by (simp add: elige_ok_def)
next
  case (snoc i js)
  then obtain m t where t: "fold (paso_pr start) js (None, s) = (m, t)"
    "elige_ok (envs s) (map f js) m" "t = s\<lparr>envs := envs t\<rparr>" "length (envs t) = NENV"
    "\<And>j. envs t ! j = (if j \<in> f ` set js then envejece (envs s ! j) else envs s ! j)"
    by auto
  have fi: "f i \<notin> f ` set js" "f i < NENV" using snoc.prems by (auto simp: f_def NENV_def)
  have ei: "envs t ! f i = envs s ! f i" using t(5) [of "f i"] fi by simp
  have em: "envs t ! y = envejece (envs s ! y)" if "m = Some y" for y
    using t(2) that t(5) [of y] by (auto simp: elige_ok_def) (metis in_set_conv_decomp list.set_map)
  let ?t = "t\<lparr>envs := (envs t)[f i := envejece (envs t ! f i)]\<rparr>"
  let ?m = "if env_status (envs s ! f i) = ENV_RUNNABLE \<and>
      (m = None \<or> prio (envs s ! f i) > prio (envejece (envs s ! the m))) then Some (f i) else m"
  have "f i = (start + i) mod NENV" by (simp add: f_def)
  from paso_pr_eq [OF this, of t m] have "paso_pr start i (m, t) = (?m, ?t)"
    using fi(2) t(4) em by (auto simp: ei)
  then have fold: "fold (paso_pr start) (js @ [i]) (None, s) = (?m, ?t)" using t(1) by simp
  moreover have "elige_ok (envs s) (map f (js @ [i])) ?m"
    using elige_sigue [OF t(2), of "f i"] by simp
  moreover have "?t = s\<lparr>envs := envs ?t\<rparr>" by (subst t(3)) simp
  moreover have "length (envs ?t) = NENV" using t(4) by simp
  moreover have "\<forall>j. envs ?t ! j = (if j \<in> f ` set (js @ [i]) then envejece (envs s ! j) else envs s ! j)"
    using t(4,5) fi ei by (auto simp: nth_upd)
  ultimately show ?case by blast
qed


lemma comienzo_lt [simp]: "comienzo s < NENV"
  by (simp add: comienzo_def NENV_def split: option.split) (metis ENVX_lt NENV_def)

lemma vuelta_pos:
  assumes "a < n" and "map (\<lambda>i. (a + i) mod n) [1..<n + 1] = us @ y # vs"
  shows "y < n" and "z < n \<Longrightarrow> dist n a z < dist n a y \<Longrightarrow> z \<in> set us"
    and "z < n \<Longrightarrow> dist n a z > dist n a y \<Longrightarrow> z \<in> set vs"
proof -
  let ?l = "us @ y # vs"
  have len: "length ?l = n" by (simp flip: assms(2))
  have nth: "?l ! k = (a + Suc k) mod n" if "k < n" for k
    using that by (simp flip: assms(2) del: upt_Suc)
  have pos: "?l ! (dist n a z - 1) = z" "dist n a z - 1 < n" if "z < n" for z
    using nth [of "dist n a z - 1"] dist_mod [OF assms(1) that] dist_le [OF assms(1) that] by auto
  have y: "y = (a + Suc (length us)) mod n" using nth [of "length us"] len by simp
  then have dy: "dist n a y = Suc (length us)"
    using dist_unico [OF assms(1), of "Suc (length us)"] len by simp
  show "y < n" using y assms(1) by simp
  show "z \<in> set us" if "z < n" "dist n a z < dist n a y"
  proof -
    have k: "dist n a z - 1 < length us" using that(2) dy dist_le [OF assms(1) that(1)] by auto
    then have "us ! (dist n a z - 1) = z" using pos(1) [OF that(1)] by (simp add: nth_append)
    with nth_mem [OF k] show ?thesis by simp
  qed
  show "z \<in> set vs" if "z < n" "dist n a z > dist n a y"
  proof -
    have "dist n a z - 1 - length us - 1 < length vs" "dist n a z - 1 > length us"
      using pos(2) [OF that(1)] that(2) dy len by auto
    then show ?thesis
      using pos(1) [OF that(1)]
      by (metis Suc_diff_1 diff_Suc_eq_diff_pred le_antisym less_imp_le_nat nat_neq_iff nth_Cons_pos
          nth_append nth_mem zero_less_diff)
  qed
qed

lemma sched_pr_elige:
  assumes len: "length (envs s) = NENV" and x: "x < NENV" "corre_puede s x"
  obtains y t where "sched_pr s = corre_pr y t" "t = s\<lparr>envs := envs t\<rparr>" "length (envs t) = NENV"
    "\<And>j. j < NENV \<Longrightarrow> envs t ! j = envejece (envs s ! j)" "y < NENV" "corre_puede s y"
    "\<And>z. z < NENV \<Longrightarrow> corre_puede s z \<Longrightarrow> dist NENV (comienzo s) z < dist NENV (comienzo s) y \<Longrightarrow>
       prio (envs s ! z) < prio (envs s ! y)"
    "\<And>z. z < NENV \<Longrightarrow> corre_puede s z \<Longrightarrow> dist NENV (comienzo s) z > dist NENV (comienzo s) y \<Longrightarrow>
       prio (envs s ! z) \<le> prio (envejece (envs s ! y))"
proof -
  let ?a = "comienzo s"
  let ?js = "map (\<lambda>i. (?a + i) mod NENV) [1..<NENV + 1]"
  note V = vuelta [OF comienzo_lt [of s]]
  from fold_paso_pr [OF V(2) len] obtain m t where
    f: "fold (paso_pr ?a) [1..<NENV + 1] (None, s) = (m, t)" "elige_ok (envs s) ?js m"
      "t = s\<lparr>envs := envs t\<rparr>" "length (envs t) = NENV"
      "\<And>j. envs t ! j = (if j \<in> (\<lambda>i. (?a + i) mod NENV) ` set [1..<NENV + 1]
                        then envejece (envs s ! j) else envs s ! j)"
    by auto
  have todos: "(\<lambda>i. (?a + i) mod NENV) ` set [1..<NENV + 1] = {..<NENV}" using V(1) by simp
  have "m \<noteq> None"
  proof
    assume "m = None"
    with f(2) have "\<forall>j\<in>set ?js. \<not> corre_puede s j" unfolding elige_ok_def by (simp del: upt_Suc)
    then show False unfolding V(1) using x by auto
  qed
  then obtain y where m: "m = Some y" by blast
  note ok = f(2) [unfolded m elige_ok_def option.case]
  then obtain us vs where y: "?js = us @ y # vs" "corre_puede s y"
    "\<And>z. z \<in> set us \<Longrightarrow> corre_puede s z \<Longrightarrow> prio (envs s ! z) < prio (envs s ! y)"
    "\<And>z. z \<in> set vs \<Longrightarrow> corre_puede s z \<Longrightarrow> prio (envs s ! z) \<le> prio (envejece (envs s ! y))"
    by blast
  note P = vuelta_pos [OF comienzo_lt y(1)]
  have "sched_pr s = corre_pr y t" using f(1) m by (simp add: sched_pr_def Let_def del: upt_Suc)
  then show thesis
    using f(3,4) f(5) [unfolded todos] P y(2-4) by (intro that) auto
qed

text \<open>What running the chosen one does to the scheduling fields.\<close>

lemma corre_pr_post:
  assumes "corre_pr y s = Corre c t" and "y < length (envs s)"
  shows "c = y" and "\<And>i. i \<noteq> y \<Longrightarrow> env_priority (envs t ! i) = env_priority (envs s ! i) \<and>
                               env_wait_time (envs t ! i) = env_wait_time (envs s ! i)"
    and "env_wait_time (envs t ! y) = 0"
    and "env_priority (envs t ! y) = (if prio (envs s ! y) > 0 then env_priority (envs s ! y) - 1
                                      else env_priority (envs s ! y))"
    and "curenv t = Some y"
proof -
  let ?l = "lower_priority y s"
  let ?u = "record_env_run y (upd_env y (env_wait_time_update (\<lambda>_. 0)) ?l)"
  have len: "length (envs ?l) = length (envs s)" by (simp add: lower_priority_def)
  have run: "env_run y ?u = Corre c t" using assms(1) by (simp add: corre_pr_def)
  then have dir: "env_pgdir (envs ?u ! y) \<noteq> None" using env_run_sin_dir [of ?u y] by auto
  from env_run_corre [OF dir] assms(2) len run
  have t: "c = y" "curenv t = Some y" "\<And>i. envs t ! i =
       (let v = envs ?u ! i;
            v = (if Some i = curenv ?u \<and> env_status v = ENV_RUNNING \<and> i < length (envs ?u)
                 then v\<lparr>env_status := ENV_RUNNABLE\<rparr> else v)
        in if i = y then v\<lparr>env_status := ENV_RUNNING, env_runs := env_runs v + 1, env_cpunum := cpunum ?u\<rparr>
           else v)"
    by auto
  show "c = y" "curenv t = Some y" by (fact t)+
  have campos: "env_priority (envs t ! i) = env_priority (envs ?u ! i)"
    "env_wait_time (envs t ! i) = env_wait_time (envs ?u ! i)" for i
    by (simp_all add: t(3) Let_def)
  show "\<And>i. i \<noteq> y \<Longrightarrow> env_priority (envs t ! i) = env_priority (envs s ! i) \<and>
                     env_wait_time (envs t ! i) = env_wait_time (envs s ! i)"
    by (simp add: campos nth_upd_env lower_priority_def)
  show "env_wait_time (envs t ! y) = 0"
    using assms(2) len by (simp add: campos nth_upd_env)
  show "env_priority (envs t ! y) = (if prio (envs s ! y) > 0 then env_priority (envs s ! y) - 1
                                      else env_priority (envs s ! y))"
    using assms(2) by (simp add: campos nth_upd_env lower_priority_def)
qed

end
