(* ===== verification/Kern_Sched_Contrato.thy ===== *)
theory Kern_Sched_Contrato
  imports Kern_Turnos Kern_Mem_Contrato
begin

text \<open>
  What the two schedulers promise: whom a call of \<open>sched_yield\<close> chooses, and that nobody who can run
  waits forever. Both are instances of the interface \<open>turnos\<close>, with the distance from the last one
  chosen as the rank for round robin, and the priority and the time waited before it for priorities.
\<close>

section \<open>Rounds of the model\<close>

definition elige_kern :: "kst \<Rightarrow> (nat \<times> kst) option" where
  "elige_kern s = (case sched_yield s of Corre y t \<Rightarrow> Some (y, t) | _ \<Rightarrow> None)"

lemma elige_kern_Some: "elige_kern s = Some (y, t) \<longleftrightarrow> sched_yield s = Corre y t"
  by (simp add: elige_kern_def split: fin_kern.split)

text \<open>
  Between rounds the one chosen is still the current environment, in its slot; with priorities,
  nobody changes the priority or the waiting time of the one that waits either.
\<close>

definition sigue :: "nat \<Rightarrow> kst \<Rightarrow> bool" where
  "sigue y s \<longleftrightarrow> curenv s = Some y \<and> ENVX (env_id (envs s ! y)) = y"

definition vuelve :: "nat \<Rightarrow> nat \<Rightarrow> kst \<Rightarrow> kst \<Rightarrow> bool" where
  "vuelve x y t s \<longleftrightarrow> sigue y s \<and>
     env_priority (envs s ! x) = env_priority (envs t ! x) \<and>
     env_wait_time (envs s ! x) = env_wait_time (envs t ! x)"

definition espera :: "planificador \<Rightarrow> nat \<Rightarrow> kst \<Rightarrow> bool" where
  "espera m x s \<longleftrightarrow> sched_modo s = m \<and> length (envs s) = NENV \<and> x < NENV \<and> corre_puede s x \<and>
     (m = SCHED_PRIORITIES \<longrightarrow>
        (\<forall>i<NENV. prio (envs s ! i) \<le> 5) \<and> 0 \<le> prio (envs s ! x) \<and> 0 \<le> sint (env_wait_time (envs s ! x)))"

definition rango_rr :: "nat \<Rightarrow> kst \<Rightarrow> nat" where
  "rango_rr x s = dist NENV (comienzo s) x"

definition rango_pr :: "nat \<Rightarrow> kst \<Rightarrow> nat" where
  "rango_pr x s =
     (let p = nat (prio (envs s ! x)); w = nat (sint (env_wait_time (envs s ! x)))
      in if p \<ge> 5 then dist NENV (comienzo s) x else NENV + 4 * (5 - p) - min w 3)"

lemma comienzo_vuelve: "sigue y s \<Longrightarrow> comienzo s = y"
  by (simp add: sigue_def comienzo_def)

lemma sched_rr_Corre:
  assumes "espera SCHED_ROUND_ROBIN x s" and "sched_yield s = Corre y t"
  shows "y < NENV" and "corre_puede s y"
    and "\<And>z. z < NENV \<Longrightarrow> corre_puede s z \<Longrightarrow> dist NENV (comienzo s) y \<le> dist NENV (comienzo s) z"
    and "env_run y (record_env_run y (anota s)) = Corre y t"
proof -
  have x: "x < NENV" "corre_puede (anota s) x" using assms(1) by (simp_all add: espera_def)
  from busca_rr_primero [OF comienzo_lt x, of "anota s"] obtain b where
    b: "busca_rr (anota s) (comienzo s) [1..<NENV + 1] = Some b" "b < NENV" "corre_puede s b"
      "\<And>z. z < NENV \<Longrightarrow> corre_puede s z \<Longrightarrow> dist NENV (comienzo s) b \<le> dist NENV (comienzo s) z"
    by auto
  have "sched_yield s = env_run b (record_env_run b (anota s))"
    using assms(1) b(1) by (simp add: sched_yield_def sched_rr_def espera_def Let_def del: upt_Suc)
  moreover have "y = b" using assms(2) calculation env_run_Corre by simp
  ultimately show "y < NENV" "corre_puede s y"
    "\<And>z. z < NENV \<Longrightarrow> corre_puede s z \<Longrightarrow> dist NENV (comienzo s) y \<le> dist NENV (comienzo s) z"
    "env_run y (record_env_run y (anota s)) = Corre y t"
    using assms(2) b by auto
qed

interpretation rr: turnos elige_kern "\<lambda>x y t s. sigue y s" "espera SCHED_ROUND_ROBIN" rango_rr NENV
proof
  show "0 < rango_rr x s \<and> rango_rr x s \<le> NENV" if "espera SCHED_ROUND_ROBIN x s" for x s
    using that dist_le [OF comienzo_lt, of x s] by (simp add: espera_def rango_rr_def)
next
  fix x s y t s'
  assume e: "espera SCHED_ROUND_ROBIN x s" "elige_kern s = Some (y, t)" "y \<noteq> x" "sigue y s'"
  then have x: "x < NENV" "corre_puede s x" and r: "sched_yield s = Corre y t"
    by (simp_all add: espera_def elige_kern_Some)
  note C = sched_rr_Corre [OF e(1) r]
  have "dist NENV (comienzo s) y \<noteq> dist NENV (comienzo s) x"
    using e(3) dist_mod [OF comienzo_lt x(1)] dist_mod [OF comienzo_lt C(1)] by metis
  with C(3) [OF x] have "dist NENV (comienzo s) y < dist NENV (comienzo s) x" by simp
  from dist_menor [OF comienzo_lt x(1) C(1) this] show "rango_rr x s' < rango_rr x s"
    by (simp add: rango_rr_def comienzo_vuelve [OF e(4)])
qed


lemma envejece_campos:
  "env_wait_time (envejece v) = (if sint (env_wait_time v) \<ge> 3 then 1 else env_wait_time v + 1)"
  "env_priority (envejece v) =
     (if sint (env_wait_time v) \<ge> 3 \<and> prio v < 5 then env_priority v + 1 else env_priority v)"
  by (simp_all add: envejece_def MAX_WAIT_TIME_def Let_def)

lemma sched_pr_Corre:
  assumes e: "espera SCHED_PRIORITIES x s" and r: "sched_yield s = Corre y t"
  shows "y < NENV" and "corre_puede s y"
    and "\<And>z. z < NENV \<Longrightarrow> corre_puede s z \<Longrightarrow> dist NENV (comienzo s) z < dist NENV (comienzo s) y \<Longrightarrow>
       prio (envs s ! z) < prio (envs s ! y)"
    and "\<And>z. z < NENV \<Longrightarrow> corre_puede s z \<Longrightarrow> dist NENV (comienzo s) z > dist NENV (comienzo s) y \<Longrightarrow>
       prio (envs s ! z) \<le> prio (envejece (envs s ! y))"
    and "\<And>i. i < NENV \<Longrightarrow> i \<noteq> y \<Longrightarrow> env_priority (envs t ! i) = env_priority (envejece (envs s ! i)) \<and>
                          env_wait_time (envs t ! i) = env_wait_time (envejece (envs s ! i))"
    and "env_wait_time (envs t ! y) = 0"
    and "env_priority (envs t ! y) = (if prio (envejece (envs s ! y)) > 0
       then env_priority (envejece (envs s ! y)) - 1 else env_priority (envejece (envs s ! y)))"
    and "curenv t = Some y"
proof -
  have x: "length (envs (anota s)) = NENV" "x < NENV" "corre_puede (anota s) x"
    using e by (simp_all add: espera_def)
  from sched_pr_elige [OF x] obtain b u where
    b: "sched_pr (anota s) = corre_pr b u" "length (envs u) = NENV"
      "\<And>j. j < NENV \<Longrightarrow> envs u ! j = envejece (envs s ! j)" "b < NENV" "corre_puede s b"
      "\<And>z. z < NENV \<Longrightarrow> corre_puede s z \<Longrightarrow> dist NENV (comienzo s) z < dist NENV (comienzo s) b \<Longrightarrow>
         prio (envs s ! z) < prio (envs s ! b)"
      "\<And>z. z < NENV \<Longrightarrow> corre_puede s z \<Longrightarrow> dist NENV (comienzo s) z > dist NENV (comienzo s) b \<Longrightarrow>
         prio (envs s ! z) \<le> prio (envejece (envs s ! b))"
    by (metis anota_sel(1) comienzo_anota)
  have run: "corre_pr b u = Corre y t"
    using r b(1) e by (simp add: sched_yield_def espera_def Let_def)
  have yb: "y = b" and bl: "b < length (envs u)" using corre_pr_post(1) [OF run] b(2,4) by simp_all
  note C = corre_pr_post [OF run bl]
  show "y < NENV" "corre_puede s y" using b(4,5) yb by simp_all
  show "\<And>z. z < NENV \<Longrightarrow> corre_puede s z \<Longrightarrow> dist NENV (comienzo s) z < dist NENV (comienzo s) y \<Longrightarrow>
       prio (envs s ! z) < prio (envs s ! y)" using b(6) yb by simp
  show "\<And>z. z < NENV \<Longrightarrow> corre_puede s z \<Longrightarrow> dist NENV (comienzo s) z > dist NENV (comienzo s) y \<Longrightarrow>
       prio (envs s ! z) \<le> prio (envejece (envs s ! y))" using b(7) yb by simp
  show "\<And>i. i < NENV \<Longrightarrow> i \<noteq> y \<Longrightarrow> env_priority (envs t ! i) = env_priority (envejece (envs s ! i)) \<and>
                          env_wait_time (envs t ! i) = env_wait_time (envejece (envs s ! i))"
    using C(2) b(3) yb by simp
  show "env_wait_time (envs t ! y) = 0" "curenv t = Some y" using C(3,5) yb by simp_all
  show "env_priority (envs t ! y) = (if prio (envejece (envs s ! y)) > 0
       then env_priority (envejece (envs s ! y)) - 1 else env_priority (envejece (envs s ! y)))"
    using C(4) b(3,4) yb by simp
qed

interpretation pr: turnos elige_kern vuelve "espera SCHED_PRIORITIES" rango_pr "NENV + 20"
proof
  show "0 < rango_pr x s \<and> rango_pr x s \<le> NENV + 20" if "espera SCHED_PRIORITIES x s" for x s
    using that dist_le [OF comienzo_lt, of x s] by (auto simp: espera_def rango_pr_def Let_def NENV_def)
next
  fix x s y t s'
  assume e: "espera SCHED_PRIORITIES x s" "elige_kern s = Some (y, t)" "y \<noteq> x" "vuelve x y t s'"
    "espera SCHED_PRIORITIES x s'"
  then have x: "x < NENV" "corre_puede s x" and r: "sched_yield s = Corre y t" and sig: "sigue y s'"
    and p: "\<And>i. i < NENV \<Longrightarrow> prio (envs s ! i) \<le> 5" "0 \<le> prio (envs s ! x)"
      "0 \<le> sint (env_wait_time (envs s ! x))"
    by (simp_all add: espera_def elige_kern_Some vuelve_def)
  note C = sched_pr_Corre [OF e(1) r]
  let ?v = "envs s ! x"
  have v': "env_priority (envs s' ! x) = env_priority (envejece ?v)"
    "env_wait_time (envs s' ! x) = env_wait_time (envejece ?v)"
    using e(4) C(5) [OF x(1) e(3) [symmetric]] by (simp_all add: vuelve_def)
  have mas: "sint (env_wait_time ?v + 1) = sint (env_wait_time ?v) + 1" if "\<not> sint (env_wait_time ?v) \<ge> 3"
    using that by (intro sint_mas_uno) simp
  have pmas: "sint (env_priority ?v + 1) = prio ?v + 1"
    using p(1) [OF x(1)] by (intro sint_mas_uno) simp
  show "rango_pr x s' < rango_pr x s"
  proof (cases "prio ?v = 5")
    case True
    have "dist NENV (comienzo s) y \<noteq> dist NENV (comienzo s) x"
      using e(3) dist_mod [OF comienzo_lt x(1)] dist_mod [OF comienzo_lt C(1)] by metis
    moreover have "\<not> dist NENV (comienzo s) x < dist NENV (comienzo s) y"
      using C(3) [OF x] p(1) [OF C(1)] True by linarith
    ultimately have "dist NENV (comienzo s) y < dist NENV (comienzo s) x" by simp
    from dist_menor [OF comienzo_lt x(1) C(1) this] show ?thesis
      using True by (simp add: rango_pr_def v' envejece_campos comienzo_vuelve [OF sig])
  next
    case False
    then have menor: "prio ?v < 5" using p(1) [OF x(1)] by simp
    have d: "dist NENV y x \<le> NENV" using dist_le [OF C(1) x(1)] by simp
    show ?thesis
      using menor p(2,3) d mas pmas comienzo_vuelve [OF sig]
      by (auto simp: rango_pr_def v' envejece_campos Let_def)
  qed
qed


section \<open>Properties\<close>

text \<open>Two environments: 0 runs, 1 can run.\<close>

definition kst_dos :: "planificador \<Rightarrow> kst" where
  "kst_dos m = kst_ej\<lparr>sched_modo := m,
     envs := (envs kst_ej)[1 := env_ej\<lparr>env_id := 0x1001, env_status := ENV_RUNNABLE,
                                       env_pgdir := Some 1, env_priority := 5\<rparr>]\<rparr>"

lemma kst_dos_sel:
  "sched_modo (kst_dos m) = m" "length (envs (kst_dos m)) = NENV" "curenv (kst_dos m) = Some 0"
  "envs (kst_dos m) ! i = (if i = 1 then env_ej\<lparr>env_id := 0x1001, env_status := ENV_RUNNABLE,
       env_pgdir := Some 1, env_priority := 5\<rparr>
     else if i = 0 then env_ej\<lparr>env_id := 0x1000, env_status := ENV_RUNNING, env_pgdir := Some 1\<rparr>
     else (replicate 1024 env_ej) ! i)"
  by (simp_all add: kst_dos_def kst_ej_def NENV_def nth_upd)

lemma kst_dos_env:
  "i < NENV \<Longrightarrow> envs (kst_dos m) ! i = (if i = 1 then env_ej\<lparr>env_id := 0x1001, env_status := ENV_RUNNABLE,
       env_pgdir := Some 1, env_priority := 5\<rparr>
     else if i = 0 then env_ej\<lparr>env_id := 0x1000, env_status := ENV_RUNNING, env_pgdir := Some 1\<rparr>
     else env_ej)"
  by (simp add: kst_dos_sel(4) NENV_def)

lemma NENV_1: "(1::nat) < NENV" by (simp add: NENV_def)

lemma espera_dos: "espera m 1 (kst_dos m)"
  using NENV_1 by (simp add: espera_def kst_dos_sel(1,2) kst_dos_env env_ej_def del: One_nat_def)

lemma corre_puede_dos: "i < NENV \<Longrightarrow> corre_puede (kst_dos m) i \<longleftrightarrow> i = 1"
  by (simp add: kst_dos_env env_ej_def del: One_nat_def)






lemma sched_pr_existe:
  assumes e: "espera SCHED_PRIORITIES x s"
    and dir: "\<forall>i<NENV. corre_puede s i \<longrightarrow> env_pgdir (envs s ! i) \<noteq> None"
  shows "\<exists>y t. sched_yield s = Corre y t"
proof -
  have x: "length (envs (anota s)) = NENV" "x < NENV" "corre_puede (anota s) x"
    using e by (simp_all add: espera_def)
  from sched_pr_elige [OF x] obtain b u where
    b: "sched_pr (anota s) = corre_pr b u" "length (envs u) = NENV"
      "\<And>j. j < NENV \<Longrightarrow> envs u ! j = envejece (envs s ! j)" "b < NENV" "corre_puede s b"
    by (metis anota_sel(1))
  let ?u = "record_env_run b (upd_env b (env_wait_time_update (\<lambda>_. 0)) (lower_priority b u))"
  have "env_pgdir (envejece (envs s ! b)) = env_pgdir (envs s ! b)"
    by (simp add: envejece_def Let_def)
  then have "env_pgdir (envs ?u ! b) \<noteq> None"
    using b dir by (simp add: env_pgdir_upd lower_priority_def)
  moreover have "b < length (envs ?u)" using b by (simp add: lower_priority_def)
  ultimately obtain t where "env_run b ?u = Corre b t" using env_run_corre by blast
  then have "sched_yield s = Corre b t"
    using e b(1) by (simp add: sched_yield_def espera_def corre_pr_def Let_def)
  then show ?thesis by blast
qed

lemma sint_menos_uno:
  assumes "0 < sint (w :: 32 word)"
  shows "sint (w - 1) = sint w - 1"
proof -
  have "sint w - 1 \<in> {- (2 ^ 31)..<2 ^ 31}" using assms sint_lt [of w] by simp
  then show ?thesis by (simp add: sint_word_ariths signed_take_bit_int_eq_self)
qed





end
