(* ===== verification/Kern_Marco.thy ===== *)
theory Kern_Marco
  imports Kern_Syscall Kern_Lista
begin

text \<open>
  Which environments each piece of kernel code can change. \<open>solo A s t\<close> says that between \<open>s\<close> and
  \<open>t\<close> only the environments of \<open>A\<close> changed and the current one is the same; the memory code changes
  none. The collection \<open>marcos\<close> holds these facts for the handlers.
\<close>

named_theorems marcos

definition solo :: "nat set \<Rightarrow> kst \<Rightarrow> kst \<Rightarrow> bool" where
  "solo A s t \<longleftrightarrow> (\<forall>e. e \<notin> A \<longrightarrow> envs t ! e = envs s ! e) \<and> curenv t = curenv s"

lemma solo_refl [intro, simp]: "solo A s s"
  by (simp add: solo_def)

lemma solo_trans: "solo A s t \<Longrightarrow> solo A t u \<Longrightarrow> solo A s u"
  by (simp add: solo_def)

lemma solo_mono: "solo A s t \<Longrightarrow> A \<subseteq> B \<Longrightarrow> solo B s t"
  by (auto simp: solo_def)

lemma solo_trans2: "solo A s t \<Longrightarrow> solo B t u \<Longrightarrow> solo (A \<union> B) s u"
  by (auto simp: solo_def)

lemma solo_nada: "envs t = envs s \<Longrightarrow> curenv t = curenv s \<Longrightarrow> solo A s t"
  by (simp add: solo_def)

text \<open>A computation that keeps to \<open>A\<close>, and how such computations compose.\<close>

definition marco :: "nat set \<Rightarrow> 'a kern \<Rightarrow> bool" where
  "marco A f \<longleftrightarrow> (\<forall>s r t. f s = Inr (r, t) \<longrightarrow> solo A s t)"

lemma marcoD: "marco A f \<Longrightarrow> f s = Inr (r, t) \<Longrightarrow> solo A s t"
  by (simp add: marco_def)

lemma marco_then:
  assumes "marco A f" and "\<And>x. marco A (g x)"
  shows "marco A (\<lambda>s. and_then (f s) (\<lambda>(x, s). g x s))"
  using assms unfolding marco_def by (fastforce simp: and_then_eq_Inr intro: solo_trans)

lemma marco_pre:
  assumes "\<And>s. solo A s (h s)" and "marco A f"
  shows "marco A (\<lambda>s. f (h s))"
  using assms unfolding marco_def by (blast intro: solo_trans)

lemma marco_Inr [intro]: "(\<And>s. solo A s (h s)) \<Longrightarrow> marco A (\<lambda>s. Inr (r s, h s))"
  by (simp add: marco_def)

lemma marco_Inl [simp, intro]: "marco A (\<lambda>s. Inl (f s))"
  by (simp add: marco_def)

lemma marco_if: "marco A f \<Longrightarrow> marco A g \<Longrightarrow> marco A (\<lambda>s. if P s then f s else g s)"
  by (simp add: marco_def)

lemma marco_option:
  "marco A f \<Longrightarrow> (\<And>x. marco A (g x)) \<Longrightarrow> marco A (\<lambda>s. case h s of None \<Rightarrow> f s | Some x \<Rightarrow> g x s)"
  by (auto simp: marco_def split: option.splits)

lemma marco_prod:
  "(\<And>a b. marco A (g a b)) \<Longrightarrow> marco A (\<lambda>s. case x of (a, b) \<Rightarrow> g a b s)"
  by (cases x) simp

lemmas marco_intros = marco_then marco_if marco_option marco_prod marco_Inr marco_Inl

lemma marco_recorre: "(\<And>x. marco A (f x)) \<Longrightarrow> marco A (recorre f xs)"
proof (induction xs)
  case Nil
  then show ?case by (simp add: marco_def)
next
  case (Cons x xs)
  then have "marco A (\<lambda>s. and_then (f x s) (\<lambda>(_, s). recorre f xs s))" by (intro marco_then) auto
  then show ?case by (simp add: marco_def)
qed


section \<open>Memory code changes no environment\<close>

lemma solo_campos [simp]:
  "solo A s (upd_page p f t) = solo A s t" "solo A s (poke q v t) = solo A s t"
  "solo A s (memset0 p t) = solo A s t" "solo A s (memcpy_pag d p t) = solo A s t"
  "solo A s (tlb_invalidate pd va t) = solo A s t" "solo A s (t\<lparr>cr3 := k\<rparr>) = solo A s t"
  "solo A s (t\<lparr>env_free_list := l\<rparr>) = solo A s t"
  "solo A s (t\<lparr>user_mem_check_addr := a\<rparr>) = solo A s t" "solo A s (t\<lparr>cons := k'\<rparr>) = solo A s t"
  by (simp_all add: solo_def upd_page_def poke_def memset0_def memcpy_pag_def tlb_invalidate_def)

lemma solo_upd [simp]: "e \<in> A \<Longrightarrow> solo A s (upd_env e f t) = solo A s t"
  by (auto simp: solo_def upd_env_def nth_upd)

lemma marco_kaddr [marcos]: "marco A (kaddr pa)" "marco A (pa2page pa)" "marco A (page2kva pp)"
  "marco A (\<lambda>s. kaddr (g s) s)" "marco A (\<lambda>s. pa2page (g s) s)"
  by (auto simp: marco_def kaddr_def pa2page_def page2kva_def split: if_splits)

lemma marco_page_alloc [marcos]: "marco A (page_alloc z)"
  by (auto simp: marco_def page_alloc_def page2kva_def kaddr_def and_then_eq_Inr Let_def solo_def
      upd_page_def memset0_def split: option.splits if_splits)

lemma marco_page_free [marcos]: "marco A (page_free pp)"
  by (auto simp: marco_def page_free_def solo_def upd_page_def split: if_splits)

lemma marco_page_decref [marcos]: "marco A (page_decref pp)"
  by (auto simp: marco_def page_decref_def page_free_def solo_def upd_page_def Let_def split: if_splits)

lemma marco_pgdir_walk [marcos]: "marco A (pgdir_walk pd va create)"
  unfolding marco_def
proof (intro allI impI)
  fix s r t
  assume "pgdir_walk pd va create s = Inr (r, t)"
  then obtain u where u: "(if peek s (pd, PDX va) = 0 \<and> create then
              and_then (page_alloc True s) (\<lambda>(page, s).
                case page of
                  None \<Rightarrow> Inr ((), s)
                | Some pp \<Rightarrow>
                    Inr ((), poke (pd, PDX va) (page2pa pp OR PTE_P OR PTE_W OR PTE_U)
                               (upd_page pp (pp_ref_update (\<lambda>r. r + 1)) s)))
            else Inr ((), s)) = Inr ((), u)" and t: "t = u"
    by (auto simp: pgdir_walk_def Let_def and_then_eq_Inr kaddr_def split: if_splits)
  have "solo A s u"
    using u by (auto simp: and_then_eq_Inr split: if_splits option.splits
        dest!: marcoD [OF marco_page_alloc [of A]])
  then show "solo A s t" by (simp add: t)
qed


lemma marco_page_lookup [marcos]: "marco A (page_lookup pd va)"
  unfolding page_lookup_def [abs_def] by (intro marco_intros marcos) auto

lemma marco_page_remove [marcos]: "marco A (page_remove pd va)"
  unfolding page_remove_def [abs_def] Let_def by (intro marco_intros marcos) auto

lemma marco_page_insert [marcos]: "marco A (page_insert pd pp va perm)"
  unfolding page_insert_def [abs_def]
  by (intro marco_intros marcos marco_pre [of _ "upd_page pp (pp_ref_update (\<lambda>r. r + 1))"]) auto

lemma marco_con_pgdir [marcos]: "(\<And>pd. marco A (f pd)) \<Longrightarrow> marco A (con_pgdir e f)"
  by (auto simp: marco_def con_pgdir_def split: option.splits)

lemma marco_con_env [marcos]: "(\<And>d. e = Some d \<Longrightarrow> marco A (f d)) \<Longrightarrow> marco A (con_env e f)"
  by (auto simp: marco_def con_env_def split: option.splits)

lemma marco_user_mem_bucle: "marco A (user_mem_bucle e lo perm vs)"
proof (induction vs)
  case Nil
  then show ?case by (simp add: marco_def)
next
  case (Cons v vs)
  have "marco A (\<lambda>s. and_then (con_pgdir e (\<lambda>pd. pgdir_walk pd v False) s) (\<lambda>(pte, s).
       if pte = None \<or> peek s (the pte) AND (perm OR PTE_P) \<noteq> perm OR PTE_P
       then Inr (- E_FAULT, s\<lparr>user_mem_check_addr := (if v > lo then v else lo)\<rparr>)
       else user_mem_bucle e lo perm vs s))"
    by (intro marco_then marcos marco_if Cons) auto
  then show ?case by (simp add: marco_def)
qed

lemma marco_user_mem_check [marcos]: "marco A (user_mem_check e va len perm)"
  using marco_user_mem_bucle [of A] by (auto simp: marco_def user_mem_check_def Let_def)


section \<open>Releasing an environment changes that one\<close>

lemma marco_env_free_pde: "marco A (env_free_pde pd pdeno)"
proof -
  have pt: "marco A (env_free_pt pd pdeno pt)" for pt
    unfolding env_free_pt_def [abs_def]
    by (intro marco_recorre marco_if marcos) auto
  show ?thesis
    unfolding marco_def env_free_pde_def Let_def
    by (auto simp: and_then_eq_Inr kaddr_def pa2page_def split: if_splits
        dest!: marcoD [OF pt] marcoD [OF marco_page_decref [of A]])
      (auto simp: solo_def poke_def)
qed


lemma marco_env_free [marcos]: "marco {e} (env_free e)"
proof -
  have "marco {e} (con_pgdir e (\<lambda>pd s.
        and_then (recorre (env_free_pde pd) [0..<PDX UTOP] s) (\<lambda>(_, s).
        and_then (pa2page (page2pa pd) (upd_env e (env_pgdir_update (\<lambda>_. None)) s)) (\<lambda>(pp, s).
        and_then (page_decref pp s) (\<lambda>(_, s).
          Inr ((), upd_env e (\<lambda>v. v\<lparr>env_status := ENV_FREE, env_link := env_free_list s\<rparr>) s
                     \<lparr>env_free_list := Some e\<rparr>))))))"
    by (intro marco_intros marcos marco_recorre marco_env_free_pde
        marco_pre [of _ "upd_env e (env_pgdir_update (\<lambda>_. None))" "pa2page _"]) auto
  then show ?thesis
    unfolding env_free_def [abs_def] Let_def
    by (intro marco_pre [of _ "\<lambda>s. if Some e = curenv s then s\<lparr>cr3 := kern_pgdir s\<rparr> else s"]) auto
qed

lemma marco_env_destroy [marcos]: "marco {e} (env_destroy e)"
  unfolding env_destroy_def [abs_def] by (intro marco_intros marcos) auto

lemma marco_user_mem_assert [marcos]: "marco {e} (user_mem_assert e va len perm)"
  unfolding user_mem_assert_def [abs_def] by (intro marco_intros marcos) auto


section \<open>System calls\<close>

text \<open>A lookup with the permission check answers the caller or one of its children.\<close>

lemma envid2env_propio:
  assumes "envid2env envid True s = Inr ((r, Some e), t)" and "curenv s = Some c"
  shows "e = c \<or> env_parent_id (envs s ! e) = env_id (envs s ! c)"
  using assms by (auto simp: envid2env_def Let_def split: if_splits)

lemma envid2env_estado: "envid2env envid p s = Inr (x, t) \<Longrightarrow> t = s"
  by (auto simp: envid2env_def Let_def split: if_splits option.splits)

lemma envid2env_cero: "envid2env envid p s = Inr ((r, e), t) \<Longrightarrow> r \<le> 0 \<and> (r = 0 \<or> e = None)"
  by (auto simp: envid2env_def Let_def E_BAD_ENV_def split: if_splits option.splits)

definition hijos :: "kst \<Rightarrow> nat \<Rightarrow> nat set" where
  "hijos s c = {e. env_parent_id (envs s ! e) = env_id (envs s ! c)}"

text \<open>A handler that looks its target up with the check and then works on it alone.\<close>

lemma solo_con_objetivo:
  assumes f: "and_then (envid2env envid True s) (\<lambda>((r, e), s). g r e s) = Inr (x, t)"
    and c: "curenv s = Some c"
    and g: "\<And>r e. marco (case e of None \<Rightarrow> {} | Some d \<Rightarrow> {d}) (g r e)"
  shows "solo (insert c (hijos s c)) s t"
proof -
  from f obtain r e u where e: "envid2env envid True s = Inr ((r, e), u)" "g r e u = Inr (x, t)"
    by (auto simp: and_then_eq_Inr)
  then have u: "u = s" by (simp add: envid2env_estado)
  have "solo (case e of None \<Rightarrow> {} | Some d \<Rightarrow> {d}) s t" using marcoD [OF g] e(2) u by blast
  moreover have "(case e of None \<Rightarrow> {} | Some d \<Rightarrow> {d}) \<subseteq> insert c (hijos s c)"
    using envid2env_propio [OF _ c] e(1) by (auto simp: hijos_def split: option.split)
  ultimately show ?thesis by (rule solo_mono)
qed

lemma marco_env_page_alloc [marcos]: "marco A (env_page_alloc e va perm)"
  unfolding env_page_alloc_def [abs_def] Let_def by (intro marco_intros marcos) auto

lemma marco_env_page_map [marcos]: "marco A (env_page_map se sva de dva perm)"
  unfolding env_page_map_def [abs_def] by (intro marco_intros marcos) auto

lemma marco_upd [marcos]: "e \<in> A \<Longrightarrow> marco A (\<lambda>s. Inr (r s, upd_env e (f s) s))"
  by (simp add: marco_def)

lemma solo_env_destroy:
  assumes "sys_env_destroy envid s = Inr (x, t)" and "curenv s = Some c"
  shows "solo (insert c (hijos s c)) s t"
  using assms unfolding sys_env_destroy_def
  by (rule solo_con_objetivo) (intro marco_intros marcos; auto intro!: marco_intros marcos)

lemma solo_set_status:
  assumes "sys_env_set_status envid st s = Inr (x, t)" and "curenv s = Some c"
  shows "solo (insert c (hijos s c)) s t"
  using assms unfolding sys_env_set_status_def
  by (cases "estado_num st")
    (auto elim!: solo_con_objetivo intro!: marco_intros marcos)

lemma solo_set_upcall:
  assumes "sys_env_set_pgfault_upcall envid f s = Inr (x, t)" and "curenv s = Some c"
  shows "solo (insert c (hijos s c)) s t"
  using assms unfolding sys_env_set_pgfault_upcall_def
  by (rule solo_con_objetivo) (intro marco_intros marcos; auto intro!: marco_intros marcos)

lemma solo_page_alloc:
  assumes "sys_page_alloc envid va perm s = Inr (x, t)" and "curenv s = Some c"
  shows "solo (insert c (hijos s c)) s t"
  using assms unfolding sys_page_alloc_def
  by (auto elim!: solo_con_objetivo intro!: marco_intros marcos split: if_splits)

lemma solo_page_unmap:
  assumes "sys_page_unmap envid va s = Inr (x, t)" and "curenv s = Some c"
  shows "solo (insert c (hijos s c)) s t"
  using assms unfolding sys_page_unmap_def
  by (auto elim!: solo_con_objetivo intro!: marco_intros marcos split: if_splits)

lemma solo_lower_priority:
  assumes "sys_env_lower_priority envid s = Inr (x, t)" and "curenv s = Some c"
  shows "solo (insert c (hijos s c)) s t"
  using assms unfolding sys_env_lower_priority_def
  by (rule solo_con_objetivo) (intro marco_intros marcos; auto intro!: marco_intros marcos)

lemma solo_get_priority:
  assumes "sys_env_get_priority envid s = Inr (x, t)" and "curenv s = Some c"
  shows "solo (insert c (hijos s c)) s t"
  using assms unfolding sys_env_get_priority_def
  by (rule solo_con_objetivo) (intro marco_intros marcos; auto intro!: marco_intros marcos)


lemma marco_env_setup_vm [marcos]: "marco {e} (env_setup_vm e)"
proof -
  have "marco {e} (\<lambda>s. Inr (0, poke (pd, PDX UVPT) (page2pa pd OR PTE_P OR PTE_U)
          (upd_page p (pp_ref_update (\<lambda>r. r + 1))
            (memcpy_pag pd (kern_pgdir (upd_env e (env_pgdir_update (\<lambda>_. Some pd)) s))
              (upd_env e (env_pgdir_update (\<lambda>_. Some pd)) s)))) :: fin_kern + int \<times> kst)" for pd p
    by (rule marco_Inr) simp
  then show ?thesis
    unfolding env_setup_vm_def [abs_def] Let_def by (intro marco_intros marcos) auto
qed

lemma env_alloc_solo:
  assumes "env_alloc p s = Inr ((r, n), t)"
  shows "solo (set_option (env_free_list s)) s t" and "r = 0 \<Longrightarrow> n \<noteq> None \<and> n = env_free_list s"
    and "n \<noteq> None \<Longrightarrow> n = env_free_list s"
proof -
  have "solo (set_option (env_free_list s)) s t \<and> (r = 0 \<longrightarrow> n \<noteq> None \<and> n = env_free_list s) \<and>
      (n \<noteq> None \<longrightarrow> n = env_free_list s)"
  proof (cases "env_free_list s")
    case None
    with assms show ?thesis by (auto simp: env_alloc_def E_NO_FREE_ENV_def)
  next
    case (Some e)
    with assms obtain q u where u: "env_setup_vm e s = Inr (q, u)"
      and t: "(if q < 0 then Inr ((q, None), u)
            else
              let s = upd_env e (\<lambda>v. v\<lparr>
                        env_id := nueva_id (env_id v) e,
                        env_parent_id := p,
                        env_type := 0,
                        env_status := ENV_RUNNABLE,
                        env_runs := 0,
                        env_priority := DEFAULT_PRIORITY,
                        env_wait_time := 0,
                        env_tf := tf_vacio\<lparr>tf_ds := GD_UD OR 3, tf_es := GD_UD OR 3,
                                          tf_ss := GD_UD OR 3, tf_esp := USTACKTOP,
                                          tf_cs := GD_UT OR 3, tf_eflags := FL_IF\<rparr>,
                        env_pgfault_upcall := 0,
                        env_ipc_recving := False\<rparr>) u
              in Inr ((0, Some e), s\<lparr>env_free_list := env_link (envs s ! e)\<rparr>)) =
          (Inr ((r, n), t) :: fin_kern + (int \<times> nat option) \<times> kst)"
      by (auto simp: env_alloc_def and_then_eq_Inr)
    have "solo {e} s u" using marcoD [OF marco_env_setup_vm u] .
    then show ?thesis using t by (auto simp: Some Let_def split: if_splits)
  qed
  then show "solo (set_option (env_free_list s)) s t" and "r = 0 \<Longrightarrow> n \<noteq> None \<and> n = env_free_list s"
    and "n \<noteq> None \<Longrightarrow> n = env_free_list s" by blast+
qed

lemma solo_exofork:
  assumes "sys_exofork s = Inr (x, t)"
  shows "solo (set_option (env_free_list s)) s t"
proof -
  from assms obtain c where c: "curenv s = Some c"
    by (auto simp: sys_exofork_def con_env_def split: option.splits)
  with assms obtain r n u where a: "env_alloc (env_id (envs s ! c)) s = Inr ((r, n), u)"
    and t: "(if r \<noteq> 0 then Inr (r, u)
       else con_env n (\<lambda>n s.
         let tf = env_tf (envs s ! c);
             s = upd_env n (\<lambda>v. v\<lparr>env_status := ENV_NOT_RUNNABLE,
                                 env_tf := tf\<lparr>tf_regs := (tf_regs tf)\<lparr>reg_eax := 0\<rparr>\<rparr>\<rparr>) s
         in Inr (sint (env_id (envs s ! n)), s)) u) = Inr (x, t)"
    unfolding sys_exofork_def con_env_def [of "Some c"] c option.case
    by (elim and_then_InrE) (auto split: prod.splits)
  show ?thesis
  proof (cases "r \<noteq> 0 \<or> n = None")
    case True
    then show ?thesis using t env_alloc_solo(1) [OF a] by (auto simp: con_env_def split: if_splits)
  next
    case False
    then show ?thesis
      using t env_alloc_solo(1,3) [OF a] by (auto simp: con_env_def Let_def)
  qed
qed

lemma solo_page_map:
  assumes "sys_page_map se sva de dva perm s = Inr (x, t)"
  shows "solo {} s t"
proof -
  have "marco {} (con_env a (\<lambda>se. con_env b (\<lambda>de. env_page_map se sva de dva p)))" for a b p
    by (intro marcos)
  then show ?thesis
    using assms by (auto simp: sys_page_map_def and_then_eq_Inr dest!: envid2env_estado
        split: if_splits dest: marcoD)
qed

lemma marco_ipc_pagina: "marco {d} (ipc_pagina d srcva perm)"
  unfolding marco_def ipc_pagina_def con_env_def
proof (intro allI impI)
  fix s r t
  assume a: "(case curenv s of None \<Rightarrow> Inl Indefinido | Some c \<Rightarrow>
     and_then (con_pgdir c (\<lambda>pd. page_lookup pd srcva) s) (\<lambda>(r, s).
       case r of
         None \<Rightarrow> Inl Indefinido
       | Some (_, q) \<Rightarrow>
           let srcpte = peek s q
           in if srcpte \<noteq> 0 \<and> srcpte AND PTE_P = 0 then Inr (- E_INVAL, s)
              else if perm AND PTE_W \<noteq> 0 \<and> srcpte AND PTE_W = 0 then Inr (- E_INVAL, s)
              else
                let perm = perm OR (PTE_U OR PTE_P); dstva = env_ipc_dstva (envs s ! d)
                in if dstva = 0 then Inr (0, s)
                   else and_then (env_page_alloc d dstva perm s) (\<lambda>(r, s).
                     if r < 0 then Inr (r, s)
                     else and_then (env_page_map c srcva d (env_ipc_dstva (envs s ! d)) perm s) (\<lambda>(r, s).
                       if r < 0 then Inr (r, s)
                       else Inr (0, upd_env d (env_ipc_perm_update (\<lambda>_. perm)) s))))) = Inr (r, t)"
  then obtain c where c: "curenv s = Some c" by (auto split: option.splits)
  have map: "marco {d} (\<lambda>s. and_then (env_page_map c srcva d (env_ipc_dstva (envs s ! d)) p s) (\<lambda>(r, s).
                       if r < 0 then Inr (r, s)
                       else Inr (0, upd_env d (env_ipc_perm_update (\<lambda>_. p)) s)))" for p
    unfolding marco_def
    by (auto simp: and_then_eq_Inr split: if_splits dest!: marcoD [OF marco_env_page_map [of "{d}"]])
  have alloc: "marco {d} (\<lambda>s. and_then (env_page_alloc d (env_ipc_dstva (envs s ! d)) p s) (\<lambda>(r, s).
                     if r < 0 then Inr (r, s)
                     else and_then (env_page_map c srcva d (env_ipc_dstva (envs s ! d)) p s) (\<lambda>(r, s).
                       if r < 0 then Inr (r, s)
                       else Inr (0, upd_env d (env_ipc_perm_update (\<lambda>_. p)) s))))" for p
    using marco_if [OF marco_Inr map] marcoD [OF marco_env_page_alloc [of "{d}"]] unfolding marco_def
    by (fastforce simp: and_then_eq_Inr intro: solo_trans)
  have "marco {d} (\<lambda>s. and_then (con_pgdir c (\<lambda>pd. page_lookup pd srcva) s) (\<lambda>(r, s).
       case r of
         None \<Rightarrow> Inl Indefinido
       | Some (_, q) \<Rightarrow>
           if peek s q \<noteq> 0 \<and> peek s q AND PTE_P = 0 then Inr (- E_INVAL, s)
              else if perm AND PTE_W \<noteq> 0 \<and> peek s q AND PTE_W = 0 then Inr (- E_INVAL, s)
              else if env_ipc_dstva (envs s ! d) = 0 then Inr (0, s)
                   else and_then (env_page_alloc d (env_ipc_dstva (envs s ! d)) (perm OR (PTE_U OR PTE_P)) s) (\<lambda>(r, s).
                     if r < 0 then Inr (r, s)
                     else and_then (env_page_map c srcva d (env_ipc_dstva (envs s ! d)) (perm OR (PTE_U OR PTE_P)) s) (\<lambda>(r, s).
                       if r < 0 then Inr (r, s)
                       else Inr (0, upd_env d (env_ipc_perm_update (\<lambda>_. perm OR (PTE_U OR PTE_P))) s)))))"
    by (intro marco_then marco_option marco_prod marco_if alloc marco_con_pgdir marco_page_lookup) auto
  with a c show "solo {d} s t" unfolding marco_def Let_def by auto
qed

lemma marco_ipc_bail: "marco {d} (ipc_bail d value)"
  by (auto simp: marco_def ipc_bail_def con_env_def split: option.splits)

lemma solo_ipc_try_send:
  assumes "sys_ipc_try_send envid value srcva perm s = Inr (x, t)"
  shows "solo {e. env_ipc_recving (envs s ! e)} s t"
proof -
  from assms obtain r e where e: "envid2env envid False s = Inr ((r, e), s)"
    and t: "(if r \<noteq> 0 then Inr (r, s)
       else con_env e (\<lambda>d s.
         if \<not> env_ipc_recving (envs s ! d) then Inr (- E_IPC_NOT_RECV, s)
         else if srcva \<ge> UTOP then ipc_bail d value (upd_env d (env_ipc_perm_update (\<lambda>_. 0)) s)
         else if srcva mod PGSIZE \<noteq> 0 then Inr (- E_INVAL, s)
         else and_then (ipc_pagina d srcva perm s) (\<lambda>(r, s).
           if r < 0 then Inr (r, s) else ipc_bail d value s)) s) = Inr (x, t)"
    by (auto simp: sys_ipc_try_send_def and_then_eq_Inr dest: envid2env_estado)
  show ?thesis
  proof (cases "r \<noteq> 0 \<or> e = None \<or> \<not> env_ipc_recving (envs s ! the e)")
    case True
    with t show ?thesis by (auto simp: con_env_def split: option.splits if_splits)
  next
    case False
    then obtain d where d: "e = Some d" "env_ipc_recving (envs s ! d)" "r = 0" by auto
    have "marco {d} (\<lambda>s. and_then (ipc_pagina d srcva perm s) (\<lambda>(r, s).
           if r < 0 then Inr (r, s) else ipc_bail d value s))"
      by (intro marco_intros marco_ipc_pagina marco_ipc_bail) auto
    moreover have "marco {d} (\<lambda>s. ipc_bail d value (upd_env d (env_ipc_perm_update (\<lambda>_. 0)) s))"
      by (rule marco_pre [OF _ marco_ipc_bail]) simp
    ultimately have "solo {d} s t"
      using t d by (auto simp: con_env_def split: if_splits dest: marcoD)
    then show ?thesis by (rule solo_mono) (use d in auto)
  qed
qed

end
