(* ===== verification/Kern_Syscall_Contrato.thy ===== *)
theory Kern_Syscall_Contrato
  imports Kern_Marco Kern_Mem_Contrato
begin

text \<open>
  What the system calls promise: which environments a call can touch, fresh identifiers, delivery of
  messages, and the inputs on which a call breaks its documented contract.
\<close>

section \<open>Isolation\<close>

lemma solo_cputs:
  "sys_cputs a n s = Inr (x, t) \<Longrightarrow> curenv s = Some c \<Longrightarrow> solo {c} s t"
  unfolding sys_cputs_def con_env_def by (auto dest: marcoD [OF marco_user_mem_assert])

lemma solo_cgetc: "sys_cgetc s = Inr (x, t) \<Longrightarrow> solo {} s t"
  by (auto simp: sys_cgetc_def split: prod.splits)

lemma solo_getenvid: "sys_getenvid s = Inr (x, t) \<Longrightarrow> solo {} s t"
  by (auto simp: sys_getenvid_def con_env_def split: option.splits)

lemma solo_ipc_recv: "sys_ipc_recv va s = Inr (x, t) \<Longrightarrow> curenv s = Some c \<Longrightarrow> solo {c} s t"
  by (auto simp: sys_ipc_recv_def con_env_def sys_yield_def Let_def split: if_splits)

text \<open>The environments a call with number \<open>no\<close> by \<open>c\<close> may change.\<close>

definition alcance :: "32 word \<Rightarrow> kst \<Rightarrow> nat \<Rightarrow> nat set" where
  "alcance no s c =
     (if no = 11 then {e. env_ipc_recving (envs s ! e)}
      else if no = 7 then set_option (env_free_list s)
      else insert c (hijos s c))"

lemma solo_syscall:
  assumes "curenv s = Some c" and "syscall no a1 a2 a3 a4 a5 s = Inr (r, t)"
  shows "solo (alcance no s c) s t"
  using assms(2) unfolding syscall_def
  by (auto simp: alcance_def and_then_eq_Inr sys_yield_def split: if_splits
      dest: solo_cputs [OF _ assms(1)] solo_cgetc solo_getenvid solo_exofork solo_page_map
        solo_ipc_recv [OF _ assms(1)] solo_ipc_try_send
      intro: solo_env_destroy solo_set_status solo_set_upcall solo_page_alloc solo_page_unmap
        solo_lower_priority solo_get_priority assms(1)
      elim!: solo_mono [of "{c}"] solo_mono [of "{}"])




section \<open>Identifiers\<close>

lemma ENVX_take: "ENVX w = unat (take_bit 10 w)"
  by (simp add: ENVX_def take_bit_eq_mask mask_eq_exp_minus_1)

text \<open>The generation part of a new identifier, from the old one.\<close>

definition generacion :: "32 word \<Rightarrow> 32 word" where
  "generacion v = (let g = (v + 4096) AND NOT 1023 in if sint g \<le> 0 then 4096 else g)"

lemma nueva_id_gen: "nueva_id v e = generacion v OR of_nat e"
proof -
  have "push_bit ENVGENSHIFT 1 = (4096 :: 32 word)" by (simp add: ENVGENSHIFT_def push_bit_eq_mult)
  then show ?thesis unfolding nueva_id_def generacion_def by (simp only: NENV_def Let_def) simp
qed

lemma mask10: "(1023 :: 32 word) = mask 10"
  by (simp add: mask_eq_exp_minus_1)

lemma generacion_baja: "take_bit 10 (generacion v) = 0"
  unfolding generacion_def Let_def mask10
  by (auto intro!: bit_word_eqI simp: bit_simps)

lemma generacion_pos: "0 < sint (generacion v)"
  by (auto simp: generacion_def Let_def)

lemma generacion_nueva: "generacion v \<noteq> v AND NOT 1023"
proof
  assume g: "generacion v = v AND NOT 1023"
  have sep: "w AND NOT 1023 = w - take_bit 10 w" for w :: "32 word"
  proof -
    have "w - take_bit 10 w = w AND NOT (take_bit 10 w)"
      by (rule disjunctive_diff_eq_and_not) (auto intro!: bit_word_eqI simp: bit_simps)
    also have "\<dots> = w AND NOT 1023"
      unfolding mask10 by (auto intro!: bit_word_eqI simp: bit_simps)
    finally show ?thesis by simp
  qed
  have t: "take_bit 10 (v + 4096) = take_bit 10 v"
  proof -
    have "((unat v + 4096) mod 2 ^ 32) mod 1024 = unat v mod 1024"
      by (subst mod_mod_cancel) (simp_all add: mod_add_eq [symmetric])
    then have "unat (v + 4096) mod 1024 = unat v mod 1024" by (simp add: unat_word_ariths)
    then show ?thesis by (simp add: word_unat_eq_iff take_bit_eq_mod unat_mod)
  qed
  have key: "(v + 4096) AND NOT 1023 = (v AND NOT 1023) + 4096"
    by (simp only: sep t) (rule diff_add_eq [symmetric])
  show False
  proof (cases "sint ((v + 4096) AND NOT 1023) \<le> 0")
    case True
    then have "v AND NOT 1023 = 4096" using g unfolding generacion_def Let_def by (simp only: if_True)
    with True key show False by simp
  next
    case False
    then show False using g key unfolding generacion_def Let_def by (simp only: if_False) simp
  qed
qed


lemma negativo_bit: "sint (w :: 32 word) < 0 \<longleftrightarrow> bit w 31"
  using bit_last_iff [of w] by simp

lemma of_nat_bajo: "e < 1024 \<Longrightarrow> of_nat e AND 1023 = (of_nat e :: 32 word)"
  by (simp add: mask10 flip: take_bit_eq_mask)
    (simp add: word_unat_eq_iff take_bit_eq_mod unat_mod unat_of_nat)

lemma nueva_id_ok:
  assumes "e < 1024"
  shows "0 < sint (nueva_id v e)" and "ENVX (nueva_id v e) = e" and "nueva_id v e \<noteq> v"
proof -
  let ?e = "of_nat e :: 32 word"
  have bit_e: "\<not> bit ?e n" if "n \<ge> 10" for n
  proof -
    have "bit ?e n \<longleftrightarrow> bit (?e AND mask 10) n" using of_nat_bajo [OF assms] by (simp add: mask10)
    with that show ?thesis by (simp add: bit_simps)
  qed
  have bit_en: "\<not> bit e n" if "\<not> n < 10" for n
  proof -
    have "(1024::nat) = 2 ^ 10" by simp
    also have "\<dots> \<le> 2 ^ n" using that by (intro power_increasing) auto
    finally show ?thesis using assms by (simp add: bit_iff_odd)
  qed
  have bit_g: "\<not> bit (generacion v) n" if "n < 10" for n
  proof -
    have "bit (take_bit 10 (generacion v)) n = bit (0 :: 32 word) n" by (simp only: generacion_baja)
    with that show ?thesis by (simp add: bit_simps)
  qed
  have "\<not> bit (nueva_id v e) 31"
    using generacion_pos [of v] bit_e [of 31] negativo_bit [of "generacion v"]
    by (simp add: nueva_id_gen bit_simps)
  moreover have "nueva_id v e \<noteq> 0"
  proof
    assume z: "nueva_id v e = 0"
    have "generacion v = 0"
    proof (rule bit_word_eqI)
      fix n
      have "bit (nueva_id v e) n = bit (0 :: 32 word) n" using z by simp
      then show "bit (generacion v) n = bit (0 :: 32 word) n" by (simp add: nueva_id_gen bit_simps)
    qed
    then show False using generacion_pos [of v] by simp
  qed
  ultimately show "0 < sint (nueva_id v e)"
    using negativo_bit [of "nueva_id v e"] by (metis linorder_less_linear sint_0 signed_eq_0_iff)
  have "take_bit 10 (nueva_id v e) = ?e"
    by (rule bit_word_eqI) (auto simp: nueva_id_gen bit_simps dest: bit_g bit_en)
  then show "ENVX (nueva_id v e) = e"
    using assms by (simp add: ENVX_take unat_of_nat take_bit_eq_mod)
  show "nueva_id v e \<noteq> v"
  proof
    assume "nueva_id v e = v"
    then have "v AND NOT 1023 = nueva_id v e AND NOT 1023" by simp
    also have "\<dots> = generacion v"
      unfolding mask10 nueva_id_gen
      by (rule bit_word_eqI) (auto simp: bit_simps dest: bit_g bit_en)
    finally show False using generacion_nueva [of v] by simp
  qed
qed


lemma env_setup_vm_id:
  assumes "env_setup_vm e s = Inr (q, u)"
  shows "env_id (envs u ! e) = env_id (envs s ! e)" and "length (envs u) = length (envs s)"
    and "env_free_list u = env_free_list s"
proof -
  have pa: "envs v = envs s \<and> env_free_list v = env_free_list s" if "page_alloc z s = Inr (p, v)" for z p v
    using that by (auto simp: page_alloc_def page2kva_def kaddr_def and_then_eq_Inr Let_def
        upd_page_def memset0_def split: option.splits if_splits)
  show "env_id (envs u ! e) = env_id (envs s ! e)" and "length (envs u) = length (envs s)"
    and "env_free_list u = env_free_list s"
    using assms
    by (auto simp: env_setup_vm_def and_then_eq_Inr page2kva_def kaddr_def Let_def poke_def upd_page_def
        memcpy_pag_def upd_env_def nth_upd dest!: pa split: option.splits if_splits)
qed

text \<open>
  C25: when env_alloc succeeds it takes the first free slot e and gives it an identifier that is
  positive, has e as its index and differs from the one the slot had, so that envid2env refuses the
  old one and finds the new environment by its own, which is RUNNABLE and a child of its parent.
\<close>
theorem env_alloc_id:
  assumes "env_alloc parent s = Inr ((r, Some e), t)" and "length (envs s) = NENV" and "e < NENV"
  shows "r = 0 \<and> env_free_list s = Some e \<and> 0 < sint (env_id (envs t ! e)) \<and>
    ENVX (env_id (envs t ! e)) = e \<and> env_id (envs t ! e) \<noteq> env_id (envs s ! e) \<and>
    env_status (envs t ! e) = ENV_RUNNABLE \<and> env_parent_id (envs t ! e) = parent \<and>
    envid2env (env_id (envs t ! e)) False t = Inr ((0, Some e), t) \<and>
    (env_id (envs s ! e) \<noteq> 0 \<and> ENVX (env_id (envs s ! e)) = e \<longrightarrow>
       envid2env (env_id (envs s ! e)) False t = Inr ((- E_BAD_ENV, None), t))"
proof -
  have fl: "env_free_list s = Some e" using env_alloc_solo(3) [OF assms(1)] by auto
  from assms(1) fl obtain q u where u: "env_setup_vm e s = Inr (q, u)"
    and t: "r = 0" "t = (let s = upd_env e (\<lambda>v. v\<lparr>
                        env_id := nueva_id (env_id v) e,
                        env_parent_id := parent,
                        env_type := 0,
                        env_status := ENV_RUNNABLE,
                        env_runs := 0,
                        env_priority := DEFAULT_PRIORITY,
                        env_wait_time := 0,
                        env_tf := tf_vacio\<lparr>tf_ds := GD_UD OR 3, tf_es := GD_UD OR 3,
                                          tf_ss := GD_UD OR 3, tf_esp := USTACKTOP,
                                          tf_cs := GD_UT OR 3, tf_eflags := FL_IF\<rparr>,
                        env_pgfault_upcall := 0,
                        env_ipc_recving := False\<rparr>) u
              in s\<lparr>env_free_list := env_link (envs s ! e)\<rparr>)"
    by (auto simp: env_alloc_def and_then_eq_Inr Let_def split: if_splits)
  note U = env_setup_vm_id [OF u]
  have campos: "env_id (envs t ! e) = nueva_id (env_id (envs s ! e)) e"
    "env_status (envs t ! e) = ENV_RUNNABLE" "env_parent_id (envs t ! e) = parent"
    using U assms(2,3) by (simp_all add: t(2) Let_def upd_env_def)
  have e: "e < 1024" using assms(3) by (simp add: NENV_def)
  note N = nueva_id_ok [OF e, of "env_id (envs s ! e)"]
  have nz: "nueva_id (env_id (envs s ! e)) e \<noteq> 0" using N(1) by auto
  show ?thesis
    using N nz fl t(1) campos by (auto simp: envid2env_def)
qed

theorem env_alloc_id_witness:
  "\<exists>t. env_alloc 0x1000 kst_ej = Inr ((0, Some 1), t) \<and> ENVX (env_id (envs t ! 1)) = 1 \<and>
       env_parent_id (envs t ! 1) = 0x1000"
proof -
  have sel: "env_free_list kst_ej = Some 1" "length (envs kst_ej) = NENV"
    by (simp_all add: kst_ej_def NENV_def)
  have pd: "page2kva 3 v = Inr (3, v)" if "npages v = 6" for v
    using that by (simp add: page2kva_def kaddr_def)
  have "\<exists>u. env_setup_vm 1 kst_ej = Inr (0, u)"
    using page_alloc_primera [OF libres_ej, of True] pd
    by (simp add: env_setup_vm_def kst_ej_mem(1) Let_def)
  then obtain t where t: "env_alloc 0x1000 kst_ej = Inr ((0, Some 1), t)"
    by (auto simp: env_alloc_def sel Let_def)
  have "(1::nat) < NENV" by (simp add: NENV_def)
  from env_alloc_id [OF t sel(2) this] t show ?thesis by auto
qed


section \<open>Unchecked permissions\<close>


abbreviation kst_map :: kst where "kst_map \<equiv> kst_una 2 0"



section \<open>Messages\<close>

lemma envid2env_False: "envid2env envid False s = Inr (
    (if envid = 0 then (0, curenv s)
     else if env_status (envs s ! ENVX envid) = ENV_FREE \<or> env_id (envs s ! ENVX envid) \<noteq> envid
     then (- E_BAD_ENV, None) else (0, Some (ENVX envid))), s)"
  by (simp add: envid2env_def Let_def)

lemma ipc_sin_pagina:
  assumes "curenv s = Some c" and "envid2env envid False s = Inr ((0, Some d), s)"
    and "env_ipc_recving (envs s ! d)" and "UTOP \<le> srcva"
  shows "sys_ipc_try_send envid value srcva perm s =
    Inr (0, upd_env d (\<lambda>v. v\<lparr>
       env_ipc_from := env_id (envs (upd_env d (env_ipc_perm_update (\<lambda>_. 0)) s) ! c),
       env_ipc_recving := False,
       env_ipc_value := value,
       env_tf := (env_tf v)\<lparr>tf_regs := (tf_regs (env_tf v))\<lparr>reg_eax := 0\<rparr>\<rparr>,
       env_status := ENV_RUNNABLE\<rparr>) (upd_env d (env_ipc_perm_update (\<lambda>_. 0)) s))"
  using assms by (simp add: sys_ipc_try_send_def ipc_bail_def con_env_def upd_env_def)

text \<open>
  C27: a value is delivered once. Sending without a page to an environment that is receiving returns 0,
  leaves it the value, the sender's identifier and permission 0, wakes it with 0 as the result of its
  own call, changes no other environment, and ends the reception: any further send to it, by whoever
  runs then, fails with -E_IPC_NOT_RECV and changes nothing.
\<close>
theorem ipc_entrega:
  assumes "curenv s = Some c" and "envid2env envid False s = Inr ((0, Some d), s)" and "d < length (envs s)"
    and "env_ipc_recving (envs s ! d)" and "UTOP \<le> srcva"
  shows "\<exists>t. sys_ipc_try_send envid value srcva perm s = Inr (0, t) \<and>
    env_ipc_value (envs t ! d) = value \<and> env_ipc_from (envs t ! d) = env_id (envs s ! c) \<and>
    env_ipc_perm (envs t ! d) = 0 \<and> reg_eax (tf_regs (env_tf (envs t ! d))) = 0 \<and>
    env_status (envs t ! d) = ENV_RUNNABLE \<and> (\<forall>e. e \<noteq> d \<longrightarrow> envs t ! e = envs s ! e) \<and>
    (envid \<noteq> 0 \<longrightarrow> (\<forall>c' v va p. sys_ipc_try_send envid v va p (t\<lparr>curenv := c'\<rparr>) =
                            Inr (- E_IPC_NOT_RECV, t\<lparr>curenv := c'\<rparr>)))"
proof -
  let ?u = "upd_env d (env_ipc_perm_update (\<lambda>_. 0)) s"
  let ?t = "upd_env d (\<lambda>v. v\<lparr>
       env_ipc_from := env_id (envs ?u ! c),
       env_ipc_recving := False,
       env_ipc_value := value,
       env_tf := (env_tf v)\<lparr>tf_regs := (tf_regs (env_tf v))\<lparr>reg_eax := 0\<rparr>\<rparr>,
       env_status := ENV_RUNNABLE\<rparr>) ?u"
  have d: "envid \<noteq> 0 \<Longrightarrow> d = ENVX envid \<and> env_id (envs s ! d) = envid"
    using assms(2) by (auto simp: envid2env_False split: if_splits)
  have "sys_ipc_try_send envid v va p (?t\<lparr>curenv := c'\<rparr>) = Inr (- E_IPC_NOT_RECV, ?t\<lparr>curenv := c'\<rparr>)"
    if "envid \<noteq> 0" for c' v va p
  proof -
    have "d = ENVX envid" "env_id (envs s ! ENVX envid) = envid" "ENVX envid < length (envs s)"
      using d [OF that] assms(3) by auto
    with that show ?thesis
      by (simp add: sys_ipc_try_send_def envid2env_False con_env_def upd_env_def)
  qed
  then show ?thesis
    using ipc_sin_pagina [OF assms(1,2,4,5), of "value" perm] assms(3)
    by (intro exI [of _ ?t]) (simp add: upd_env_def nth_upd)
qed

definition kst_ipc :: kst where
  "kst_ipc = kst_ej\<lparr>envs := (envs kst_ej)[1 := env_ej\<lparr>env_id := 0x1001, env_status := ENV_NOT_RUNNABLE,
                                              env_ipc_recving := True\<rparr>]\<rparr>"

lemma kst_ipc_sel: "curenv kst_ipc = Some 0" "length (envs kst_ipc) = 1024"
  "envs kst_ipc ! 1 = env_ej\<lparr>env_id := 0x1001, env_status := ENV_NOT_RUNNABLE, env_ipc_recving := True\<rparr>"
  "envs kst_ipc ! 0 = env_ej\<lparr>env_id := 0x1000, env_status := ENV_RUNNING, env_pgdir := Some 1\<rparr>"
  by (simp_all add: kst_ipc_def kst_ej_def)

lemma kst_ipc_id: "envid2env 0x1001 False kst_ipc = Inr ((0, Some 1), kst_ipc)"
  using kst_ipc_sel(3) by (simp add: envid2env_False ENVX_def)

theorem ipc_entrega_witness:
  "\<exists>t. sys_ipc_try_send 0x1001 42 UTOP 0 kst_ipc = Inr (0, t) \<and> env_ipc_value (envs t ! 1) = 42 \<and>
       env_ipc_from (envs t ! 1) = 0x1000"
  using ipc_entrega [OF kst_ipc_sel(1) kst_ipc_id, of UTOP 42 0] kst_ipc_sel(2-4) by auto

text \<open>
  Sys_ipc_recv sets env_ipc_recving before it looks at dstva. With a dstva that is not aligned, or
  that is at or above UTOP (which its comment allows, for a receiver that wants no page), it returns
  -E_INVAL and the caller goes on running marked as receiving: a send by another environment then
  succeeds, overwrites its result register and makes it RUNNABLE while it is not blocked.
\<close>
theorem ipc_recv_fallida:
  assumes "curenv s = Some d" and "d < length (envs s)" and "UTOP \<le> dstva \<or> dstva mod PGSIZE \<noteq> 0"
    and "envid2env envid False s = Inr ((0, Some d), s)" and "envid \<noteq> 0" and "UTOP \<le> srcva"
  shows "\<exists>t. sys_ipc_recv dstva s = Inr (- E_INVAL, t) \<and> env_ipc_recving (envs t ! d) \<and>
    env_status (envs t ! d) = env_status (envs s ! d) \<and>
    (\<exists>u. sys_ipc_try_send envid value srcva perm (t\<lparr>curenv := Some c\<rparr>) = Inr (0, u) \<and>
         env_status (envs u ! d) = ENV_RUNNABLE \<and> env_ipc_value (envs u ! d) = value)"
proof -
  let ?t = "upd_env d (env_ipc_recving_update (\<lambda>_. True)) s"
  have rec: "sys_ipc_recv dstva s = Inr (- E_INVAL, ?t)"
    using assms(1,3) by (auto simp: sys_ipc_recv_def con_env_def va_mala_def Let_def)
  have d: "d = ENVX envid" "env_id (envs s ! d) = envid" "env_status (envs s ! d) \<noteq> ENV_FREE"
    using assms(4,5) by (auto simp: envid2env_False split: if_splits)
  have id: "envid2env envid False (?t\<lparr>curenv := Some c\<rparr>) = Inr ((0, Some d), ?t\<lparr>curenv := Some c\<rparr>)"
    using d assms(2,5) by (simp add: envid2env_False upd_env_def)
  have recving: "env_ipc_recving (envs (?t\<lparr>curenv := Some c\<rparr>) ! d)"
    using assms(2) by (simp add: upd_env_def)
  show ?thesis
    using rec assms(2) ipc_sin_pagina [OF _ id recving assms(6), of c "value" perm]
    by (intro exI [of _ ?t]) (simp add: upd_env_def nth_upd)
qed

theorem ipc_recv_fallida_witness:
  "\<exists>t. sys_ipc_recv UTOP (kst_ipc\<lparr>curenv := Some 1\<rparr>) = Inr (- E_INVAL, t) \<and>
     (\<exists>u. sys_ipc_try_send 0x1001 42 UTOP 0 (t\<lparr>curenv := Some 0\<rparr>) = Inr (0, u))"
proof -
  let ?s = "kst_ipc\<lparr>curenv := Some 1\<rparr>"
  have "envid2env 0x1001 False ?s = Inr ((0, Some 1), ?s)"
    using kst_ipc_sel(3) by (simp add: envid2env_False ENVX_def)
  from ipc_recv_fallida [OF _ _ _ this, of UTOP UTOP 42 0 0] kst_ipc_sel(2) show ?thesis by auto
qed


section \<open>Priorities\<close>

text \<open>
  Sys_env_lower_priority has no lower bound, unlike the scheduler's lower_priority. From the
  lowest priority, 0, it returns success and leaves priority -1, which sys_env_get_priority then
  returns as if it had failed.
\<close>
theorem prioridad_negativa:
  assumes "curenv s = Some c" and "c < length (envs s)" and "env_priority (envs s ! c) = 0"
  shows "\<exists>t. sys_env_lower_priority 0 s = Inr (0, t) \<and> sys_env_get_priority 0 t = Inr (-1, t) \<and>
    lower_priority c s = s"
  using assms
  by (auto simp: sys_env_lower_priority_def sys_env_get_priority_def envid2env_def con_env_def upd_env_def
      lower_priority_def)

theorem prioridad_negativa_witness:
  "\<exists>t. sys_env_lower_priority 0 kst_ej = Inr (0, t) \<and> sys_env_get_priority 0 t = Inr (-1, t)"
proof -
  have "curenv kst_ej = Some 0" "0 < length (envs kst_ej)" "env_priority (envs kst_ej ! 0) = 0"
    by (simp_all add: kst_ej_def env_ej_def)
  from prioridad_negativa [OF this] show ?thesis by blast
qed

end
