(* ===== verification/Kern_Console_Contrato.thy ===== *)
theory Kern_Console_Contrato
  imports Kern_Console
begin

text \<open>
  What the console promises: the ring of input characters is a queue of at most 511, the device
  routines feed it what the serial port and the keyboard deliver, and output keeps the cursor on the
  screen. A queue that reaches 512 characters is lost whole, for the two positions then meet.
\<close>

section \<open>The invariant\<close>

definition consola_ok :: "consola \<Rightarrow> bool" where
  "consola_ok k \<longleftrightarrow> length (cons_buf k) = CONSBUFSIZE \<and> cons_rpos k < CONSBUFSIZE \<and>
     cons_wpos k < CONSBUFSIZE \<and> crt_pos k < CRT_SIZE"

text \<open>The characters waiting, oldest first.\<close>

definition pendientes :: "consola \<Rightarrow> 8 word list" where
  "pendientes k = map (\<lambda>i. cons_buf k ! ((cons_rpos k + i) mod CONSBUFSIZE))
     [0..<(cons_wpos k + CONSBUFSIZE - cons_rpos k) mod CONSBUFSIZE]"

text \<open>What is left of a list of characters put in an empty ring: a full ring looks empty.\<close>

definition anillo :: "'a list \<Rightarrow> 'a list" where
  "anillo xs = drop (CONSBUFSIZE * (length xs div CONSBUFSIZE)) xs"

lemma anillo_corto: "length xs < CONSBUFSIZE \<Longrightarrow> anillo xs = xs"
  by (simp add: anillo_def)

lemma length_anillo: "length (anillo xs) = length xs mod CONSBUFSIZE"
  by (simp add: anillo_def minus_mult_div_eq_mod)

lemma anillo_append: "anillo (anillo xs @ ys) = anillo (xs @ ys)"
proof -
  let ?N = CONSBUFSIZE and ?q = "length xs div CONSBUFSIZE" and ?a = "length (anillo xs)"
  have xs: "?a + ?N * ?q = length xs" by (simp add: length_anillo)
  have "(?a + length ys + ?N * ?q) div ?N = (?a + length ys) div ?N + ?q"
    by (simp add: CONSBUFSIZE_def)
  then have "(length xs + length ys) div ?N = (?a + length ys) div ?N + ?q"
    using xs by (simp add: ac_simps)
  then have "?N * ((length xs + length ys) div ?N) = ?N * ((?a + length ys) div ?N) + ?N * ?q"
    by (simp add: distrib_left)
  moreover have "?N * ?q \<le> length xs" by simp
  ultimately show ?thesis
    by (simp add: anillo_def flip: drop_drop)
qed

text \<open>Two consoles that differ in neither ring nor positions have the same queue.\<close>

lemma pendientes_cong:
  "cons_buf k = cons_buf k' \<Longrightarrow> cons_rpos k = cons_rpos k' \<Longrightarrow> cons_wpos k = cons_wpos k' \<Longrightarrow>
   pendientes k = pendientes k'"
  by (simp add: pendientes_def)

lemma guarda_car_sel [simp]:
  "serial_in (guarda_car c k) = serial_in k" "kbd_in (guarda_car c k) = kbd_in k"
  "serial_exists (guarda_car c k) = serial_exists k" "kbd_shift (guarda_car c k) = kbd_shift k"
  "crt_pos (guarda_car c k) = crt_pos k" "cons_rpos (guarda_car c k) = cons_rpos k"
  by (simp_all add: guarda_car_def Let_def)

lemma guarda_car_ok: "consola_ok k \<Longrightarrow> consola_ok (guarda_car c k)"
  by (auto simp: consola_ok_def guarda_car_def Let_def CONSBUFSIZE_def)

lemma guarda_car_wpos:
  "cons_wpos k < CONSBUFSIZE \<Longrightarrow> cons_wpos (guarda_car c k) = (cons_wpos k + 1) mod CONSBUFSIZE"
  "cons_buf (guarda_car c k) = (cons_buf k)[cons_wpos k := word_of_int c]"
  by (auto simp: guarda_car_def Let_def)

text \<open>The ring's arithmetic: a number of waiting characters and the position after them.\<close>

lemma hueco:
  fixes r w N :: nat
  assumes "r < N" and "w < N"
  shows "(r + (w + N - r) mod N) mod N = w"
    and "((w + 1) mod N + N - r) mod N = ((w + N - r) mod N + 1) mod N"
proof -
  show "(r + (w + N - r) mod N) mod N = w"
    using assms by (simp add: mod_add_right_eq)
  have "((w + 1) mod N + N - r) mod N = ((w + 1) mod N + (N - r)) mod N"
    using assms by simp
  also have "\<dots> = (w + 1 + (N - r)) mod N" by (rule mod_add_left_eq)
  also have "\<dots> = ((w + N - r) + 1) mod N" using assms by simp
  also have "\<dots> = ((w + N - r) mod N + 1) mod N" by (rule mod_add_left_eq [symmetric])
  finally show "((w + 1) mod N + N - r) mod N = ((w + N - r) mod N + 1) mod N" .
qed

lemma hueco_unico:
  fixes r i n N :: nat
  assumes "i < n" and "n < N" and "r < N"
  shows "(r + i) mod N \<noteq> (r + n) mod N"
  using assms by (cases "r + i < N"; cases "r + n < N") (auto simp: mod_if)

lemma pendientes_guarda:
  assumes "consola_ok k"
  shows "pendientes (guarda_car c k) = anillo (pendientes k @ [word_of_int c])"
proof -
  let ?N = CONSBUFSIZE and ?r = "cons_rpos k" and ?w = "cons_wpos k"
  let ?n = "(?w + ?N - ?r) mod ?N"
  have ok: "?r < ?N" "?w < ?N" "length (cons_buf k) = ?N" using assms by (simp_all add: consola_ok_def)
  have n: "?n < ?N" by (simp add: CONSBUFSIZE_def)
  have len: "length (pendientes k @ [word_of_int c]) = ?n + 1" by (simp add: pendientes_def)
  have cuenta: "(cons_wpos (guarda_car c k) + ?N - ?r) mod ?N = (?n + 1) mod ?N"
    by (simp only: guarda_car_wpos(1) [OF ok(2)] hueco(2) [OF ok(1,2)])
  show ?thesis
  proof (cases "?n + 1 = ?N")
    case True
    then have "(?n + 1) mod ?N = 0" by simp
    moreover have "anillo (pendientes k @ [word_of_int c]) = []"
      using length_anillo [of "pendientes k @ [word_of_int c]"] len True by simp
    ultimately show ?thesis using cuenta by (simp add: pendientes_def [of "guarda_car c k"])
  next
    case False
    then have lt: "?n + 1 < ?N" using n by simp
    have viejo: "cons_buf (guarda_car c k) ! ((?r + i) mod ?N) = cons_buf k ! ((?r + i) mod ?N)"
      if "i < ?n" for i
      using hueco_unico [OF that n ok(1)] hueco(1) [OF ok(1,2)] by (simp add: guarda_car_wpos(2))
    have nuevo: "cons_buf (guarda_car c k) ! ((?r + ?n) mod ?N) = word_of_int c"
      using ok by (simp only: hueco(1) guarda_car_wpos(2)) simp
    have "pendientes (guarda_car c k) =
        map (\<lambda>i. cons_buf (guarda_car c k) ! ((?r + i) mod ?N)) [0..<?n + 1]"
      using cuenta lt by (simp add: pendientes_def [of "guarda_car c k"])
    also have "\<dots> = pendientes k @ [word_of_int c]"
      using viejo nuevo by (simp add: pendientes_def)
    finally show ?thesis using anillo_corto [of "pendientes k @ [word_of_int c]"] len lt by simp
  qed
qed


section \<open>The devices\<close>

text \<open>Codes and characters fit in a byte, so a key is never taken for the lack of data.\<close>

lemma tabla_tec_rango:
  assumes "\<forall>x\<in>set base \<union> snd ` set desig. 0 \<le> x \<and> x < 256"
  shows "0 \<le> tabla_tec base desig d \<and> tabla_tec base desig d < 256"
proof (cases "map_of desig (unat d)")
  case None
  then show ?thesis using assms by (simp add: tabla_tec_def)
next
  case (Some v)
  then have "v \<in> snd ` set desig" by (force dest: map_of_SomeD)
  then show ?thesis using assms Some by (simp add: tabla_tec_def)
qed

lemmas teclas_def = KEY_HOME_def KEY_END_def KEY_UP_def KEY_DN_def KEY_LF_def KEY_RT_def KEY_PGUP_def
  KEY_PGDN_def KEY_INS_def KEY_DEL_def

lemma of_char_rango: "0 \<le> (of_char c :: int) \<and> (of_char c :: int) < 256"
proof -
  have "0 \<le> int (of_char c) \<and> int (of_char c) < 256"
    using nat_of_char_less_256 [of c] by linarith
  then show ?thesis by (simp only: of_nat_of_char)
qed

lemma codigos_rango: "\<forall>x\<in>set (codigos cs). 0 \<le> x \<and> x < 256"
  using of_char_rango by (simp add: codigos_def)

lemma control_rango: "\<forall>x\<in>set (control cs). 0 \<le> x \<and> x < 256"
  by (simp add: control_def)

lemmas rangos = codigos_rango control_rango ball_Un image_insert image_empty set_append

lemma charcode_rango: "0 \<le> charcode sh d \<and> charcode sh d < 256"
proof -
  have n: "0 \<le> normalmap d \<and> normalmap d < 256"
    unfolding normalmap_def by (rule tabla_tec_rango) (simp add: rangos teclas_def)
  have s: "0 \<le> shiftmap d \<and> shiftmap d < 256"
    unfolding shiftmap_def by (rule tabla_tec_rango) (simp add: rangos teclas_def)
  have c: "0 \<le> ctlmap d \<and> ctlmap d < 256"
    unfolding ctlmap_def by (rule tabla_tec_rango) (simp add: rangos teclas_def)
  show ?thesis unfolding charcode_def using n s c by (simp split: if_splits)
qed

lemma mayusculas_rango: "0 \<le> c \<and> c < 256 \<Longrightarrow> 0 \<le> mayusculas sh c \<and> mayusculas sh c < 256"
  by (auto simp: mayusculas_def)


lemma codigo_byte: "0 \<le> c \<and> c < 256 \<Longrightarrow> uint (word_of_int c :: 8 word) = c"
  by (simp add: uint_word_of_int)

text \<open>The characters that pressing and releasing keys gives, from a state of the modifiers.\<close>

fun teclas :: "8 word \<Rightarrow> (bool \<times> 8 word) list \<Rightarrow> 8 word list" where
  "teclas sh [] = []"
| "teclas sh ((terr, d) # ds) =
     (if terr then []
      else if d = 0xE0 then teclas (sh OR E0ESC) ds
      else if bit d 7
      then teclas (sh AND NOT (shiftcode (if sh AND E0ESC \<noteq> 0 then d else d AND 0x7F) OR E0ESC)) ds
      else
        let d = (if sh AND E0ESC \<noteq> 0 then d OR 0x80 else d);
            sh = (((sh AND NOT E0ESC) OR shiftcode d) XOR togglecode d);
            c = mayusculas sh (charcode sh d)
        in (if c = 0 then [] else [word_of_int c]) @ teclas sh ds)"

definition solo_anillo :: "consola \<Rightarrow> consola \<Rightarrow> bool" where
  "solo_anillo k k' \<longleftrightarrow> cons_buf k' = cons_buf k \<and> cons_rpos k' = cons_rpos k \<and>
     cons_wpos k' = cons_wpos k \<and> crt_pos k' = crt_pos k \<and> serial_exists k' = serial_exists k"

lemma solo_anillo_ok: "solo_anillo k k' \<Longrightarrow> consola_ok k' = consola_ok k"
  by (simp add: solo_anillo_def consola_ok_def)

lemma solo_anillo_pendientes: "solo_anillo k k' \<Longrightarrow> pendientes k' = pendientes k"
  by (auto simp: solo_anillo_def intro: pendientes_cong)

lemma cons_intr_serial:
  assumes "consola_ok k" and "length (serial_in k) < n"
  shows "consola_ok (cons_intr n serial_proc_data k) \<and>
    pendientes (cons_intr n serial_proc_data k) = anillo (pendientes k @ filter (\<lambda>b. b \<noteq> 0) (serial_in k)) \<and>
    serial_in (cons_intr n serial_proc_data k) = [] \<and>
    kbd_in (cons_intr n serial_proc_data k) = kbd_in k \<and>
    kbd_shift (cons_intr n serial_proc_data k) = kbd_shift k"
  using assms
proof (induction n arbitrary: k)
  case (Suc n)
  show ?case
  proof (cases "serial_in k")
    case Nil
    have "length (pendientes k) < CONSBUFSIZE" by (simp add: pendientes_def CONSBUFSIZE_def)
    then show ?thesis using Nil Suc.prems by (simp add: serial_proc_data_def anillo_corto)
  next
    case (Cons b bs)
    let ?k = "k\<lparr>serial_in := bs\<rparr>"
    have s: "solo_anillo k ?k" by (simp add: solo_anillo_def)
    note ok = solo_anillo_ok [OF s] and pend = solo_anillo_pendientes [OF s]
    have n: "length bs < n" using Suc.prems(2) Cons by simp
    have no: "uint b \<noteq> -1" using uint_ge_0 [of b] by linarith
    show ?thesis
    proof (cases "b = 0")
      case True
      then show ?thesis
        using Suc.IH [of ?k] Suc.prems(1) n Cons ok pend by (simp add: serial_proc_data_def)
    next
      case False
      have "consola_ok (guarda_car (uint b) ?k)" using Suc.prems(1) ok by (simp add: guarda_car_ok)
      moreover have "pendientes (guarda_car (uint b) ?k) = anillo (pendientes k @ [b])"
        using pendientes_guarda [of ?k "uint b"] Suc.prems(1) ok pend by simp
      moreover have "uint b \<noteq> 0" using False uint_0_iff [of b] by blast
      ultimately show ?thesis
        using Suc.IH [of "guarda_car (uint b) ?k"] n Cons no False
        by (simp add: serial_proc_data_def anillo_append)
    qed
  qed
qed simp


lemma bit_7: "d AND 0x80 \<noteq> 0 \<longleftrightarrow> bit (d :: 8 word) 7"
  using and_exp_eq_0_iff_not_bit [of d 7] by simp

lemma sin_escape: "sh AND E0ESC = 0 \<Longrightarrow> sh AND NOT E0ESC = sh"
proof -
  have "(sh AND E0ESC) OR (sh AND NOT E0ESC) = sh"
    by (rule bit_word_eqI) (auto simp: bit_simps)
  then show "sh AND E0ESC = 0 \<Longrightarrow> sh AND NOT E0ESC = sh" by simp
qed

declare shiftcode.simps [simp del] togglecode.simps [simp del]

text \<open>A press, for a state of the modifiers without the escape.\<close>

lemma tecla_efecto:
  "solo_anillo k (snd (tecla d k))" "serial_in (snd (tecla d k)) = serial_in k"
  "kbd_in (snd (tecla d k)) = kbd_in k" "0 \<le> fst (tecla d k) \<and> fst (tecla d k) < 256"
  "fst (tecla d k) = (let sh = (kbd_shift k OR shiftcode d) XOR togglecode d
                      in mayusculas sh (charcode sh d))"
  "kbd_shift (snd (tecla d k)) = (kbd_shift k OR shiftcode d) XOR togglecode d"
  using mayusculas_rango [OF charcode_rango] by (simp_all add: tecla_def Let_def solo_anillo_def)

lemma solo_anillo_trans: "solo_anillo (k\<lparr>kbd_in := ds\<rparr>) k' \<Longrightarrow> solo_anillo k k'"
  "solo_anillo (k\<lparr>kbd_in := ds, kbd_shift := sh\<rparr>) k' \<Longrightarrow> solo_anillo k k'"
  by (simp_all add: solo_anillo_def)

lemma kbd_proc_data_paso:
  assumes "kbd_in k = (False, d) # ds"
  obtains c k' where "kbd_proc_data k = (c, k')" "solo_anillo k k'" "serial_in k' = serial_in k"
    "kbd_in k' = ds" "0 \<le> c \<and> c < 256"
    "teclas (kbd_shift k) ((False, d) # ds) = (if c = 0 then [] else [word_of_int c]) @ teclas (kbd_shift k') ds"
proof -
  let ?sh = "kbd_shift k" and ?k = "k\<lparr>kbd_in := ds\<rparr>"
  consider "d = 0xE0" | "d \<noteq> 0xE0" "bit d 7" | "d \<noteq> 0xE0" "\<not> bit d 7" by blast
  then show thesis
  proof cases
    case 1
    show thesis
      by (rule that [of 0 "?k\<lparr>kbd_shift := ?sh OR E0ESC\<rparr>"])
        (simp_all add: assms 1 kbd_proc_data_def solo_anillo_def)
  next
    case 2
    let ?d = "if ?sh AND E0ESC \<noteq> 0 then d else d AND 0x7F"
    show thesis
      by (rule that [of 0 "?k\<lparr>kbd_shift := ?sh AND NOT (shiftcode ?d OR E0ESC)\<rparr>"])
        (use 2 in \<open>simp_all add: assms kbd_proc_data_def solo_anillo_def bit_7 Let_def\<close>)
  next
    case 3
    let ?d = "if ?sh AND E0ESC \<noteq> 0 then d OR 0x80 else d"
    let ?u = "?k\<lparr>kbd_shift := ?sh AND NOT E0ESC\<rparr>"
    have "kbd_proc_data k = tecla ?d ?u"
      using 3 sin_escape [of ?sh] by (simp add: assms kbd_proc_data_def bit_7 Let_def)
    moreover have "teclas ?sh ((False, d) # ds) = (if fst (tecla ?d ?u) = 0 then []
        else [word_of_int (fst (tecla ?d ?u))]) @ teclas (kbd_shift (snd (tecla ?d ?u))) ds"
      using 3 by (simp add: tecla_efecto(5,6) Let_def)
    ultimately show thesis
      using tecla_efecto(1-4) [where d = ?d and k = ?u] solo_anillo_trans(2) [where k = k and ds = ds]
      by (intro that [of "fst (tecla ?d ?u)" "snd (tecla ?d ?u)"]) simp_all
  qed
qed

lemma cons_intr_kbd:
  assumes "consola_ok k" and "length (kbd_in k) < n"
  shows "consola_ok (cons_intr n kbd_proc_data k) \<and>
    pendientes (cons_intr n kbd_proc_data k) = anillo (pendientes k @ teclas (kbd_shift k) (kbd_in k)) \<and>
    kbd_in (cons_intr n kbd_proc_data k) = dropWhile (\<lambda>x. \<not> fst x) (kbd_in k) \<and>
    serial_in (cons_intr n kbd_proc_data k) = serial_in k"
  using assms
proof (induction n arbitrary: k)
  case (Suc n)
  have corta: "length (pendientes k) < CONSBUFSIZE" by (simp add: pendientes_def CONSBUFSIZE_def)
  show ?case
  proof (cases "kbd_in k")
    case Nil
    then show ?thesis using Suc.prems corta by (simp add: kbd_proc_data_def anillo_corto)
  next
    case (Cons x ds)
    obtain terr d where x: "x = (terr, d)" by (cases x)
    show ?thesis
    proof (cases terr)
      case True
      then show ?thesis using Cons x Suc.prems corta by (simp add: kbd_proc_data_def anillo_corto)
    next
      case False
      then have in': "kbd_in k = (False, d) # ds" using Cons x by simp
      then obtain c k' where k': "kbd_proc_data k = (c, k')" "solo_anillo k k'"
        "serial_in k' = serial_in k" "kbd_in k' = ds" "0 \<le> c \<and> c < 256"
        "teclas (kbd_shift k) ((False, d) # ds) =
           (if c = 0 then [] else [word_of_int c]) @ teclas (kbd_shift k') ds"
        by (rule kbd_proc_data_paso)
      have n: "length (kbd_in k') < n" using Suc.prems(2) in' k'(4) by simp
      have ok: "consola_ok k'" using Suc.prems(1) solo_anillo_ok [OF k'(2)] by simp
      note pend = solo_anillo_pendientes [OF k'(2)]
      show ?thesis
      proof (cases "c = 0")
        case True
        then show ?thesis using Suc.IH [OF ok n] k' pend in' by (simp del: teclas.simps)
      next
        case False
        have "pendientes (guarda_car c k') = anillo (pendientes k @ [word_of_int c])"
          using pendientes_guarda [OF ok] pend by simp
        then show ?thesis
          using Suc.IH [OF guarda_car_ok [OF ok, of c]] n k' in' False
          by (simp add: anillo_append del: teclas.simps)
      qed
    qed
  qed
qed simp


section \<open>Reading\<close>

text \<open>Everything that has arrived when a character is asked for, oldest first.\<close>

definition llegados :: "consola \<Rightarrow> 8 word list" where
  "llegados k = pendientes k @ (if serial_exists k then filter (\<lambda>b. b \<noteq> 0) (serial_in k) else []) @
     teclas (kbd_shift k) (kbd_in k)"

lemma sondeo:
  assumes "consola_ok k"
  shows "consola_ok (kbd_intr (serial_intr k)) \<and>
    pendientes (kbd_intr (serial_intr k)) = anillo (llegados k) \<and>
    kbd_in (kbd_intr (serial_intr k)) = dropWhile (\<lambda>x. \<not> fst x) (kbd_in k) \<and>
    serial_in (kbd_intr (serial_intr k)) = (if serial_exists k then [] else serial_in k)"
proof -
  have "consola_ok (serial_intr k) \<and>
    pendientes (serial_intr k) = anillo (pendientes k @ (if serial_exists k then filter (\<lambda>b. b \<noteq> 0) (serial_in k) else [])) \<and>
    serial_in (serial_intr k) = (if serial_exists k then [] else serial_in k) \<and>
    kbd_in (serial_intr k) = kbd_in k \<and> kbd_shift (serial_intr k) = kbd_shift k"
    using cons_intr_serial [OF assms, of "Suc (length (serial_in k))"] assms
      anillo_corto [of "pendientes k"]
    by (simp add: serial_intr_def pendientes_def CONSBUFSIZE_def del: cons_intr.simps)
  then show ?thesis
    using cons_intr_kbd [of "serial_intr k" "Suc (length (kbd_in (serial_intr k)))"]
    by (simp add: kbd_intr_def llegados_def anillo_append del: cons_intr.simps)
qed

lemma mod_siguiente: "r < N \<Longrightarrow> (if r + 1 = N then 0 else r + 1) = (r + 1) mod (N :: nat)"
  by auto

text \<open>Taking the character at the read position.\<close>

lemma toma:
  fixes k :: consola
  defines "k' \<equiv> k\<lparr>cons_rpos := (cons_rpos k + 1) mod CONSBUFSIZE\<rparr>"
  assumes "consola_ok k" and "cons_rpos k \<noteq> cons_wpos k"
  shows "pendientes k = cons_buf k ! cons_rpos k # pendientes k'" and "consola_ok k'"
proof -
  let ?N = CONSBUFSIZE and ?r = "cons_rpos k" and ?w = "cons_wpos k"
  let ?n = "(?w + ?N - ?r) mod ?N"
  have ok: "?r < ?N" "?w < ?N" using assms(2) by (simp_all add: consola_ok_def)
  have pos: "0 < ?n" using hueco(1) [OF ok] ok(1) assms(3) by (cases "?n = 0") auto
  have n: "(?w + ?N - (?r + 1) mod ?N) mod ?N = ?n - 1"
  proof (cases "?r + 1 = ?N")
    case True
    have "?w + ?N - ?r = ?w + 1" "?w + 1 < ?N" using True ok assms(3) by linarith+
    then have "?n = ?w + 1" by simp
    then show ?thesis using True ok by simp
  next
    case False
    then have "(?w + ?N - (?r + 1) mod ?N) mod ?N = (?w + ?N - ?r - 1) mod ?N" using ok by simp
    also have "\<dots> = ?n - 1"
      using ok assms(3) by (cases "?r < ?w") (simp_all add: mod_if)
    finally show ?thesis .
  qed
  have "[0..<?n] = 0 # map Suc [0..<?n - 1]"
    using pos by (metis Suc_diff_1 map_Suc_upt upt_conv_Cons)
  then show "pendientes k = cons_buf k ! ?r # pendientes k'"
    using n ok by (simp add: pendientes_def k'_def mod_add_left_eq mod_add_right_eq comp_def)
  show "consola_ok k'" using assms(2) by (simp add: consola_ok_def k'_def CONSBUFSIZE_def)
qed

lemma vacio: "consola_ok k \<Longrightarrow> cons_rpos k = cons_wpos k \<Longrightarrow> pendientes k = []"
  by (simp add: pendientes_def)

text \<open>
  C28: The console is a queue. cons_getc first takes in everything the serial port and the keyboard have,
  in that order, zero bytes left out; then it returns the oldest character not yet returned, or 0 when
  there is none, and keeps the rest in order. The ring holds 511 characters: each time the
  number of characters waiting reaches 512 all of them are lost.
\<close>
theorem cons_cola:
  assumes "consola_ok k"
  shows "\<exists>k'. cons_getc k = ((case anillo (llegados k) of [] \<Rightarrow> 0 | c # cs \<Rightarrow> uint c), k') \<and>
    pendientes k' = tl (anillo (llegados k)) \<and> consola_ok k' \<and>
    kbd_in k' = dropWhile (\<lambda>x. \<not> fst x) (kbd_in k) \<and> (serial_exists k \<longrightarrow> serial_in k' = [])"
proof -
  let ?k = "kbd_intr (serial_intr k)"
  let ?k' = "?k\<lparr>cons_rpos := (cons_rpos ?k + 1) mod CONSBUFSIZE\<rparr>"
  note s = sondeo [OF assms]
  show ?thesis
  proof (cases "cons_rpos ?k = cons_wpos ?k")
    case True
    then show ?thesis using s vacio [of ?k] by (auto simp: cons_getc_def Let_def)
  next
    case False
    have "cons_rpos ?k < CONSBUFSIZE" using s by (simp add: consola_ok_def)
    then have "cons_getc k = (uint (cons_buf ?k ! cons_rpos ?k), ?k')"
      using False by (auto simp: cons_getc_def Let_def)
    moreover have "anillo (llegados k) = cons_buf ?k ! cons_rpos ?k # pendientes ?k'" "consola_ok ?k'"
      using toma [of ?k] s False by simp_all
    ultimately show ?thesis using s by auto
  qed
qed


definition cons_b :: consola where
  "cons_b = \<lparr>cons_buf = replicate 512 0, cons_rpos = 511, cons_wpos = 511, serial_exists = True,
     serial_in = [97, 0], kbd_in = [(False, 0x2A), (False, 0x30)], kbd_shift = 0, reinicia = False,
     crt_buf = (\<lambda>_. 0), crt_pos = 1999, cursor = 0, serial_out = [], lpt_out = []\<rparr>"

lemma cons_b_ok: "consola_ok cons_b"
  by (simp add: consola_ok_def cons_b_def CONSBUFSIZE_def CRT_SIZE_def CRT_COLS_def)

lemma teclas_b: "teclas 0 [(False, 0x2A), (False, 0x30)] = [66]"
  by code_simp

theorem cons_cola_witness:
  "\<exists>k'. cons_getc cons_b = (97, k') \<and> pendientes k' = [66]"
proof -
  have "pendientes cons_b = []" using vacio [OF cons_b_ok] by (simp add: cons_b_def)
  then have "llegados cons_b = [97, 66]"
    using teclas_b by (simp add: llegados_def cons_b_def del: teclas.simps)
  moreover from this have "anillo (llegados cons_b) = [97, 66]" by (simp add: anillo_corto CONSBUFSIZE_def)
  ultimately show ?thesis using cons_cola [OF cons_b_ok] by auto
qed


section \<open>Writing\<close>

text \<open>A position on the screen or just past it, and the buffer changed on the screen only.\<close>

definition en_pantalla :: "consola \<Rightarrow> consola \<Rightarrow> bool" where
  "en_pantalla k k' \<longleftrightarrow> (\<forall>i\<ge>unat CRT_SIZE. crt_buf k' i = crt_buf k i) \<and>
     cons_buf k' = cons_buf k \<and> cons_rpos k' = cons_rpos k \<and> cons_wpos k' = cons_wpos k \<and>
     serial_in k' = serial_in k \<and> kbd_in k' = kbd_in k"

lemma CRT_val: "CRT_SIZE = 2000" "CRT_COLS = 80"
  by (simp_all add: CRT_SIZE_def CRT_COLS_def)

lemma desplaza_ok:
  assumes "unat (crt_pos k) < 2080"
  shows "unat (crt_pos (desplaza k)) < 2000" "cursor (desplaza k) = crt_pos (desplaza k)"
    "en_pantalla k (desplaza k)" "serial_out (desplaza k) = serial_out k" "lpt_out (desplaza k) = lpt_out k"
  using assms
  by (auto simp: desplaza_def Let_def en_pantalla_def CRT_val word_le_nat_alt unat_sub)


lemma en_pantalla_trans: "en_pantalla k k' \<Longrightarrow> en_pantalla k' k'' \<Longrightarrow> en_pantalla k k''"
  by (simp add: en_pantalla_def)

lemma en_pantalla_refl [simp]: "en_pantalla k k"
  by (simp add: en_pantalla_def)

lemma en_pantalla_pendientes: "en_pantalla k k' \<Longrightarrow> pendientes k' = pendientes k"
  by (auto simp: en_pantalla_def intro: pendientes_cong)

lemma escribe_en_pantalla:
  "unat p < 2000 \<Longrightarrow> en_pantalla k (k\<lparr>crt_pos := q, crt_buf := (crt_buf k)(unat p := v)\<rparr>)"
  "unat p < 2000 \<Longrightarrow> en_pantalla k (k\<lparr>crt_buf := (crt_buf k)(unat p := v), crt_pos := q\<rparr>)"
  "en_pantalla k (k\<lparr>crt_pos := q\<rparr>)"
  by (auto simp: en_pantalla_def CRT_val)

definition bien_escrito :: "8 word list \<Rightarrow> consola \<Rightarrow> consola \<Rightarrow> bool" where
  "bien_escrito bs k k' \<longleftrightarrow> unat (crt_pos k') < 2000 \<and> cursor k' = crt_pos k' \<and> en_pantalla k k' \<and>
     serial_out k' = serial_out k @ bs \<and> lpt_out k' = lpt_out k @ bs"

lemma bien_escrito_trans:
  "bien_escrito bs k k' \<Longrightarrow> bien_escrito cs k' k'' \<Longrightarrow> bien_escrito (bs @ cs) k k''"
  using en_pantalla_trans by (auto simp: bien_escrito_def)

lemma desplaza_bien:
  "unat (crt_pos k') < 2080 \<Longrightarrow> en_pantalla k k' \<Longrightarrow> serial_out k' = serial_out k @ bs \<Longrightarrow>
   lpt_out k' = lpt_out k @ bs \<Longrightarrow> bien_escrito bs k (desplaza k')"
  using desplaza_ok [of k'] en_pantalla_trans by (auto simp: bien_escrito_def)

text \<open>A character other than the tab.\<close>

lemma cga_putc_bien:
  assumes "unat (crt_pos k) < 2000" and "c AND 0xff \<noteq> 9"
  shows "bien_escrito [] k (cga_putc c k)"
proof -
  let ?a = "if c AND NOT 0xFF = 0 then c OR 0x0700 else c"
  have a: "?a AND 0xff = c AND 0xff" by (rule atributo_bajo)
  have menos: "unat (crt_pos k - 1) < 2000" if "crt_pos k > 0"
    using assms(1) that unat_minus_one [of "crt_pos k"] by auto
  have mas: "unat (crt_pos k + 1) < 2080" "unat (crt_pos k + CRT_COLS) < 2080"
    using assms(1) by (simp_all add: CRT_val unat_word_ariths)
  have baja: "unat (p - p mod CRT_COLS) \<le> unat p" for p
  proof -
    have "p mod CRT_COLS \<le> p" by (simp add: word_le_nat_alt unat_mod)
    then show ?thesis by (simp add: unat_sub)
  qed
  note cortes = menos menos [THEN less_trans, of 2080, simplified] mas le_less_trans [OF baja mas(2)] le_less_trans [OF baja, of _ 2080]
  show ?thesis
    unfolding cga_putc.simps Let_def a using assms
    by (auto intro!: desplaza_bien cortes escribe_en_pantalla)
qed


lemma puertos: "bien_escrito bs (lpt_putc c (serial_putc c k)) k' \<Longrightarrow> bien_escrito (ucast c # bs) k k'"
  by (auto simp: bien_escrito_def lpt_putc_def serial_putc_def en_pantalla_def)

lemma puertos_pos: "crt_pos (lpt_putc c (serial_putc c k)) = crt_pos k"
  by (simp add: lpt_putc_def serial_putc_def)

lemma cons_putc_blanco:
  assumes "unat (crt_pos k) < 2000" and "c AND 0xff \<noteq> 9"
  shows "bien_escrito [ucast c] k (cons_putc c k)"
  using cga_putc_bien [of "lpt_putc c (serial_putc c k)" c] assms puertos
  by (simp add: cons_putc.simps puertos_pos)

lemma cinco: "replicate 5 x = [x, x, x, x, x]"
  by (simp add: numeral_eq_Suc)

lemma cga_putc_tab:
  assumes "unat (crt_pos k) < 2000" and "c AND 0xff = 9"
  shows "bien_escrito (replicate 5 0x20) k (cga_putc c k)"
proof -
  let ?p = "cons_putc 0x20"
  have pos: "bien_escrito bs k k' \<Longrightarrow> unat (crt_pos k') < 2000" for bs k'
    by (simp add: bien_escrito_def)
  have p: "bien_escrito (bs @ [0x20]) k (?p k')" if "bien_escrito bs k k'" for bs k'
    using bien_escrito_trans [OF that] cons_putc_blanco [OF pos [OF that], of "0x20"] by simp
  have "bien_escrito [0x20] k (?p k)" using cons_putc_blanco [OF assms(1), of "0x20"] by simp
  from p [OF p [OF p [OF p [OF this]]]]
  have c: "bien_escrito (replicate 5 0x20) k (?p (?p (?p (?p (?p k)))))"
    by (simp add: cinco)
  have "cga_putc c k = desplaza (?p (?p (?p (?p (?p k)))))"
    unfolding cga_putc.simps [of c k] Let_def atributo_bajo using assms(2) by simp
  then show ?thesis
    using desplaza_bien [of "?p (?p (?p (?p (?p k))))" k "replicate 5 0x20"] c
    by (simp add: bien_escrito_def)
qed

text \<open>
  C29: Writing a character never leaves the screen: the cursor stays on one of the 2000 positions, the
  screen buffer changes only there and the waiting input is untouched. The serial and parallel ports get
  the character; for a tab, which the screen shows as five blanks, they get the five blanks as well.
\<close>
theorem cons_putc_pantalla:
  assumes "consola_ok k"
  shows "consola_ok (cons_putc c k) \<and> cursor (cons_putc c k) = crt_pos (cons_putc c k) \<and>
    (\<forall>i\<ge>2000. crt_buf (cons_putc c k) i = crt_buf k i) \<and> pendientes (cons_putc c k) = pendientes k \<and>
    serial_out (cons_putc c k) =
      serial_out k @ ucast c # (if c AND 0xff = 9 then replicate 5 0x20 else []) \<and>
    lpt_out (cons_putc c k) =
      lpt_out k @ ucast c # (if c AND 0xff = 9 then replicate 5 0x20 else [])"
proof -
  let ?bs = "if c AND 0xff = 9 then replicate 5 0x20 else []"
  have pos: "unat (crt_pos k) < 2000" using assms by (simp add: consola_ok_def CRT_val word_less_nat_alt)
  then have "bien_escrito ?bs (lpt_putc c (serial_putc c k)) (cons_putc c k)"
    using cga_putc_tab [of "lpt_putc c (serial_putc c k)" c]
      cga_putc_bien [of "lpt_putc c (serial_putc c k)" c]
    by (simp add: puertos_pos cons_putc.simps)
  then have w: "bien_escrito (ucast c # ?bs) k (cons_putc c k)" by (rule puertos)
  then show ?thesis
    using assms en_pantalla_pendientes [of k "cons_putc c k"]
    by (simp add: bien_escrito_def consola_ok_def en_pantalla_def CRT_val word_less_nat_alt)
qed

theorem cons_putc_pantalla_witness:
  "crt_pos (cons_putc 0x61 cons_b) < CRT_SIZE \<and> serial_out (cons_putc 0x61 cons_b) = [97] \<and>
   serial_out (cons_putc 9 cons_b) = [9, 32, 32, 32, 32, 32]"
  using cons_putc_pantalla [OF cons_b_ok, of "0x61"] cons_putc_pantalla [OF cons_b_ok, of 9]
  by (simp add: consola_ok_def cons_b_def cinco)

end
