(* ===== verification/Kern_Debug.thy ===== *)
theory Kern_Debug
  imports Kern_Mmu Jos_String
begin

text \<open>
  Debugging information (\<open>sched/kern/kdebug.c\<close>): the binary search of the symbol table and the lookup of
  an instruction address. The table is a list, its indices are integers (they reach -1), and the
  strings are one list of bytes. Which table serves an address, the linker's for the kernel or one
  read from user memory, is an argument.
\<close>

section \<open>The symbol table (inc/stab.h)\<close>

record stab =
  n_strx :: "32 word"
  n_type :: "8 word"
  n_other :: "8 word"
  n_desc :: "16 word"
  n_value :: "32 word"

definition N_FUN :: "8 word" where "N_FUN = 0x24"
definition N_SLINE :: "8 word" where "N_SLINE = 0x44"
definition N_SO :: "8 word" where "N_SO = 0x64"
definition N_SOL :: "8 word" where "N_SOL = 0x84"
definition N_PSYM :: "8 word" where "N_PSYM = 0xa0"


section \<open>Binary search\<close>

text \<open>\<open>while (m >= l && stabs[m].n_type != type) m--\<close>.\<close>

function baja :: "stab list \<Rightarrow> 8 word \<Rightarrow> int \<Rightarrow> int \<Rightarrow> int" where
  "baja stabs type l m = (if m \<ge> l \<and> n_type (stabs ! nat m) \<noteq> type then baja stabs type l (m - 1) else m)"
  by pat_completeness auto
termination by (relation "measure (\<lambda>(stabs, type, l, m). nat (m - l + 1))") auto

declare baja.simps [simp del]

lemma baja_le: "baja stabs type l m \<le> m"
proof (induction stabs type l m rule: baja.induct)
  case (1 stabs type l m)
  then show ?case by (subst baja.simps) (force intro: order_trans)
qed

lemma mitad: "l \<le> r \<Longrightarrow> l \<le> (l + r) div 2 \<and> (l + r) div 2 \<le> (r :: int)"
  by linarith

lemma medida_nat: "(a :: nat) < b \<Longrightarrow> 2 * a + (if P then 1 else 0) < 2 * b + (if Q then 1 else 0)"
  by simp

lemma medida_menor:
  "a < b \<Longrightarrow> 0 < b \<Longrightarrow> 2 * nat a + (if P then 1 else 0) < 2 * nat b + (if Q then 1 else 0)"
  by (rule medida_nat) simp

text \<open>
  The main loop, from the state of its variables: \<open>l\<close>, \<open>r\<close>, \<open>addr\<close>, \<open>*region_left\<close>, \<open>*region_right\<close> and
  \<open>any_matches\<close>. An exact match may leave \<open>l\<close> and \<open>r\<close> as they are; the next turn then looks at the same
  entry with a larger \<open>addr\<close>, which is what makes it end.
\<close>

function busca_stab :: "stab list \<Rightarrow> 8 word \<Rightarrow> int \<Rightarrow> int \<Rightarrow> 32 word \<Rightarrow> int \<Rightarrow> int \<Rightarrow> bool \<Rightarrow> int \<times> int \<times> bool" where
  "busca_stab stabs type l r addr lft rgt any =
     (if l \<le> r then
        let true_m = (l + r) div 2; m = baja stabs type l true_m
        in if m < l then busca_stab stabs type (true_m + 1) r addr lft rgt any
           else if n_value (stabs ! nat m) < addr
           then busca_stab stabs type (true_m + 1) r addr m rgt True
           else if n_value (stabs ! nat m) > addr
           then busca_stab stabs type l (m - 1) addr lft (m - 1) True
           else busca_stab stabs type m r (addr + 1) m rgt True
      else (lft, rgt, any))"
  by pat_completeness auto
termination
proof (relation "measure (\<lambda>(stabs, type, l, r, addr, lft, rgt, any).
     2 * nat (r - l + 1) + (if n_value (stabs ! nat (baja stabs type l ((l + r) div 2))) = addr then 1 else 0))",
   goal_cases)
  case (2 stabs type l r addr lft rgt any tm m)
  then show ?case using mitad [of l r] by (auto intro!: medida_menor)
next
  case (3 stabs type l r addr lft rgt any tm m)
  then show ?case using mitad [of l r] by (auto intro!: medida_menor)
next
  case (4 stabs type l r addr lft rgt any tm m)
  have "m \<le> tm" unfolding 4(3) by (rule baja_le)
  moreover have "tm \<le> r" "l \<le> r" using 4(1,2) mitad [of l r] by simp_all
  ultimately have "m - 1 - l + 1 < r - l + 1" "0 < r - l + 1" by linarith+
  then show ?case unfolding in_measure split_conv by (rule medida_menor)
next
  case (5 stabs type l r addr lft rgt any tm m)
  have v: "n_value (stabs ! nat m) = addr" using 5 by auto
  have no: "addr \<noteq> addr + 1" by simp
  show ?case
  proof (cases "m = l")
    case True
    have "baja stabs type l ((l + r) div 2) = m" by (simp only: 5(2,3))
    also have "m = l" by (rule True)
    finally have b: "baja stabs type l ((l + r) div 2) = l" .
    have w: "n_value (stabs ! nat l) = addr" by (rule v [unfolded True])
    show ?thesis unfolding in_measure split_conv True b w using no by simp
  next
    case False
    have "l \<le> m" "l \<le> r" using 5(1,4) by simp_all
    with False have "r - m + 1 < r - l + 1" "0 < r - l + 1" by linarith+
    then show ?thesis unfolding in_measure split_conv by (rule medida_menor)
  qed
qed simp

declare busca_stab.simps [simp del]

definition stab_binsearch ::
  "stab list \<Rightarrow> int \<Rightarrow> int \<Rightarrow> 8 word \<Rightarrow> 32 word \<Rightarrow> int \<times> int" where
  "stab_binsearch stabs region_left region_right type addr =
     (let (lft, rgt, any) = busca_stab stabs type region_left region_right addr region_left region_right False
      in if \<not> any then (lft, lft - 1) else (baja stabs type (lft + 1) rgt, rgt))"


section \<open>Lookup of an instruction address\<close>

record eipdebuginfo =
  eip_file :: string
  eip_line :: int
  eip_fn_name :: string
  eip_fn_namelen :: nat
  eip_fn_addr :: "32 word"
  eip_fn_narg :: nat

definition desconocido :: string where "desconocido = ''<unknown>'' @ [NUL]"

definition info_inicial :: "32 word \<Rightarrow> eipdebuginfo" where
  "info_inicial addr = \<lparr>eip_file = desconocido, eip_line = 0, eip_fn_name = desconocido,
     eip_fn_namelen = 9, eip_fn_addr = addr, eip_fn_narg = 0\<rparr>"

text \<open>A pointer into the string table is what follows it.\<close>

definition cadena_stab :: "string \<Rightarrow> stab \<Rightarrow> string \<Rightarrow> string" where
  "cadena_stab stabstr x def =
     (if unat (n_strx x) < length stabstr then drop (unat (n_strx x)) stabstr else def)"

text \<open>Backwards to the stab that names the file.\<close>

function busca_archivo :: "stab list \<Rightarrow> int \<Rightarrow> int \<Rightarrow> int" where
  "busca_archivo stabs lfile lline =
     (if lline \<ge> lfile \<and> n_type (stabs ! nat lline) \<noteq> N_SOL \<and>
         (n_type (stabs ! nat lline) \<noteq> N_SO \<or> n_value (stabs ! nat lline) = 0)
      then busca_archivo stabs lfile (lline - 1) else lline)"
  by pat_completeness auto
termination by (relation "measure (\<lambda>(stabs, lfile, lline). nat (lline - lfile + 1))") auto

declare busca_archivo.simps [simp del]

text \<open>
  \<open>tablas\<close> is the symbol table and the string table for the address, or \<open>None\<close> when \<open>user_mem_check\<close>
  rejects the memory that holds those of a program. A string table ends in a null, so \<open>strfind\<close> stops.
\<close>

definition debuginfo_eip :: "(stab list \<times> string) option \<Rightarrow> 32 word \<Rightarrow> int \<times> eipdebuginfo" where
  "debuginfo_eip tablas addr =
     (let info = info_inicial addr
      in case tablas of
           None \<Rightarrow> (-1, info)
         | Some (stabs, stabstr) \<Rightarrow>
             if stabstr = [] \<or> last stabstr \<noteq> NUL then (-1, info)
             else
               let (lfile, rfile) = stab_binsearch stabs 0 (int (length stabs) - 1) N_SO addr
               in if lfile = 0 then (-1, info)
                  else
                    let (lfun, rfun) = stab_binsearch stabs lfile rfile N_FUN addr;
                        f = stabs ! nat lfun;
                        (info, addr, lline, rline) =
                          (if lfun \<le> rfun
                           then (info\<lparr>eip_fn_name := cadena_stab stabstr f (eip_fn_name info),
                                      eip_fn_addr := n_value f\<rparr>, addr - n_value f, lfun, rfun)
                           else (info\<lparr>eip_fn_addr := addr\<rparr>, addr, lfile, rfile));
                        info = info\<lparr>eip_fn_namelen :=
                          (case strfind (eip_fn_name info) (CHR '':'') of Some n \<Rightarrow> n | None \<Rightarrow> 0)\<rparr>;
                        (lline, rline) = stab_binsearch stabs lline rline N_SLINE addr;
                        info = (if lline \<le> rline
                                then info\<lparr>eip_line := uint (n_desc (stabs ! nat lline))\<rparr> else info);
                        lline = busca_archivo stabs lfile lline;
                        info = (if lline \<ge> lfile
                                then info\<lparr>eip_file := cadena_stab stabstr (stabs ! nat lline) (eip_file info)\<rparr>
                                else info)
                    in (0, if lfun < rfun
                           then info\<lparr>eip_fn_narg := length (takeWhile
                                  (\<lambda>i. n_type (stabs ! nat i) = N_PSYM) [lfun + 1..rfun - 1])\<rparr>
                           else info))"

end
