(* ===== verification/Kern_Debug_Contrato.thy ===== *)
theory Kern_Debug_Contrato
  imports Kern_Debug
begin

text \<open>
  What \<open>stab_binsearch\<close> finds. The entries of the type in the range, sorted by address, are compared
  with the address one by one by the specification and by halving by the code.
\<close>

section \<open>Specification\<close>

text \<open>The entries of a type in a range, and those of them up to an address.\<close>

definition stabs_de :: "stab list \<Rightarrow> 8 word \<Rightarrow> int \<Rightarrow> int \<Rightarrow> int set" where
  "stabs_de st ty lo hi = {i \<in> {lo..hi}. n_type (st ! nat i) = ty}"

definition hasta :: "stab list \<Rightarrow> int set \<Rightarrow> 32 word \<Rightarrow> int set" where
  "hasta st T a = {i \<in> T. n_value (st ! nat i) \<le> a}"

definition en_orden :: "stab list \<Rightarrow> int set \<Rightarrow> bool" where
  "en_orden st T \<longleftrightarrow> (\<forall>i\<in>T. \<forall>j\<in>T. i < j \<longrightarrow> n_value (st ! nat i) < n_value (st ! nat j))"

lemma finite_stabs [simp]: "finite (stabs_de st ty lo hi)"
  by (rule finite_subset [of _ "{lo..hi}"]) (auto simp: stabs_de_def)

lemma finite_hasta: "finite T \<Longrightarrow> finite (hasta st T a)"
  by (simp add: hasta_def)


section \<open>The descent to an entry of the type\<close>

lemma baja_spec:
  "baja st ty l m \<le> m \<and>
   (if baja st ty l m < l then \<forall>i\<in>{l..m}. n_type (st ! nat i) \<noteq> ty
    else n_type (st ! nat (baja st ty l m)) = ty \<and> (\<forall>i\<in>{baja st ty l m<..m}. n_type (st ! nat i) \<noteq> ty)) \<and>
   (l \<le> m + 1 \<longrightarrow> l - 1 \<le> baja st ty l m) \<and> (m < l \<longrightarrow> baja st ty l m = m)"
proof (induction st ty l m rule: baja.induct)
  case (1 st ty l m)
  show ?case
  proof (cases "m \<ge> l \<and> n_type (st ! nat m) \<noteq> ty")
    case True
    have e: "baja st ty l m = baja st ty l (m - 1)" using True by (subst baja.simps) simp
    have m: "i \<le> m \<longleftrightarrow> i = m \<or> i \<le> m - 1" for i by linarith
    show ?thesis
      unfolding e using 1 [OF True] True by (auto simp: m split: if_splits)
  next
    case False
    have e: "baja st ty l m = m" using False by (subst baja.simps) (rule if_not_P)
    show ?thesis unfolding e using False by auto
  qed
qed

lemma baja_lt:
  assumes "baja st ty l m < l" and "l \<le> m + 1"
  shows "baja st ty l m = l - 1" and "i \<in> stabs_de st ty lo hi \<Longrightarrow> i \<le> m \<Longrightarrow> i < l"
proof -
  show "baja st ty l m = l - 1" using baja_spec [of st ty l m] assms by auto
  show "i \<in> stabs_de st ty lo hi \<Longrightarrow> i \<le> m \<Longrightarrow> i < l"
    using baja_spec [of st ty l m] assms(1) by (force simp: stabs_de_def)
qed

lemma baja_ge:
  assumes "\<not> baja st ty l m < l"
  shows "l \<le> baja st ty l m" and "baja st ty l m \<le> m" and "n_type (st ! nat (baja st ty l m)) = ty"
    and "i \<in> stabs_de st ty lo hi \<Longrightarrow> i \<le> m \<Longrightarrow> i \<le> baja st ty l m"
proof -
  note S = baja_spec [of st ty l m]
  show "l \<le> baja st ty l m" using assms by simp
  show "baja st ty l m \<le> m" "n_type (st ! nat (baja st ty l m)) = ty" using S assms by auto
  show "i \<in> stabs_de st ty lo hi \<Longrightarrow> i \<le> m \<Longrightarrow> i \<le> baja st ty l m"
    using S assms by (force simp: stabs_de_def)
qed


section \<open>The loop\<close>

text \<open>What holds of the variables before each turn, \<open>a0\<close> being the address asked for.\<close>

definition inv_busca :: "stab list \<Rightarrow> int set \<Rightarrow> int \<Rightarrow> int \<Rightarrow> 32 word \<Rightarrow>
    int \<Rightarrow> int \<Rightarrow> 32 word \<Rightarrow> int \<Rightarrow> int \<Rightarrow> bool \<Rightarrow> bool" where
  "inv_busca st T lo hi a0 l r a lft rgt any \<longleftrightarrow>
     lo \<le> l \<and> lo - 1 \<le> r \<and> r \<le> hi \<and> rgt = r \<and>
     (a = a0 \<or> a = a0 + 1 \<and> (\<exists>i\<in>T. n_value (st ! nat i) = a0)) \<and>
     (\<forall>i\<in>T. i < l \<longrightarrow> n_value (st ! nat i) < a \<and> i \<le> lft) \<and>
     (\<forall>i\<in>T. r < i \<longrightarrow> a0 < n_value (st ! nat i)) \<and>
     (r = hi \<or> r + 1 \<in> T) \<and> (lft = lo \<or> lft \<in> T \<and> n_value (st ! nat lft) \<le> a0) \<and>
     (if any then T \<noteq> {} else r = hi \<and> (\<forall>i\<in>T. l \<le> i))"

lemma word_suc:
  fixes a :: "32 word"
  assumes "a \<noteq> -1"
  shows "a < a + 1" and "v < a + 1 \<Longrightarrow> v \<le> a"
proof -
  have "1 + a \<noteq> 0" using assms by (simp add: add_eq_0_iff)
  then have "unat (a + 1) = Suc (unat a)" by (metis add.commute unatSuc)
  then show "a < a + 1" "v < a + 1 \<Longrightarrow> v \<le> a" by (simp_all add: word_less_nat_alt word_le_nat_alt)
qed

lemma inv_busca_paso:
  assumes "inv_busca st T lo hi a0 l r a lft rgt any"
    and "T = stabs_de st ty lo hi" and "en_orden st T" and "a0 \<noteq> -1"
    and "\<forall>i\<in>T. \<forall>j\<in>T. n_value (st ! nat i) = a0 \<longrightarrow> n_value (st ! nat j) \<noteq> a0 + 1"
  shows "\<exists>l' r' a' lft' any'. busca_stab st ty l r a lft rgt any = (lft', r', any') \<and> r' < l' \<and>
      inv_busca st T lo hi a0 l' r' a' lft' r' any'"
  using assms
proof (induction st ty l r a lft rgt any rule: busca_stab.induct)
  case (1 st ty l r a lft rgt any)
  note I = 1(5) [unfolded inv_busca_def] and T = 1(6) and ord = 1(7) and a0 = 1(8) and no = 1(9)
  show ?case
  proof (cases "l \<le> r")
    case False
    have r: "rgt = r" using I by simp
    have "busca_stab st ty l r a lft rgt any = (lft, r, any)"
      using False r by (subst busca_stab.simps) simp
    then show ?thesis using 1(5) False unfolding r by (metis not_le)
  next
    case True
    define tm where "tm = (l + r) div 2"
    define m where "m = baja st ty l tm"
    have tm: "l \<le> tm" "tm \<le> r" using mitad [OF True] by (simp_all add: tm_def)
    have sube: "a0 \<le> a" "a0 < a0 + 1" using I word_suc(1) [OF a0] by auto
    note paso = busca_stab.simps [of st ty l r a lft rgt any, folded tm_def, unfolded Let_def, folded m_def]
    show ?thesis
    proof (cases "m < l")
      case m: True
      have "l \<le> tm + 1" using tm by simp
      then have menor: "i < l" if "i \<in> T" "i < tm + 1" for i
        using baja_lt(2) [OF m [unfolded m_def], of i lo hi] that by (simp add: T)
      have despues: "tm + 1 \<le> i" if "i \<in> T" "l \<le> i" for i
        using menor [OF that(1)] that(2) by linarith
      have "inv_busca st T lo hi a0 (tm + 1) r a lft rgt any"
        using I tm menor despues unfolding inv_busca_def by auto
      then show ?thesis using 1(1) [OF True tm_def m_def m _ T ord a0 no] paso True m by simp
    next
      case m: False
      note B = baja_ge [OF m [unfolded m_def], folded m_def]
      have mT: "m \<in> T" using B(1-3) tm I by (simp add: T stabs_de_def)
      have antes: "i \<le> m" if "i \<in> T" "i < tm + 1" for i using B(4) [of i lo hi] that by (simp add: T)
      have crece: "i \<in> T \<Longrightarrow> i < m \<Longrightarrow> n_value (st ! nat i) < n_value (st ! nat m)"
        "i \<in> T \<Longrightarrow> m < i \<Longrightarrow> n_value (st ! nat m) < n_value (st ! nat i)" for i
        using ord mT by (auto simp: en_orden_def)
      consider "n_value (st ! nat m) < a" | "a < n_value (st ! nat m)" | "n_value (st ! nat m) = a"
        by (rule linorder_cases)
      then show ?thesis
      proof cases
        case v: 1
        have le: "n_value (st ! nat m) \<le> a0" using v I word_suc(2) [OF a0] by auto
        have "n_value (st ! nat i) < a \<and> i \<le> m" if "i \<in> T" "i < tm + 1" for i
          using antes [OF that] crece(1) [OF that(1)] v by (cases "i = m") auto
        then have "inv_busca st T lo hi a0 (tm + 1) r a m rgt True"
          using I tm mT le by (auto simp: inv_busca_def)
        then show ?thesis using 1(2) [OF True tm_def m_def m v _ T ord a0 no] paso True m v by simp
      next
        case v: 2
        have "a0 < n_value (st ! nat i)" if "i \<in> T" "m - 1 < i" for i
          using crece(2) [OF that(1)] that(2) v sube by (cases "i = m") auto
        then have "inv_busca st T lo hi a0 l (m - 1) a lft (m - 1) True"
          using I B(1,2) tm mT by (auto simp: inv_busca_def)
        then show ?thesis
          using 1(3) [OF True tm_def m_def m _ v _ T ord a0 no] paso True m v less_not_sym [OF v] by simp
      next
        case v: 3
        have a: "a = a0" using I no mT v by auto
        have "n_value (st ! nat i) < a0 + 1 \<and> i \<le> m" if "i \<in> T" "i < m" for i
          using crece(1) [OF that] that(2) v a sube by auto
        then have "inv_busca st T lo hi a0 m r (a + 1) m rgt True"
          using I B(1) mT v a by (auto simp: inv_busca_def)
        then show ?thesis
          using 1(4) [OF True tm_def m_def m _ _ _ T ord a0 no] paso True m v by simp
      qed
    qed
  qed
qed



section \<open>The result\<close>

lemma Max_igual: "finite C \<Longrightarrow> m \<in> C \<Longrightarrow> \<forall>i\<in>C. i \<le> m \<Longrightarrow> Max C = (m :: int)"
  by (auto intro!: Max_eqI)

lemma Min_igual: "finite C \<Longrightarrow> m \<in> C \<Longrightarrow> \<forall>i\<in>C. m \<le> i \<Longrightarrow> Min C = (m :: int)"
  by (auto intro!: Min_eqI)


definition stabs_ej :: "stab list" where
  "stabs_ej = map (\<lambda>(ty, v). \<lparr>n_strx = 1, n_type = ty, n_other = 0, n_desc = 0, n_value = v\<rparr>)
     [(N_SO, 10), (N_FUN, 10), (N_SLINE, 0), (N_SLINE, 2), (N_FUN, 20), (N_SLINE, 0), (N_SO, 30)]"

lemma stabs_ej_fun: "stabs_de stabs_ej N_FUN 0 5 = {1, 4}"
proof -
  have "{0..5} = {0, 1, 2, 3, 4, 5 :: int}" by auto
  then show ?thesis
    by (auto simp: stabs_de_def stabs_ej_def N_FUN_def N_SO_def N_SLINE_def)
qed


text \<open>
  An entry at the address and another right after it: the search goes on with the address plus one and
  ends at the second.
\<close>

lemma stab_binsearch_seguidos:
  assumes "n_type x = ty" and "n_type y = ty" and "n_value x = 10" and "n_value y = 11"
  shows "stab_binsearch [x, y] 0 1 ty 10 = (1, 1)"
  using assms by (simp add: stab_binsearch_def busca_stab.simps baja.simps)

end
