(* ===== verification/Kern_Trap.thy ===== *)
theory Kern_Trap
  imports Kern_Syscall
begin

text \<open>
  Entry to the kernel (\<open>sched/kern/trap.c\<close>): the interrupt table, the dispatch of a trap and the delivery
  of page faults to a program's own handler. \<open>trap\<close> is what the kernel does from the moment the
  assembler entry hands it a frame until it leaves again, so its result is a \<^typ>\<open>fin_kern\<close>. The kernel
  lock is taken in a state in which it is free, and no other processor has panicked.
\<close>

section \<open>Numbers (inc/trap.h, inc/mmu.h)\<close>

definition T_BRKPT :: "32 word" where "T_BRKPT = 3"
definition T_PGFLT :: "32 word" where "T_PGFLT = 14"
definition T_SYSCALL :: "32 word" where "T_SYSCALL = 48"
definition IRQ_OFFSET :: "32 word" where "IRQ_OFFSET = 32"
definition IRQ_TIMER :: "32 word" where "IRQ_TIMER = 0"
definition IRQ_SPURIOUS :: "32 word" where "IRQ_SPURIOUS = 7"
definition GD_KT :: "16 word" where "GD_KT = 0x08"

definition excnames :: "string list" where
  "excnames = [''Divide error'', ''Debug'', ''Non-Maskable Interrupt'', ''Breakpoint'', ''Overflow'',
     ''BOUND Range Exceeded'', ''Invalid Opcode'', ''Device Not Available'', ''Double Fault'',
     ''Coprocessor Segment Overrun'', ''Invalid TSS'', ''Segment Not Present'', ''Stack Fault'',
     ''General Protection'', ''Page Fault'', ''(unknown trap)'', ''x87 FPU Floating-Point Error'',
     ''Alignment Check'', ''Machine-Check'', ''SIMD Floating-Point Exception'']"

definition trapname :: "32 word \<Rightarrow> string" where
  "trapname trapno =
     (if unat trapno < length excnames then excnames ! unat trapno
      else if trapno = T_SYSCALL then ''System call''
      else if trapno \<ge> IRQ_OFFSET \<and> trapno < IRQ_OFFSET + 16 then ''Hardware Interrupt''
      else ''(unknown trap)'')"


section \<open>The interrupt table\<close>

record gatedesc =
  gd_off_15_0 :: "16 word"
  gd_sel :: "16 word"
  gd_args :: "5 word"
  gd_rsv1 :: "3 word"
  gd_type :: "4 word"
  gd_s :: "1 word"
  gd_dpl :: "2 word"
  gd_p :: "1 word"
  gd_off_31_16 :: "16 word"

definition STS_IG32 :: "4 word" where "STS_IG32 = 0xE"
definition STS_TG32 :: "4 word" where "STS_TG32 = 0xF"

definition SETGATE :: "bool \<Rightarrow> 16 word \<Rightarrow> 32 word \<Rightarrow> 2 word \<Rightarrow> gatedesc" where
  "SETGATE istrap sel off dpl =
     \<lparr>gd_off_15_0 = ucast (off AND 0xffff), gd_sel = sel, gd_args = 0, gd_rsv1 = 0,
      gd_type = (if istrap then STS_TG32 else STS_IG32), gd_s = 0, gd_dpl = dpl, gd_p = 1,
      gd_off_31_16 = ucast (drop_bit 16 off)\<rparr>"

text \<open>\<open>manejador n\<close> is the address of the assembler entry \<open>trapn\<close>.\<close>

definition trap_init :: "(nat \<Rightarrow> 32 word) \<Rightarrow> (nat \<Rightarrow> gatedesc option) \<Rightarrow> nat \<Rightarrow> gatedesc option" where
  "trap_init manejador idt =
     fold (\<lambda>(n, dpl) idt. idt(n \<mapsto> SETGATE False GD_KT (manejador n) dpl))
       [(0, 0), (1, 0), (2, 0), (3, 3), (4, 0), (5, 0), (6, 0), (7, 0), (8, 0), (10, 0), (11, 0),
        (12, 0), (13, 0), (14, 0), (16, 0), (17, 0), (18, 0), (19, 0), (48, 3), (32, 0)] idt"


text \<open>
  The task state of a processor: the fields the kernel sets. \<open>trap_init_percpu\<close> takes the number of the
  processor and the address of its task state; it gives the new task state, the descriptor table with the
  slot of the processor filled, and the selector it loads with \<open>ltr\<close>.
\<close>

record segdesc =
  sd_lim_15_0 :: "16 word"
  sd_base_15_0 :: "16 word"
  sd_base_23_16 :: "8 word"
  sd_type :: "4 word"
  sd_s :: "1 word"
  sd_dpl :: "2 word"
  sd_p :: "1 word"
  sd_lim_19_16 :: "4 word"
  sd_avl :: "1 word"
  sd_rsv1 :: "1 word"
  sd_db :: "1 word"
  sd_g :: "1 word"
  sd_base_31_24 :: "8 word"

definition SEG16 :: "4 word \<Rightarrow> 32 word \<Rightarrow> 32 word \<Rightarrow> 2 word \<Rightarrow> segdesc" where
  "SEG16 type base lim dpl =
     \<lparr>sd_lim_15_0 = ucast (lim AND 0xffff), sd_base_15_0 = ucast (base AND 0xffff),
      sd_base_23_16 = ucast (drop_bit 16 base AND 0xff), sd_type = type, sd_s = 1, sd_dpl = dpl, sd_p = 1,
      sd_lim_19_16 = ucast (drop_bit 16 lim), sd_avl = 0, sd_rsv1 = 0, sd_db = 1, sd_g = 0,
      sd_base_31_24 = ucast (drop_bit 24 base)\<rparr>"

definition STS_T32A :: "4 word" where "STS_T32A = 0x9"
definition GD_KD :: "16 word" where "GD_KD = 0x10"
definition GD_TSS0 :: "16 word" where "GD_TSS0 = 0x28"
definition KSTKSIZE :: "32 word" where "KSTKSIZE = 8 * PGSIZE"
definition KSTKGAP :: "32 word" where "KSTKGAP = 8 * PGSIZE"

record taskstate =
  ts_esp0 :: "32 word"
  ts_ss0 :: "16 word"
  ts_iomb :: "16 word"

definition trap_init_percpu ::
  "8 word \<Rightarrow> 32 word \<Rightarrow> taskstate \<Rightarrow> (nat \<Rightarrow> segdesc) \<Rightarrow> taskstate \<times> (nat \<Rightarrow> segdesc) \<times> 16 word" where
  "trap_init_percpu thisid dir_ts thists gdt =
     (let thists = thists\<lparr>ts_esp0 := KSTACKTOP - ucast thisid * (KSTKGAP + KSTKSIZE),
                          ts_ss0 := GD_KD, ts_iomb := 104\<rparr>;
          slot = unat (drop_bit 3 GD_TSS0) + unat thisid;
          gdt = gdt(slot := SEG16 STS_T32A dir_ts (104 - 1) 0);
          gdt = gdt(slot := (gdt slot)\<lparr>sd_s := 0\<rparr>)
      in (thists, gdt, GD_TSS0 + push_bit 3 (ucast thisid)))"


section \<open>User memory as bytes\<close>

text \<open>
  Where the processor finds a byte of the address space in \<open>cr3\<close> when the kernel writes to it:
  both entries present, and the page writable, for \<open>mem_init\<close> sets \<open>CR0_WP\<close>. A frame is 1024 words.
\<close>

definition traduce :: "kst \<Rightarrow> 32 word \<Rightarrow> (nat \<times> nat) option" where
  "traduce s va =
     (let pde = mem s (cr3 s) (PDX va); pte = mem s (PGNUM pde) (PTX va)
      in if pde AND (PTE_P OR PTE_W) = PTE_P OR PTE_W \<and> pte AND (PTE_P OR PTE_W) = PTE_P OR PTE_W
         then Some (PGNUM pte, unat (va AND 0xFFF)) else None)"

definition byte_de :: "nat \<Rightarrow> 32 word \<Rightarrow> 8 word" where
  "byte_de i w = ucast (drop_bit (8 * i) w)"

definition pon_byte :: "nat \<Rightarrow> 8 word \<Rightarrow> 32 word \<Rightarrow> 32 word" where
  "pon_byte i b w = (w AND NOT (push_bit (8 * i) 0xFF)) OR push_bit (8 * i) (ucast b)"

text \<open>A byte the kernel cannot write is a page fault in kernel mode.\<close>

definition escribe_byte :: "32 word \<Rightarrow> 8 word \<Rightarrow> unit kern" where
  "escribe_byte va b s =
     (case traduce s va of
        None \<Rightarrow> Inl (Panico ''page fault in kernel mode'')
      | Some (f, off) \<Rightarrow> Inr ((), poke (f, off div 4) (pon_byte (off mod 4) b (mem s f (off div 4))) s))"

fun escribe_bytes :: "32 word \<Rightarrow> 8 word list \<Rightarrow> unit kern" where
  "escribe_bytes va [] s = Inr ((), s)"
| "escribe_bytes va (b # bs) s = and_then (escribe_byte va b s) (\<lambda>(_, s). escribe_bytes (va + 1) bs s)"

definition bytes_de :: "32 word list \<Rightarrow> 8 word list" where
  "bytes_de ws = concat (map (\<lambda>w. map (\<lambda>i. byte_de i w) [0..<4]) ws)"


section \<open>Page faults\<close>

record utrapframe =
  utf_fault_va :: "32 word"
  utf_err :: "32 word"
  utf_regs :: push_regs
  utf_eip :: "32 word"
  utf_eflags :: "32 word"
  utf_esp :: "32 word"

text \<open>The structure as it lies in memory.\<close>

definition palabras_regs :: "push_regs \<Rightarrow> 32 word list" where
  "palabras_regs r = [reg_edi r, reg_esi r, reg_ebp r, reg_oesp r, reg_ebx r, reg_edx r, reg_ecx r, reg_eax r]"

definition palabras_utf :: "utrapframe \<Rightarrow> 32 word list" where
  "palabras_utf u = [utf_fault_va u, utf_err u] @ palabras_regs (utf_regs u) @
     [utf_eip u, utf_eflags u, utf_esp u]"

definition utf_de :: "32 word \<Rightarrow> trapframe \<Rightarrow> utrapframe" where
  "utf_de fault_va tf = \<lparr>utf_fault_va = fault_va, utf_err = tf_err tf, utf_regs = tf_regs tf,
     utf_eip = tf_eip tf, utf_eflags = tf_eflags tf, utf_esp = tf_esp tf\<rparr>"

text \<open>
  \<open>fault_va\<close> is what \<open>%cr2\<close> holds, \<open>tf\<close> the frame. In user mode \<open>tf\<close> is the frame saved in \<open>curenv\<close>.
\<close>

definition page_fault_handler :: "32 word \<Rightarrow> trapframe \<Rightarrow> unit kern" where
  "page_fault_handler fault_va tf s =
     (if tf_cs tf AND 0x3 = 0 then Inl (Panico ''page fault in kernel mode'')
      else con_env (curenv s) (\<lambda>c s.
        if env_pgfault_upcall (envs s ! c) \<noteq> 0 then
          let exstk = UXSTACKTOP - PGSIZE; exstk_top = UXSTACKTOP - 1
          in and_then (user_mem_assert c exstk PGSIZE (PTE_U OR PTE_W) s) (\<lambda>(_, s).
             let utf = utf_de fault_va tf; tmp = utf_esp utf
             in and_then
                  (if utf_esp utf < exstk \<or> utf_esp utf > exstk_top then Inr (exstk_top - 52, s)
                   else let tmp = tmp - 4
                        in and_then (escribe_bytes tmp (bytes_de [0]) s) (\<lambda>(_, s). Inr (tmp - 52, s)))
                  (\<lambda>(tmp, s).
                and_then (escribe_bytes tmp (bytes_de (palabras_utf utf)) s) (\<lambda>(_, s).
                  if tmp < exstk \<or> tmp > exstk_top
                  then Inl (Panico ''page_fault_handler: exception stack overflow'')
                  else Inl (env_run c (upd_env c (\<lambda>v. v\<lparr>env_tf := (env_tf v)\<lparr>
                         tf_esp := tmp, tf_eip := env_pgfault_upcall v\<rparr>\<rparr>) s)))))
        else and_then (env_destroy c s) (\<lambda>(_, s). Inr ((), s))) s)"


section \<open>Dispatch\<close>

text \<open>
  \<open>tfp\<close> is the environment whose saved frame the trap is in, or \<open>None\<close> for a trap taken inside the kernel,
  whose frame \<open>tf\<close> is on the stack; there the result of a system call would go to that frame and is lost.
\<close>

definition trap_dispatch :: "32 word \<Rightarrow> nat option \<Rightarrow> trapframe \<Rightarrow> unit kern" where
  "trap_dispatch fault_va tfp tf s =
     (if tf_trapno tf = T_BRKPT then Inl (EnMonitor s)
      else if tf_trapno tf = T_PGFLT then page_fault_handler fault_va tf s
      else if tf_trapno tf = T_SYSCALL then
        let r = tf_regs tf
        in and_then (syscall (reg_eax r) (reg_edx r) (reg_ecx r) (reg_ebx r) (reg_edi r) (reg_esi r) s) (\<lambda>(ret, s).
             case tfp of
               None \<Rightarrow> Inr ((), s)
             | Some c \<Rightarrow> Inr ((), upd_env c (\<lambda>v. v\<lparr>env_tf := (env_tf v)\<lparr>
                           tf_regs := (tf_regs (env_tf v))\<lparr>reg_eax := word_of_int ret\<rparr>\<rparr>\<rparr>) s))
      else if tf_trapno tf = IRQ_OFFSET + IRQ_SPURIOUS then Inr ((), s)
      else if tf_trapno tf - IRQ_OFFSET = IRQ_TIMER then Inl (sched_yield s)
      else if tf_cs tf = GD_KT then Inl (Panico ''unhandled trap in kernel'')
      else con_env (curenv s) (\<lambda>c s. env_destroy c s) s)"

definition vuelve_o_cede :: "kst \<Rightarrow> fin_kern" where
  "vuelve_o_cede s =
     (case curenv s of
        Some c \<Rightarrow> if env_status (envs s ! c) = ENV_RUNNING then env_run c s else sched_yield s
      | None \<Rightarrow> sched_yield s)"

definition trap :: "32 word \<Rightarrow> trapframe \<Rightarrow> kst \<Rightarrow> fin_kern" where
  "trap fault_va tf s =
     (let s = (if cpu_status s = CPU_HALTED then s\<lparr>kernel_lock := True\<rparr> else s)\<lparr>cpu_status := CPU_STARTED\<rparr>;
          fin = (\<lambda>m. case m of Inl f \<Rightarrow> f | Inr (_, s) \<Rightarrow> vuelve_o_cede s)
      in if tf_cs tf AND 3 = 3 then
           let s = s\<lparr>kernel_lock := True\<rparr>
           in case curenv s of
                None \<Rightarrow> Panico ''assertion failed: curenv''
              | Some c \<Rightarrow>
                  if env_status (envs s ! c) = ENV_DYING then
                    (case env_free c s of
                       Inl f \<Rightarrow> f
                     | Inr (_, s) \<Rightarrow> sched_yield (s\<lparr>curenv := None\<rparr>))
                  else fin (trap_dispatch fault_va (Some c) tf (upd_env c (env_tf_update (\<lambda>_. tf)) s))
         else fin (trap_dispatch fault_va None tf s))"

end
