(* ===== verification/Kern_User.thy ===== *)
theory Kern_User
  imports Kern_Trap
begin

text \<open>
  The user library (\<open>sched/lib\<close>): the stubs of the system calls, page fault handlers, \<open>fork\<close> and
  messages, on top of the kernel. A call of a library function runs from one state of the machine to
  another; it ends early when the kernel does not come back to its caller, or when an access of the
  program faults. Between the accesses of a program the kernel runs only through its calls: timer
  interrupts during the library, and other processors, are left out.
\<close>

section \<open>A running program\<close>

text \<open>
  The kernel and the machine, the two library globals of the program in \<open>curenv\<close>, and its registers.
  \<open>thisenv\<close> points into \<open>envs\<close>, which every program can read.
\<close>

record ust =
  nucleo :: kst
  thisenv :: "nat option"
  pgfault_handler :: "32 word"
  registros :: trapframe

datatype fin_usuario = Kernel fin_kern | Falla "32 word" kst

type_synonym 'a usr = "ust \<Rightarrow> fin_usuario + ('a \<times> ust)"

text \<open>\<open>_panic\<close> prints and raises the breakpoint for ever; the kernel answers with its monitor.\<close>

definition panic_u :: "'a usr" where
  "panic_u u = Inl (Kernel (trap 0 ((registros u)\<lparr>tf_trapno := T_BRKPT\<rparr>) (nucleo u)))"

text \<open>
  The instruction \<open>int T_SYSCALL\<close> with the arguments in the registers: the processor saves them in a
  frame and enters the kernel. The call returns when the kernel runs the same environment again.
\<close>

definition int_syscall ::
  "32 word \<Rightarrow> 32 word \<Rightarrow> 32 word \<Rightarrow> 32 word \<Rightarrow> 32 word \<Rightarrow> 32 word \<Rightarrow> int usr" where
  "int_syscall num a1 a2 a3 a4 a5 u =
     (let tf = (registros u)\<lparr>tf_trapno := T_SYSCALL,
                 tf_regs := (tf_regs (registros u))\<lparr>reg_eax := num, reg_edx := a1, reg_ecx := a2,
                                               reg_ebx := a3, reg_edi := a4, reg_esi := a5\<rparr>\<rparr>
      in case trap 0 tf (nucleo u) of
           Corre c t \<Rightarrow>
             if Some c = curenv (nucleo u)
             then Inr (sint (reg_eax (tf_regs (env_tf (envs t ! c)))), u\<lparr>nucleo := t\<rparr>)
             else Inl (Kernel (Corre c t))
         | f \<Rightarrow> Inl (Kernel f))"

definition syscall_u ::
  "32 word \<Rightarrow> bool \<Rightarrow> 32 word \<Rightarrow> 32 word \<Rightarrow> 32 word \<Rightarrow> 32 word \<Rightarrow> 32 word \<Rightarrow> int usr" where
  "syscall_u num check a1 a2 a3 a4 a5 u =
     and_then (int_syscall num a1 a2 a3 a4 a5 u) (\<lambda>(ret, u).
       if check \<and> ret > 0 then panic_u u else Inr (ret, u))"


section \<open>Stubs\<close>

definition sys_env_get_priority_u :: "32 word \<Rightarrow> int usr" where
  "sys_env_get_priority_u envid = syscall_u 13 False envid 0 0 0 0"

definition sys_env_lower_priority_u :: "32 word \<Rightarrow> int usr" where
  "sys_env_lower_priority_u envid = syscall_u 14 False envid 0 0 0 0"

definition sys_cputs_u :: "32 word \<Rightarrow> 32 word \<Rightarrow> int usr" where
  "sys_cputs_u s len = syscall_u 0 False s len 0 0 0"

definition sys_cgetc_u :: "int usr" where
  "sys_cgetc_u = syscall_u 1 False 0 0 0 0 0"

definition sys_env_destroy_u :: "32 word \<Rightarrow> int usr" where
  "sys_env_destroy_u envid = syscall_u 3 True envid 0 0 0 0"

definition sys_getenvid_u :: "int usr" where
  "sys_getenvid_u = syscall_u 2 False 0 0 0 0 0"

definition sys_yield_u :: "int usr" where
  "sys_yield_u = syscall_u 10 False 0 0 0 0 0"

definition sys_page_alloc_u :: "32 word \<Rightarrow> 32 word \<Rightarrow> 32 word \<Rightarrow> int usr" where
  "sys_page_alloc_u envid va perm = syscall_u 4 True envid va perm 0 0"

definition sys_page_map_u ::
  "32 word \<Rightarrow> 32 word \<Rightarrow> 32 word \<Rightarrow> 32 word \<Rightarrow> 32 word \<Rightarrow> int usr" where
  "sys_page_map_u srcenv srcva dstenv dstva perm = syscall_u 5 True srcenv srcva dstenv dstva perm"

definition sys_page_unmap_u :: "32 word \<Rightarrow> 32 word \<Rightarrow> int usr" where
  "sys_page_unmap_u envid va = syscall_u 6 True envid va 0 0 0"

text \<open>\<open>sys_exofork\<close> is inlined and sets only \<open>%eax\<close>; the kernel does not look at the others.\<close>

definition sys_exofork_u :: "int usr" where
  "sys_exofork_u u =
     (let r = tf_regs (registros u)
      in int_syscall 7 (reg_edx r) (reg_ecx r) (reg_ebx r) (reg_edi r) (reg_esi r) u)"

definition sys_env_set_status_u :: "32 word \<Rightarrow> 32 word \<Rightarrow> int usr" where
  "sys_env_set_status_u envid status = syscall_u 8 True envid status 0 0 0"

definition sys_env_set_pgfault_upcall_u :: "32 word \<Rightarrow> 32 word \<Rightarrow> int usr" where
  "sys_env_set_pgfault_upcall_u envid upcall = syscall_u 9 True envid upcall 0 0 0"

definition sys_ipc_try_send_u :: "32 word \<Rightarrow> 32 word \<Rightarrow> 32 word \<Rightarrow> 32 word \<Rightarrow> int usr" where
  "sys_ipc_try_send_u envid value srcva perm = syscall_u 11 False envid value srcva perm 0"

definition sys_ipc_recv_u :: "32 word \<Rightarrow> int usr" where
  "sys_ipc_recv_u dstva = syscall_u 12 True dstva 0 0 0 0"


section \<open>Memory\<close>

text \<open>What the processor asks of both entries in user mode, and the place a word of the program is in.\<close>

definition traduce_u :: "kst \<Rightarrow> bool \<Rightarrow> 32 word \<Rightarrow> (nat \<times> nat) option" where
  "traduce_u s escribe va =
     (let pide = PTE_P OR PTE_U OR (if escribe then PTE_W else 0);
          pde = mem s (cr3 s) (PDX va); pte = mem s (PGNUM pde) (PTX va)
      in if pde AND pide = pide \<and> pte AND pide = pide
         then Some (PGNUM pte, unat (va AND 0xFFF) div 4) else None)"

definition lee_u :: "32 word \<Rightarrow> 32 word usr" where
  "lee_u va u =
     (case traduce_u (nucleo u) False va of
        None \<Rightarrow> Inl (Falla va (nucleo u))
      | Some (f, i) \<Rightarrow> Inr (mem (nucleo u) f i, u))"

definition UVPD :: "32 word" where "UVPD = UVPT + drop_bit 12 UVPT * 4"

definition uvpt :: "32 word \<Rightarrow> 32 word usr" where "uvpt pn = lee_u (UVPT + pn * 4)"

definition uvpd :: "32 word \<Rightarrow> 32 word usr" where "uvpd d = lee_u (UVPD + d * 4)"

text \<open>\<open>memmove\<close> of a whole page between two page-aligned addresses.\<close>

definition memmove_pag :: "32 word \<Rightarrow> 32 word \<Rightarrow> unit usr" where
  "memmove_pag dst src u =
     (let s = nucleo u
      in case traduce_u s False src of
           None \<Rightarrow> Inl (Falla src s)
         | Some (f, _) \<Rightarrow>
             (case traduce_u s True dst of
                None \<Rightarrow> Inl (Falla dst s)
              | Some (g, _) \<Rightarrow> Inr ((), u\<lparr>nucleo := memcpy_pag g f s\<rparr>)))"


section \<open>Page faults (lib/pgfault.c, lib/fork.c)\<close>

definition UTEMP :: "32 word" where "UTEMP = PTSIZE"
definition PFTEMP :: "32 word" where "PFTEMP = UTEMP + PTSIZE - PGSIZE"
definition PTE_COW :: "32 word" where "PTE_COW = 0x800"
definition FEC_WR :: "32 word" where "FEC_WR = 0x2"

text \<open>\<open>upcall\<close> is the address of \<open>_pgfault_upcall\<close>.\<close>

definition set_pgfault_handler :: "32 word \<Rightarrow> 32 word \<Rightarrow> unit usr" where
  "set_pgfault_handler upcall handler u =
     (if pgfault_handler u = 0 then
        and_then (sys_page_alloc_u 0 (UXSTACKTOP - PGSIZE) (PTE_U OR PTE_P OR PTE_W) u) (\<lambda>(r, u).
          if r < 0 then Inr ((), u)
          else and_then (sys_env_set_pgfault_upcall_u 0 upcall u) (\<lambda>(r, u).
            if r < 0 then Inr ((), u) else Inr ((), u\<lparr>pgfault_handler := handler\<rparr>)))
      else Inr ((), u\<lparr>pgfault_handler := handler\<rparr>))"

text \<open>The value of \<open>!x\<close>, and the check of \<open>pgfault\<close> with the operator the code has.\<close>

definition no_c :: "32 word \<Rightarrow> 32 word" where "no_c x = (if x = 0 then 1 else 0)"

definition pgfault :: "utrapframe \<Rightarrow> unit usr" where
  "pgfault utf u =
     (let addr = utf_fault_va utf; err = utf_err utf
      in and_then (uvpt (drop_bit 12 addr) u) (\<lambda>(fault_pte, u).
         if (err AND FEC_WR) AND no_c (fault_pte AND PTE_COW) \<noteq> 0 then panic_u u
         else let perm = PTE_P OR PTE_U OR PTE_W
         in and_then (sys_page_alloc_u 0 PFTEMP perm u) (\<lambda>(r, u).
            if r < 0 then panic_u u
            else let addr = ROUNDDOWN addr PGSIZE
            in and_then (memmove_pag PFTEMP addr u) (\<lambda>(_, u).
               and_then (sys_page_map_u 0 PFTEMP 0 addr perm u) (\<lambda>(r, u).
               if r < 0 then panic_u u
               else and_then (sys_page_unmap_u 0 PFTEMP u) (\<lambda>(r, u).
                 if r < 0 then panic_u u else Inr ((), u)))))))"


section \<open>Fork\<close>

definition duppage :: "32 word \<Rightarrow> 32 word \<Rightarrow> int usr" where
  "duppage envid pn u =
     (let addr = push_bit 12 pn
      in and_then (uvpt pn u) (\<lambda>(pte, u).
         if pte AND PTE_P = 0 \<or> pte AND PTE_U = 0 then panic_u u
         else
           let perm = PTE_U OR PTE_P;
               perm = (if pte AND (PTE_PCD OR PTE_PWT) \<noteq> 0 then perm OR (PTE_PCD OR PTE_PWT) else perm)
           in if pte AND PTE_W \<noteq> 0 \<or> pte AND PTE_COW \<noteq> 0 then
                and_then (sys_page_map_u 0 addr envid addr (perm OR PTE_COW) u) (\<lambda>(r, u).
                  if r < 0 then panic_u u
                  else and_then (sys_page_map_u 0 addr 0 addr (perm OR PTE_COW) u) (\<lambda>(r, u).
                    if r < 0 then panic_u u else Inr (0, u)))
              else and_then (sys_page_map_u 0 addr envid addr perm u) (\<lambda>(r, u).
                     if r < 0 then panic_u u else Inr (0, u))))"

definition dup_or_share :: "32 word \<Rightarrow> 32 word \<Rightarrow> 32 word \<Rightarrow> unit usr" where
  "dup_or_share envid pnum perm u =
     (let addr = push_bit 12 pnum
      in and_then (uvpt pnum u) (\<lambda>(pte, u).
         if pte AND PTE_P = 0 then Inr ((), u)
         else
           let perm = perm AND (pte AND PTE_W); perm = perm AND PTE_SYSCALL;
               io = pte AND (PTE_PCD OR PTE_PWT);
               perm = (if io \<noteq> 0 then perm OR (PTE_PCD OR PTE_PWT) else perm)
           in if pte AND PTE_W = 0 \<or> io \<noteq> 0 then
                and_then (sys_page_map_u 0 addr envid addr perm u) (\<lambda>(r, u).
                  if r < 0 then panic_u u else Inr ((), u))
              else and_then (sys_page_alloc_u envid addr perm u) (\<lambda>(r, u).
                if r < 0 then panic_u u
                else and_then (sys_page_map_u envid addr 0 UTEMP perm u) (\<lambda>(r, u).
                  if r < 0 then panic_u u
                  else and_then (memmove_pag UTEMP addr u) (\<lambda>(_, u).
                    and_then (sys_page_unmap_u 0 UTEMP u) (\<lambda>(r, u).
                      if r < 0 then panic_u u else Inr ((), u)))))))"

text \<open>The loops over the pages below \<open>UTOP\<close>, by the values of their counter.\<close>

fun recorre_u :: "('a \<Rightarrow> unit usr) \<Rightarrow> 'a list \<Rightarrow> unit usr" where
  "recorre_u f [] u = Inr ((), u)"
| "recorre_u f (x # xs) u = and_then (f x u) (\<lambda>(_, u). recorre_u f xs u)"

definition paginas_utop :: "32 word list" where
  "paginas_utop = map of_nat [0..<unat (drop_bit 12 UTOP)]"

definition fork_v0_pagina :: "32 word \<Rightarrow> 32 word \<Rightarrow> unit usr" where
  "fork_v0_pagina envid pnum u =
     and_then (uvpd (drop_bit 10 pnum) u) (\<lambda>(pde, u).
       if pde AND PTE_P = 0 \<or> pde AND PTE_U = 0 then Inr ((), u)
       else dup_or_share envid pnum (PTE_P OR PTE_U OR PTE_W) u)"

definition fork_pagina :: "32 word \<Rightarrow> 32 word \<Rightarrow> unit usr" where
  "fork_pagina envid pnum u =
     (if pnum = drop_bit 12 UXSTACKTOP - 1 then Inr ((), u)
      else and_then (uvpd (drop_bit 10 pnum) u) (\<lambda>(pde, u).
        if pde AND PTE_P = 0 \<or> pde AND PTE_U = 0 then Inr ((), u)
        else and_then (uvpt pnum u) (\<lambda>(pte, u).
          if pte AND PTE_P = 0 \<or> pte AND PTE_U = 0 then Inr ((), u)
          else and_then (duppage envid pnum u) (\<lambda>(_, u). Inr ((), u)))))"

text \<open>What the child does after \<open>sys_exofork\<close> returned 0 to it: \<open>thisenv = &envs[ENVX(sys_getenvid())]\<close>.\<close>

definition fork_hijo :: "int usr" where
  "fork_hijo u = and_then (sys_getenvid_u u) (\<lambda>(id, u).
     Inr (0, u\<lparr>thisenv := Some (ENVX (word_of_int id))\<rparr>))"

definition fork_v0_padre :: "int \<Rightarrow> int usr" where
  "fork_v0_padre envid u =
     (let id = word_of_int envid
      in and_then (recorre_u (fork_v0_pagina id) paginas_utop u) (\<lambda>(_, u).
         and_then (sys_env_set_status_u id 2 u) (\<lambda>(r, u).
           if r < 0 then panic_u u else Inr (envid, u))))"

definition fork_v0 :: "int usr" where
  "fork_v0 u = and_then (sys_exofork_u u) (\<lambda>(envid, u).
     if envid < 0 then panic_u u else if envid = 0 then fork_hijo u else fork_v0_padre envid u)"

text \<open>A null \<open>thisenv\<close> is an access at address 0 plus the offset of the field, which faults.\<close>

definition fork_padre :: "int \<Rightarrow> int usr" where
  "fork_padre envid u =
     (let id = word_of_int envid
      in and_then (recorre_u (fork_pagina id) paginas_utop u) (\<lambda>(_, u).
         and_then (sys_page_alloc_u id (UXSTACKTOP - PGSIZE) (PTE_U OR PTE_P OR PTE_W) u) (\<lambda>(r, u).
           if r < 0 then panic_u u
           else case thisenv u of
             None \<Rightarrow> Inl (Falla 100 (nucleo u))
           | Some e \<Rightarrow>
               and_then (sys_env_set_pgfault_upcall_u id (env_pgfault_upcall (envs (nucleo u) ! e)) u) (\<lambda>(r, u).
                 if r < 0 then panic_u u
                 else and_then (sys_env_set_status_u id 2 u) (\<lambda>(r, u).
                   if r < 0 then panic_u u else Inr (envid, u))))))"

text \<open>\<open>upcall\<close> and \<open>pgfault_dir\<close> are the addresses of \<open>_pgfault_upcall\<close> and of \<open>pgfault\<close>.\<close>

definition fork :: "32 word \<Rightarrow> 32 word \<Rightarrow> int usr" where
  "fork upcall pgfault_dir u =
     and_then (set_pgfault_handler upcall pgfault_dir u) (\<lambda>(_, u).
     and_then (sys_exofork_u u) (\<lambda>(envid, u).
       if envid < 0 then panic_u u else if envid = 0 then fork_hijo u else fork_padre envid u))"

definition sfork :: "int usr" where "sfork u = panic_u u"


section \<open>Messages (lib/ipc.c)\<close>

text \<open>
  \<open>de\<close> and \<open>pe\<close> say whether the two pointers are not null; the answer is what \<open>ipc_recv\<close> returns and what
  it stores through them. The call blocks, so \<open>tras_recv\<close> is what it does when the kernel runs the program
  again, with \<open>err\<close> in \<open>%eax\<close>.
\<close>

definition tras_recv :: "bool \<Rightarrow> bool \<Rightarrow> int \<Rightarrow> (int \<times> 32 word option \<times> 32 word option) usr" where
  "tras_recv de pe err u =
     (if err \<noteq> 0 then Inr ((err, if de then Some 0 else None, if pe then Some 0 else None), u)
      else case thisenv u of
        None \<Rightarrow> Inl (Falla (if de then 116 else if pe then 120 else 112) (nucleo u))
      | Some e \<Rightarrow>
          let v = envs (nucleo u) ! e
          in Inr ((sint (env_ipc_value v), if de then Some (env_ipc_from v) else None,
                   if pe then Some (env_ipc_perm v) else None), u))"

definition ipc_recv :: "bool \<Rightarrow> 32 word \<Rightarrow> bool \<Rightarrow> (int \<times> 32 word option \<times> 32 word option) usr" where
  "ipc_recv de pg pe u = and_then (sys_ipc_recv_u pg u) (\<lambda>(err, u). tras_recv de pe err u)"

text \<open>The loop of \<open>ipc_send\<close> may go on for ever; then its value is \<open>None\<close>.\<close>

partial_function (option) ipc_reintenta ::
  "32 word \<Rightarrow> 32 word \<Rightarrow> 32 word \<Rightarrow> 32 word \<Rightarrow> ust \<Rightarrow> (fin_usuario + (int \<times> ust)) option" where
  "ipc_reintenta to_env val pg perm u =
     (case sys_ipc_try_send_u to_env val pg perm u of
        Inl f \<Rightarrow> Some (Inl f)
      | Inr (r, u) \<Rightarrow>
          if r \<noteq> - E_IPC_NOT_RECV then Some (Inr (r, u))
          else case sys_yield_u u of
                 Inl f \<Rightarrow> Some (Inl f)
               | Inr (_, u) \<Rightarrow> ipc_reintenta to_env val pg perm u)"

definition ipc_send ::
  "32 word \<Rightarrow> 32 word \<Rightarrow> 32 word \<Rightarrow> 32 word \<Rightarrow> ust \<Rightarrow> (fin_usuario + (unit \<times> ust)) option" where
  "ipc_send to_env val pg perm u =
     (let pg = (if pg = 0 then UTOP else pg)
      in map_option (\<lambda>m. and_then m (\<lambda>(r, u). if r < 0 then panic_u u else Inr ((), u)))
           (ipc_reintenta to_env val pg perm u))"

definition ipc_find_env :: "nat \<Rightarrow> kst \<Rightarrow> 32 word" where
  "ipc_find_env type s =
     (case find (\<lambda>i. env_type (envs s ! i) = type) [0..<NENV] of
        None \<Rightarrow> 0
      | Some i \<Rightarrow> env_id (envs s ! i))"


section \<open>Starting and ending (lib/libmain.c, lib/exit.c)\<close>

definition exit_u :: "unit usr" where
  "exit_u u = and_then (sys_env_destroy_u 0 u) (\<lambda>(_, u). Inr ((), u))"

definition libmain :: "unit usr \<Rightarrow> unit usr" where
  "libmain umain u =
     and_then (sys_getenvid_u u) (\<lambda>(id, u).
       let u = (if id \<ge> 0 then u\<lparr>thisenv := Some (ENVX (word_of_int id))\<rparr> else u)
       in and_then (umain u) (\<lambda>(_, u). exit_u u))"

end
