(* ===== verification/Kern_Inserta.thy ===== *)
theory Kern_Inserta
  imports Kern_Vm Kern_Syscall
begin

text \<open>
  The states \<open>page_insert\<close> and \<open>page_remove\<close> leave, written out: what they do to the directories, to the
  contents of the frames that are neither directories nor tables, to the reference counts, to the free
  list and to the rest of the kernel's state, which is nothing. With them, what the page system calls do.
\<close>

section \<open>The states\<close>

definition con_tabla :: "nat \<Rightarrow> 32 word \<Rightarrow> nat list \<Rightarrow> kst \<Rightarrow> kst" where
  "con_tabla pd va xs s = (if mem s pd (PDX va) = 0 then nueva_tabla pd (PDX va) (hd xs) s else s)"

definition libres_tabla :: "nat \<Rightarrow> 32 word \<Rightarrow> nat list \<Rightarrow> kst \<Rightarrow> nat list" where
  "libres_tabla pd va xs s = (if mem s pd (PDX va) = 0 then tl xs else xs)"

definition quitada :: "nat \<Rightarrow> 32 word \<Rightarrow> kst \<Rightarrow> kst" where
  "quitada pd va s = (if ent s (ranura_va pd va) = 0 then s else sin_pagina pd va s)"

definition libres_quitada :: "nat \<Rightarrow> 32 word \<Rightarrow> nat list \<Rightarrow> kst \<Rightarrow> nat list" where
  "libres_quitada pd va xs s =
     (let f = PGNUM (ent s (ranura_va pd va))
      in if ent s (ranura_va pd va) \<noteq> 0 \<and> pp_ref (pages s ! f) = 1 then f # xs else xs)"

definition mas_ref :: "nat \<Rightarrow> kst \<Rightarrow> kst" where
  "mas_ref p s = upd_page p (pp_ref_update (\<lambda>r. r + 1)) s"

definition insertada :: "nat \<Rightarrow> nat \<Rightarrow> 32 word \<Rightarrow> 32 word \<Rightarrow> nat list \<Rightarrow> kst \<Rightarrow> kst" where
  "insertada pd pp va perm xs s =
     (let u = con_tabla pd va xs s
      in poke (tabla_en u (pd, PDX va), PTX va) (entrada_pte pp perm) (quitada pd va (mas_ref pp u)))"

definition libres_insertada :: "nat \<Rightarrow> nat \<Rightarrow> 32 word \<Rightarrow> nat list \<Rightarrow> kst \<Rightarrow> nat list" where
  "libres_insertada pd pp va xs s =
     libres_quitada pd va (libres_tabla pd va xs s) (mas_ref pp (con_tabla pd va xs s))"

text \<open>Only pages, free list, memory and TLB change.\<close>

definition solo_vm :: "kst \<Rightarrow> kst \<Rightarrow> bool" where
  "solo_vm s t \<longleftrightarrow> envs t = envs s \<and> curenv t = curenv s \<and> cr3 t = cr3 s \<and> npages t = npages s \<and>
     env_free_list t = env_free_list s \<and> kern_pgdir t = kern_pgdir s"

lemma solo_vm_refl [simp]: "solo_vm s s"
  by (simp add: solo_vm_def)

lemma solo_vm_trans: "solo_vm s t \<Longrightarrow> solo_vm t u \<Longrightarrow> solo_vm s u"
  by (simp add: solo_vm_def)

lemma solo_vm_pasos [simp]:
  "solo_vm s (upd_page p g s)" "solo_vm s (poke q v s)" "solo_vm s (memset0 f s)"
  "solo_vm s (devuelta p s)" "solo_vm s (sin_primera p s)" "solo_vm s (tlb_invalidate pd va s)"
  "solo_vm s (memcpy_pag d f s)"
  by (simp_all add: solo_vm_def upd_page_def poke_def memset0_def devuelta_def sin_primera_def
      tlb_invalidate_def memcpy_pag_def)

lemma solo_vm_nueva: "solo_vm s (nueva_tabla pd d x s)"
  unfolding nueva_tabla_def by (meson solo_vm_pasos solo_vm_trans)

lemma solo_vm_sin_pagina: "solo_vm s (sin_pagina pd va s)"
  by (simp add: sin_pagina_def suelta_ref_def sin_ref_def solo_vm_def upd_page_def poke_def devuelta_def
      tlb_invalidate_def)

lemma solo_vm_insertada: "solo_vm s (insertada pd pp va perm xs s)"
proof -
  have "solo_vm s (con_tabla pd va xs s)" by (simp add: con_tabla_def solo_vm_nueva)
  moreover have "solo_vm u (mas_ref pp u)" for u by (simp add: mas_ref_def)
  moreover have "solo_vm u (quitada pd va u)" for u by (simp add: quitada_def solo_vm_sin_pagina)
  ultimately show ?thesis unfolding insertada_def Let_def by (meson solo_vm_pasos(2) solo_vm_trans)
qed


section \<open>Walking and removing\<close>

lemma con_tabla_ok:
  assumes ok: "vm_ok s P xs" and pd: "pd \<in> P" "PDX va < NU"
    and cabe: "mem s pd (PDX va) \<noteq> 0 \<or> xs \<noteq> []"
  shows "pgdir_walk pd va True s =
      Inr (Some (tabla_en (con_tabla pd va xs s) (pd, PDX va), PTX va), con_tabla pd va xs s)"
    and "vm_ok (con_tabla pd va xs s) P (libres_tabla pd va xs s)"
    and "\<And>r. r \<in> ranuras P \<Longrightarrow> ent (con_tabla pd va xs s) r = ent s r"
proof -
  have "pgdir_walk pd va True s =
      Inr (Some (tabla_en (con_tabla pd va xs s) (pd, PDX va), PTX va), con_tabla pd va xs s) \<and>
    vm_ok (con_tabla pd va xs s) P (libres_tabla pd va xs s) \<and>
    (\<forall>r \<in> ranuras P. ent (con_tabla pd va xs s) r = ent s r)"
  proof (cases "mem s pd (PDX va) = 0")
    case False
    then have "tabla_en s (pd, PDX va) < npages s" using vm_okD(4) [OF ok] pd by (auto simp: pdes_def)
    with False show ?thesis using ok by (simp add: con_tabla_def libres_tabla_def pgdir_walk_existe)
  next
    case True
    with cabe obtain x ys where xs: "xs = x # ys" by (cases xs) auto
    show ?thesis
      using True pgdir_walk_nueva [OF True, of x ys] vm_okD(1) [OF ok] vm_nueva_tabla [OF ok [unfolded xs] pd True]
        nueva_tabla_ent(1,3) [OF ok [unfolded xs] pd True]
      by (simp add: con_tabla_def libres_tabla_def xs)
  qed
  then show "pgdir_walk pd va True s =
      Inr (Some (tabla_en (con_tabla pd va xs s) (pd, PDX va), PTX va), con_tabla pd va xs s)"
    "vm_ok (con_tabla pd va xs s) P (libres_tabla pd va xs s)"
    "\<And>r. r \<in> ranuras P \<Longrightarrow> ent (con_tabla pd va xs s) r = ent s r" by blast+
qed

lemma quitada_ok:
  assumes ok: "vm_ok s P xs" and pd: "pd \<in> P" "PDX va < NU"
  shows "page_remove pd va s = Inr ((), quitada pd va s)"
    and "vm_ok (quitada pd va s) P (libres_quitada pd va xs s)"
    and "r \<in> ranuras P \<Longrightarrow> ent (quitada pd va s) r = (if r = ranura_va pd va then 0 else ent s r)"
proof -
  note N = page_remove_nada [OF ok pd] and R = page_remove_pagina [OF ok pd]
  show "page_remove pd va s = Inr ((), quitada pd va s)" using N R(1) by (simp add: quitada_def)
  show "vm_ok (quitada pd va s) P (libres_quitada pd va xs s)"
    using ok R(2) by (auto simp: quitada_def libres_quitada_def Let_def split: if_splits)
  show "ent (quitada pd va s) r = (if r = ranura_va pd va then 0 else ent s r)" if "r \<in> ranuras P"
    using R(3) [OF _ that] by (auto simp: quitada_def split: if_splits)
qed


section \<open>Frames that hold data\<close>

definition datos :: "kst \<Rightarrow> nat set \<Rightarrow> nat list \<Rightarrow> nat \<Rightarrow> bool" where
  "datos s P xs f \<longleftrightarrow> f < npages s \<and> f \<notin> set xs \<and> f \<notin> P \<and> f \<notin> tabla_en s ` pdes s P"

lemma datos_ent: "vm_ok s P xs \<Longrightarrow> r \<in> ranuras P \<Longrightarrow> ent s r \<noteq> 0 \<Longrightarrow> datos s P xs (PGNUM (ent s r))"
  using vm_okD(6) [of s P xs r] by (auto simp: datos_def)

lemma nueva_tabla_mem:
  "mem (nueva_tabla pd d x s) p i =
     (if p = pd \<and> i = d then pde_de x else if p = x \<and> i < 1024 then 0 else mem s p i)"
  by (simp add: nueva_tabla_def mem_poke) (simp add: memset0_def)

lemma nueva_tabla_pages: "x \<noteq> g \<Longrightarrow> pp_ref (pages (nueva_tabla pd d x s) ! g) = pp_ref (pages s ! g)"
  by (simp add: nueva_tabla_def sin_primera_def upd_page_def memset0_def poke_def)

lemma datos_con_tabla:
  assumes ok: "vm_ok s P xs" and pd: "pd \<in> P" "PDX va < NU"
    and cabe: "mem s pd (PDX va) \<noteq> 0 \<or> xs \<noteq> []" and g: "datos s P xs g"
  shows "datos (con_tabla pd va xs s) P (libres_tabla pd va xs s) g"
    and "mem (con_tabla pd va xs s) g = mem s g"
    and "pp_ref (pages (con_tabla pd va xs s) ! g) = pp_ref (pages s ! g)"
    and "p \<in> P \<Longrightarrow> mem (con_tabla pd va xs s) p i =
      (if p = pd \<and> i = PDX va \<and> mem s pd i = 0 then pde_de (hd xs) else mem s p i)"
proof -
  have "datos (con_tabla pd va xs s) P (libres_tabla pd va xs s) g \<and>
    mem (con_tabla pd va xs s) g = mem s g \<and>
    pp_ref (pages (con_tabla pd va xs s) ! g) = pp_ref (pages s ! g) \<and>
    (p \<in> P \<longrightarrow> mem (con_tabla pd va xs s) p i =
      (if p = pd \<and> i = PDX va \<and> mem s pd i = 0 then pde_de (hd xs) else mem s p i))"
  proof (cases "mem s pd (PDX va) = 0")
    case False
    then show ?thesis using g by (auto simp: con_tabla_def libres_tabla_def)
  next
    case True
    with cabe obtain x ys where xs: "xs = x # ys" by (cases xs) auto
    note U = nueva_tabla_ent [OF ok [unfolded xs] pd True]
    have x: "x \<noteq> g" "x \<notin> P" "pd \<noteq> g" using g pd vm_okD(3) [OF ok] by (auto simp: datos_def xs)
    have con: "con_tabla pd va xs s = nueva_tabla pd (PDX va) x s" "libres_tabla pd va xs s = ys"
      using True by (simp_all add: con_tabla_def libres_tabla_def xs)
    have "tabla_en (nueva_tabla pd (PDX va) x s) ` pdes (nueva_tabla pd (PDX va) x s) P =
        insert x (tabla_en s ` pdes s P)"
      using U(3,4) by (auto simp: U(2) image_iff)
    then have "datos (nueva_tabla pd (PDX va) x s) P ys g"
      using g x by (simp add: datos_def xs nueva_tabla_def)
    moreover have "mem (nueva_tabla pd (PDX va) x s) g = mem s g"
      using x by (simp add: fun_eq_iff nueva_tabla_mem)
    moreover have "mem (nueva_tabla pd (PDX va) x s) p i =
        (if p = pd \<and> i = PDX va \<and> mem s pd i = 0 then pde_de x else mem s p i)" if "p \<in> P"
      using that x(2) True by (auto simp: nueva_tabla_mem)
    ultimately show ?thesis using nueva_tabla_pages [OF x(1)] by (auto simp: con [unfolded xs] xs True)
  qed
  then show "datos (con_tabla pd va xs s) P (libres_tabla pd va xs s) g"
    "mem (con_tabla pd va xs s) g = mem s g"
    "pp_ref (pages (con_tabla pd va xs s) ! g) = pp_ref (pages s ! g)"
    "p \<in> P \<Longrightarrow> mem (con_tabla pd va xs s) p i =
      (if p = pd \<and> i = PDX va \<and> mem s pd i = 0 then pde_de (hd xs) else mem s p i)"
    by blast+
qed


lemma datos_quitada:
  assumes ok: "vm_ok s P xs" and pd: "pd \<in> P" "PDX va < NU"
  shows "p \<in> P \<Longrightarrow> mem (quitada pd va s) p = mem s p"
    and "datos s P xs g \<Longrightarrow> mem (quitada pd va s) g = mem s g"
    and "pdes (quitada pd va s) P = pdes s P"
    and "q \<in> pdes s P \<Longrightarrow> tabla_en (quitada pd va s) q = tabla_en s q"
    and "f < npages s \<Longrightarrow> unat (pp_ref (pages (quitada pd va s) ! f)) \<le> unat (pp_ref (pages s ! f))"
proof -
  have T: "tabla_en s (pd, PDX va) \<in> tabla_en s ` pdes s P" if "ent s (ranura_va pd va) \<noteq> 0"
  proof (rule imageI)
    show "(pd, PDX va) \<in> pdes s P"
      using that pd by (auto simp: pdes_def ranura_va_def ent_def split: if_splits)
  qed
  have m: "mem (quitada pd va s) p = mem s p" if "p \<notin> tabla_en s ` pdes s P" for p
  proof (cases "ent s (ranura_va pd va) = 0")
    case False
    then have "p \<noteq> tabla_en s (pd, PDX va)" using T that by blast
    with False show ?thesis by (simp add: quitada_def sin_pagina_def mem_poke fun_eq_iff)
  qed (simp add: quitada_def)
  show mP: "mem (quitada pd va s) p = mem s p" if "p \<in> P" for p
    using vm_okD(4) [OF ok] that by (intro m) auto
  show "mem (quitada pd va s) g = mem s g" if "datos s P xs g"
    using that by (intro m) (simp add: datos_def)
  show "pdes (quitada pd va s) P = pdes s P" by (auto simp: pdes_def mP)
  show "tabla_en (quitada pd va s) q = tabla_en s q" if "q \<in> pdes s P" for q
    using that by (auto simp: pdes_def tabla_en_def mP)
  show "unat (pp_ref (pages (quitada pd va s) ! f)) \<le> unat (pp_ref (pages s ! f))" if f: "f < npages s"
  proof (cases "ent s (ranura_va pd va) \<noteq> 0 \<and> f = PGNUM (ent s (ranura_va pd va))")
    case True
    then have "ranura_va pd va \<in> usos s P f" using ranura_in [OF pd] by (simp add: usos_def)
    then have "0 < card (usos s P f)" using finite_usos [OF vm_okD(2) [OF ok]] by (auto simp: card_gt_0_iff)
    then have nz: "pp_ref (pages s ! f) \<noteq> 0" using vm_okD(7) [OF ok f] by auto
    have "pp_ref (pages (quitada pd va s) ! f) = pp_ref (pages s ! f) - 1"
      using True f sin_pagina_simps(1) [OF libres_okD(2) [OF vm_okD(1) [OF ok]], of f pd va]
      by (simp add: quitada_def)
    then show ?thesis by (simp add: unat_menos_uno [OF nz])
  next
    case False
    then show ?thesis
      using f sin_pagina_simps(1) [OF libres_okD(2) [OF vm_okD(1) [OF ok]], of f pd va]
      by (auto simp: quitada_def)
  qed
qed


section \<open>Inserting\<close>

lemma mas_ref_simps [simp]:
  "mem (mas_ref p s) = mem s" "npages (mas_ref p s) = npages s"
  by (simp_all add: mas_ref_def)

lemma mas_ref_ref:
  "length (pages s) = npages s \<Longrightarrow> f < npages s \<Longrightarrow>
   pp_ref (pages (mas_ref p s) ! f) = (if f = p then pp_ref (pages s ! f) + 1 else pp_ref (pages s ! f))"
  by (simp add: mas_ref_def upd_page_def nth_upd)

lemma datos_solo_mem: "mem t = mem s \<Longrightarrow> npages t = npages s \<Longrightarrow> datos t P xs f = datos s P xs f"
  using solo_mem [of t s] by (simp add: datos_def)

lemma datos_mas_ref [simp]: "datos (mas_ref p s) P xs f = datos s P xs f"
  by (rule datos_solo_mem) simp_all

lemma insertada_ok:
  fixes perm :: "32 word"
  assumes ok: "vm_ok s P xs" and pd: "pd \<in> P" "PDX va < NU"
    and cabe: "mem s pd (PDX va) \<noteq> 0 \<or> xs \<noteq> []"
    and pp: "datos s P xs pp" and ref: "unat (pp_ref (pages s ! pp)) < 65535"
  defines "t \<equiv> insertada pd pp va perm xs s"
  shows "page_insert pd pp va perm s = Inr (0, t)"
    and "bajos perm \<Longrightarrow> vm_ok t P (libres_insertada pd pp va xs s)"
    and "r \<in> ranuras P \<Longrightarrow> ent t r = (if r = ranura_va pd va then entrada_pte pp perm else ent s r)"
    and "datos s P xs g \<Longrightarrow> mem t g = mem s g"
    and "p \<in> P \<Longrightarrow> mem t p i = (if p = pd \<and> i = PDX va \<and> mem s pd i = 0 then pde_de (hd xs) else mem s p i)"
    and "datos s P xs g \<Longrightarrow>
      unat (pp_ref (pages t ! g)) \<le> unat (pp_ref (pages s ! g)) + (if g = pp then 1 else 0)"
proof -
  define u where "u = con_tabla pd va xs s"
  define ys where "ys = libres_tabla pd va xs s"
  note C = con_tabla_ok [OF ok pd cabe, folded u_def ys_def]
  note DC = datos_con_tabla [OF ok pd cabe, folded u_def ys_def]
  have np: "npages u = npages s" using solo_vm_nueva [of s] by (simp add: u_def con_tabla_def solo_vm_def)
  note len = libres_okD(2) [OF vm_okD(1) [OF C(2)]]
  define v where "v = mas_ref pp u"
  have pp': "pp < npages u" "pp \<notin> set ys" using DC(1) [OF pp] by (simp_all add: datos_def)
  have mas: "unat (pp_ref (pages u ! pp) + 1) = unat (pp_ref (pages u ! pp)) + 1"
    using ref DC(3) [OF pp] by (simp add: unat_word_ariths)
  have v_ok: "vm_ok v P ys"
    unfolding v_def mas_ref_def
    by (rule vm_ref [OF C(2) pp'(2)]) (use mas vm_okD(7) [OF C(2) pp'(1)] in simp)
  define w where "w = quitada pd va v"
  define zs where "zs = libres_quitada pd va ys v"
  have lz: "libres_insertada pd pp va xs s = zs"
    by (simp add: libres_insertada_def zs_def ys_def v_def u_def)
  note Q = quitada_ok [OF v_ok pd, folded w_def zs_def]
  note DQ = datos_quitada [OF v_ok pd, folded w_def]
  let ?T = "tabla_en u (pd, PDX va)"
  have t: "t = poke (?T, PTX va) (entrada_pte pp perm) w"
    by (simp add: t_def insertada_def w_def v_def u_def Let_def)
  show "page_insert pd pp va perm s = Inr (0, t)"
    using C(1) Q(1) by (simp add: page_insert_def t entrada_pte_def flip: v_def mas_ref_def)
  have te: "tabla_en w q = tabla_en u q" if "q \<in> pdes u P" for q
    using DQ(4) [of q] that solo_mem(2,3) [of v u] by (simp add: v_def)
  have pw: "pdes w P = pdes u P" using DQ(3) solo_mem(2) [of v u] by (simp add: v_def)
  have pde: "mem u pd (PDX va) \<noteq> 0"
    using DC(4) [OF pp pd(1), of "PDX va"] by simp
  have qu: "(pd, PDX va) \<in> pdes u P" using pde pd by (simp add: pdes_def)
  have pdew: "mem w pd (PDX va) \<noteq> 0" using pde DQ(1) [OF pd(1)] by (simp add: v_def)
  have r: "(pd, PDX va, PTX va) \<in> ranuras P" using ranura_in [OF pd] by (simp add: ranura_va_def)
  have Tw: "tabla_en w (pd, PDX va) = ?T" by (rule te [OF qu])
  have TP: "?T \<in> tabla_en u ` pdes u P" using qu by (rule imageI)
  have img: "tabla_en w ` pdes w P = tabla_en u ` pdes u P"
    unfolding pw by (rule image_cong [OF refl te])
  show "ent t r' = (if r' = ranura_va pd va then entrada_pte pp perm else ent s r')" if "r' \<in> ranuras P" for r'
    using poke_tabla(1) [OF Q(2) r pdew that, of "entrada_pte pp perm", unfolded Tw] Q(3) [OF that] C(3) [OF that]
      solo_mem(1) [of v u] by (simp add: t ranura_va_def v_def)
  show "mem t g = mem s g" if g: "datos s P xs g" for g
  proof -
    have d: "datos u P ys g" by (rule DC(1) [OF g])
    then have "g \<noteq> ?T" using TP by (auto simp: datos_def)
    moreover have "mem w g = mem u g" using DQ(2) [of g] d by (simp add: v_def)
    ultimately show ?thesis using DC(2) [OF g] by (simp add: t mem_poke fun_eq_iff)
  qed
  show "mem t p i = (if p = pd \<and> i = PDX va \<and> mem s pd i = 0 then pde_de (hd xs) else mem s p i)"
    if p: "p \<in> P" for p i
  proof -
    have "p \<noteq> ?T" using TP vm_okD(4) [OF C(2)] p by auto
    then show ?thesis using DC(4) [OF pp p] DQ(1) [OF p] by (simp add: t mem_poke v_def)
  qed
  show "unat (pp_ref (pages t ! g)) \<le> unat (pp_ref (pages s ! g)) + (if g = pp then 1 else 0)"
    if g: "datos s P xs g" for g
  proof -
    have gl: "g < npages u" using DC(1) [OF g] by (simp add: datos_def)
    have "unat (pp_ref (pages t ! g)) \<le> unat (pp_ref (pages v ! g))"
      using DQ(5) [of g] gl by (simp add: t v_def)
    also have "\<dots> \<le> unat (pp_ref (pages u ! g)) + (if g = pp then 1 else 0)"
      using mas_ref_ref [OF len gl, of pp] mas by (simp add: v_def)
    finally show ?thesis using DC(3) [OF g] by simp
  qed
  show "vm_ok t P (libres_insertada pd pp va xs s)" if b: "bajos perm"
  proof -
    obtain t' ys' where "page_insert pd pp va perm s = Inr (0, t')" "vm_ok t' P ys'"
      using page_insert_ok [OF ok pd cabe, of pp perm thesis] pp ref b unfolding datos_def by blast
    then have vt: "vm_ok t P ys'"
      using \<open>page_insert pd pp va perm s = Inr (0, t)\<close> by simp
    have "libres_ok t zs" using vm_okD(1) [OF Q(2)] by (simp add: t)
    then have "ys' = zs"
      using libres_okD(1) [OF vm_okD(1) [OF vt]] libres_okD(1) cadena_unica by blast
    then show ?thesis using vt by (simp add: lz)
  qed
qed


lemma libres_insertada_largo:
  "length xs - (if mem s pd (PDX va) = 0 then 1 else 0) \<le> length (libres_insertada pd pp va xs s)"
  by (simp add: libres_insertada_def libres_quitada_def libres_tabla_def Let_def)


text \<open>The part of a directory above the user's.\<close>

lemma vm_alta:
  assumes ok: "vm_ok s P xs" and pd: "pd \<in> P" and d: "NU \<le> d"
  shows "vm_ok (poke (pd, d) v s) P xs" and "r \<in> ranuras P \<Longrightarrow> ent (poke (pd, d) v s) r = ent s r"
    and "datos (poke (pd, d) v s) P xs f = datos s P xs f"
proof -
  let ?u = "poke (pd, d) v s"
  have m: "mem ?u p i = mem s p i" if "p \<noteq> pd \<or> i < NU" for p i
    using that d by (auto simp: mem_poke)
  have pds: "pdes ?u P = pdes s P" by (auto simp: pdes_def m)
  have te: "tabla_en ?u q = tabla_en s q" if "q \<in> pdes s P" for q
    using that by (auto simp: pdes_def tabla_en_def m)
  have img: "tabla_en ?u ` pdes ?u P = tabla_en s ` pdes s P"
    unfolding pds by (rule image_cong [OF refl te])
  have inj: "inj_on (tabla_en ?u) (pdes ?u P)"
    unfolding pds using vm_okD(5) [OF ok] by (subst inj_on_cong [where g = "tabla_en s"]) (auto simp: te)
  show ent: "ent ?u r = ent s r" if r: "r \<in> ranuras P" for r
  proof -
    obtain p i j where e: "r = (p, i, j)" "p \<in> P" "i < NU" using r by (cases r) (auto simp: ranuras_def)
    show ?thesis
    proof (cases "mem s p i = 0")
      case False
      then have "(p, i) \<in> pdes s P" using e by (simp add: pdes_def)
      then have "tabla_en s (p, i) \<noteq> pd" using vm_okD(4) [OF ok] pd by auto
      then show ?thesis using e m by (simp add: ent_def tabla_en_def)
    qed (use e m in \<open>simp add: ent_def\<close>)
  qed
  have us: "usos ?u P f = usos s P f" for f using ent by (auto simp: usos_def)
  show "vm_ok ?u P xs"
    unfolding vm_ok_def img us npages_upds pages_upds using vm_okD [OF ok] inj ent by simp
  show "datos ?u P xs f = datos s P xs f" by (simp add: datos_def img)
qed


section \<open>Allocating\<close>

definition reservada :: "nat \<Rightarrow> kst \<Rightarrow> kst" where
  "reservada x s = memset0 x (sin_primera x s)"

lemma reservada_simps [simp]: "npages (reservada x s) = npages s" "solo_vm s (reservada x s)"
  unfolding reservada_def by simp (meson solo_vm_pasos solo_vm_trans)

lemma reservada_mem: "mem (reservada x s) f i = (if f = x \<and> i < 1024 then 0 else mem s f i)"
  by (simp add: reservada_def memset0_def)

lemma reservada_ok:
  assumes ok: "vm_ok s P (x # xs)"
  shows "page_alloc True s = Inr (Some x, reservada x s)" and "vm_ok (reservada x s) P xs"
    and "datos (reservada x s) P xs x" and "pp_ref (pages (reservada x s) ! x) = 0"
    and "r \<in> ranuras P \<Longrightarrow> ent (reservada x s) r = ent s r"
    and "p \<in> P \<Longrightarrow> mem (reservada x s) p = mem s p"
    and "datos s P (x # xs) g \<Longrightarrow> datos (reservada x s) P xs g \<and> mem (reservada x s) g = mem s g \<and>
      pp_ref (pages (reservada x s) ! g) = pp_ref (pages s ! g)"
proof -
  note D = vm_okD [OF ok]
  note L = libres_okD [OF D(1)]
  have x: "x < npages s" "x \<notin> P" "x \<notin> tabla_en s ` pdes s P" "x \<notin> set xs" "pp_ref (pages s ! x) = 0"
    using D(3,4) L by auto
  let ?u = "reservada x s"
  show "page_alloc True s = Inr (Some x, ?u)"
    using page_alloc_primera [OF D(1)] by (simp add: reservada_def)
  have m: "mem ?u f = mem s f" if "f \<noteq> x" for f
    using that by (auto simp: reservada_def memset0_def)
  show mP: "mem ?u p = mem s p" if "p \<in> P" for p
    by (rule m) (use that x in auto)
  have pd: "pdes ?u P = pdes s P" by (auto simp: pdes_def mP)
  have te: "tabla_en ?u q = tabla_en s q" if "q \<in> pdes s P" for q
    using that by (auto simp: pdes_def tabla_en_def mP)
  have img: "tabla_en ?u ` pdes ?u P = tabla_en s ` pdes s P"
    unfolding pd by (rule image_cong [OF refl te])
  have inj: "inj_on (tabla_en ?u) (pdes ?u P)"
    unfolding pd using D(5) by (subst inj_on_cong [where g = "tabla_en s"]) (auto simp: te)
  show ent: "ent ?u r = ent s r" if r: "r \<in> ranuras P" for r
  proof -
    obtain p d j where e: "r = (p, d, j)" "p \<in> P" "d < NU" using r by (cases r) (auto simp: ranuras_def)
    show ?thesis
    proof (cases "mem s p d = 0")
      case False
      then have "(p, d) \<in> pdes s P" using e by (simp add: pdes_def)
      then have "tabla_en s (p, d) \<noteq> x" using x(3) by blast
      then have "mem ?u (PGNUM (mem s p d)) = mem s (PGNUM (mem s p d))"
        by (intro m) (simp add: tabla_en_def)
      then show ?thesis using e mP by (simp add: ent_def)
    qed (use e mP in \<open>simp add: ent_def\<close>)
  qed
  have us: "usos ?u P f = usos s P f" for f using ent by (auto simp: usos_def)
  have pg: "pp_ref (pages ?u ! f) = pp_ref (pages s ! f)" for f
    by (cases "f = x") (simp_all add: reservada_def memset0_def sin_primera_def upd_page_def nth_upd)
  show "pp_ref (pages ?u ! x) = 0" using x(5) pg by simp
  show "datos ?u P xs x" using x by (simp add: datos_def img)
  show "datos ?u P xs g \<and> mem ?u g = mem s g \<and> pp_ref (pages ?u ! g) = pp_ref (pages s ! g)"
    if "datos s P (x # xs) g"
    using that m [of g] pg by (simp add: datos_def img)
  have lib: "libres_ok ?u xs" using libres_sin_primera [OF D(1)] by (simp add: reservada_def)
  show "vm_ok ?u P xs"
    unfolding vm_ok_def img us pg using lib D(2,3,4,6,7) inj ent by auto
qed


section \<open>The page calls\<close>

definition va_ok :: "32 word \<Rightarrow> bool" where "va_ok va \<longleftrightarrow> va < UTOP \<and> va mod PGSIZE = 0"

lemma va_ok_buena: "va_ok va \<Longrightarrow> \<not> va_mala va" "va_ok va \<Longrightarrow> PDX va < NU"
  by (auto simp: va_ok_def va_mala_def PDX_user)

text \<open>\<open>eid\<close> names \<open>e\<close> for the running environment.\<close>

definition nombra :: "kst \<Rightarrow> 32 word \<Rightarrow> nat \<Rightarrow> bool" where
  "nombra s eid e \<longleftrightarrow> envid2env eid True s = Inr ((0, Some e), s)"

lemma nombra_0: "curenv s = Some c \<Longrightarrow> nombra s 0 c"
  by (simp add: nombra_def envid2env_def)

lemma sys_page_alloc_ok:
  assumes ok: "vm_ok s P (x # xs)" and e: "nombra s eid e" "env_pgdir (envs s ! e) = Some pd" "pd \<in> P"
    and va: "va_ok va" and cabe: "mem s pd (PDX va) \<noteq> 0 \<or> xs \<noteq> []"
    and perm: "(perm OR PTE_U OR PTE_P) AND NOT PTE_SYSCALL = 0"
  shows "sys_page_alloc eid va perm s = Inr (0, insertada pd x va (perm OR PTE_U OR PTE_P) xs (reservada x s))"
proof -
  let ?p = "perm OR PTE_U OR PTE_P"
  note R = reservada_ok [OF ok]
  have bits: "?p AND PTE_P \<noteq> 0" "?p AND PTE_U \<noteq> 0"
  proof -
    have "?p AND PTE_P = PTE_P" "?p AND PTE_U = PTE_U"
      by (rule bit_word_eqI, auto simp: bit_simps)+
    then show "?p AND PTE_P \<noteq> 0" "?p AND PTE_U \<noteq> 0" by (simp_all add: permisos)
  qed
  have cp: "check_perm ?p None = 0" using perm bits by (simp add: check_perm_def)
  have "page_insert pd x va ?p (reservada x s) = Inr (0, insertada pd x va ?p xs (reservada x s))"
    using R(6) [OF e(3)] cabe
    by (intro insertada_ok(1) [OF R(2) e(3) va_ok_buena(2) [OF va] _ R(3)]) (simp_all add: R(4))
  moreover have "envs (reservada x s) = envs s" using reservada_simps(2) [of s x] by (simp add: solo_vm_def)
  ultimately show ?thesis
    using e(1,2) va_ok_buena(1) [OF va] R(1) cp
    by (simp add: sys_page_alloc_def nombra_def env_page_alloc_def con_env_def con_pgdir_def)
qed

lemma sys_page_map_ok:
  assumes ok: "vm_ok s P xs" and src: "nombra s srcid se" "env_pgdir (envs s ! se) = Some ps" "ps \<in> P"
    and dst: "nombra s dstid de" "env_pgdir (envs s ! de) = Some pt" "pt \<in> P"
    and va: "va_ok srcva" "va_ok dstva" and hay: "ent s (ranura_va ps srcva) \<noteq> 0"
    and w: "perm AND PTE_W = PTE_W \<Longrightarrow> ent s (ranura_va ps srcva) AND PTE_W = PTE_W"
    and cabe: "mem s pt (PDX dstva) \<noteq> 0 \<or> xs \<noteq> []"
    and ref: "unat (pp_ref (pages s ! PGNUM (ent s (ranura_va ps srcva)))) < 65535"
  shows "sys_page_map srcid srcva dstid dstva perm s =
    Inr (0, insertada pt (PGNUM (ent s (ranura_va ps srcva))) dstva (PTE_P OR PTE_U OR perm) xs s)"
proof -
  let ?e = "ent s (ranura_va ps srcva)" and ?perm = "PTE_P OR PTE_U OR perm"
  note sva = va_ok_buena(2) [OF va(1)] and dva = va_ok_buena(2) [OF va(2)]
  have pde: "mem s ps (PDX srcva) \<noteq> 0" using hay by (auto simp: ent_def ranura_va_def)
  have pk: "peek s (tabla_en s (ps, PDX srcva), PTX srcva) = ?e"
    using pde by (simp add: peek_def tabla_en_def ent_def ranura_va_def)
  have wbit: "?perm AND PTE_W = perm AND PTE_W"
    by (simp add: word_ao_dist permisos)
  have w2: "(?perm AND PTE_W) AND NOT (PTE_W AND ?e) = 0"
  proof (cases "perm AND PTE_W = PTE_W")
    case True
    then have "PTE_W AND ?e = PTE_W" using w by (simp add: and.commute)
    then show ?thesis by (simp only:) (rule bit_word_eqI, auto simp: bit_simps)
  next
    case False
    have "perm AND PTE_W = 0"
    proof (rule bit_word_eqI)
      fix n assume "n < LENGTH(32)"
      have "bit (perm AND PTE_W) n \<longleftrightarrow> n = 1 \<and> bit perm 1"
        using \<open>n < LENGTH(32)\<close> by (auto simp: PTE_W_def bit_and_iff bit_2_iff)
      moreover have "\<not> bit perm 1"
      proof
        assume "bit perm 1"
        then have "perm AND PTE_W = PTE_W"
          by (intro bit_word_eqI) (auto simp: PTE_W_def bit_and_iff bit_2_iff)
        with False show False ..
      qed
      ultimately show "bit (perm AND PTE_W) n = bit (0 :: 32 word) n" by simp
    qed
    then show ?thesis unfolding wbit by simp
  qed
  have "env_page_map se srcva de dstva ?perm s = Inr (0, insertada pt (PGNUM ?e) dstva ?perm xs s)"
    using page_lookup_ok [OF ok src(3) sva] hay pk w2 src(2) dst(2)
      insertada_ok(1) [OF ok dst(3) dva cabe datos_ent [OF ok ranura_in [OF src(3) sva] hay] ref, of ?perm]
    by (simp add: env_page_map_def con_pgdir_def)
  then show ?thesis
    using src(1) dst(1) va_ok_buena(1) va by (simp add: sys_page_map_def nombra_def con_env_def)
qed

lemma sys_page_unmap_ok:
  assumes ok: "vm_ok s P xs" and e: "nombra s eid e" "env_pgdir (envs s ! e) = Some pd" "pd \<in> P"
    and va: "va_ok va"
  shows "sys_page_unmap eid va s = Inr (0, quitada pd va s)"
  using e va_ok_buena [OF va] quitada_ok(1) [OF ok e(3) va_ok_buena(2) [OF va]]
  by (simp add: sys_page_unmap_def nombra_def con_env_def con_pgdir_def)

end
