(* ===== verification/Kern_Trap_Contrato.thy ===== *)
theory Kern_Trap_Contrato
  imports Kern_Trap Kern_Mem_Contrato
begin

text \<open>
  What the entry to the kernel promises: how a page fault reaches the program's handler, what happens when
  its exception stack is full, and which gates a program can use.
\<close>

section \<open>Bytes in a page\<close>

lemma bit_0xFF: "bit (0xFF :: 32 word) k \<longleftrightarrow> k < 8"
proof -
  have "(0xFF :: 32 word) = mask 8" by (simp add: mask_eq_exp_minus_1)
  then show ?thesis by (simp only: bit_mask_iff) (auto simp: exp_eq_zero_iff)
qed

lemma bit_pon_byte:
  "j < 4 \<Longrightarrow> n < 32 \<Longrightarrow> bit (pon_byte j b w) n =
     (if 8 * j \<le> n \<and> n < 8 * j + 8 then bit b (n - 8 * j) else bit w n)"
  unfolding pon_byte_def bit_or_iff bit_and_iff bit_not_iff bit_push_bit_iff bit_0xFF
  by (auto simp: bit_simps dest: bit_imp_le_length)

lemma byte_pon_byte:
  assumes "i < 4" and "j < 4"
  shows "byte_de i (pon_byte j b w) = (if i = j then b else byte_de i w)"
proof (rule bit_word_eqI)
  fix n :: nat
  assume n: "n < LENGTH(8)"
  then have "8 * j \<le> 8 * i + n \<and> 8 * i + n < 8 * j + 8 \<longleftrightarrow> i = j" "8 * i + n < 32" using assms by auto
  then show "bit (byte_de i (pon_byte j b w)) n = bit (if i = j then b else byte_de i w) n"
    using n assms by (simp add: byte_de_def bit_unsigned_iff bit_drop_bit_eq bit_pon_byte)
qed

text \<open>A byte of a frame, by its offset.\<close>

definition byte_mem :: "kst \<Rightarrow> nat \<Rightarrow> nat \<Rightarrow> 8 word" where
  "byte_mem s f k = byte_de (k mod 4) (mem s f (k div 4))"


lemma byte_mem_poke:
  "byte_mem (poke (f, k div 4) (pon_byte (k mod 4) b (mem s f (k div 4))) s) g j =
     (if g = f \<and> j = k then b else byte_mem s g j)"
proof (cases "g = f \<and> j div 4 = k div 4")
  case True
  then have "j mod 4 = k mod 4 \<longleftrightarrow> j = k" by (metis div_mult_mod_eq)
  then show ?thesis using True by (simp add: byte_mem_def mem_poke byte_pon_byte)
next
  case False
  then show ?thesis by (auto simp: byte_mem_def mem_poke)
qed

text \<open>
  A page \<open>f\<close> of the running address space that is neither its directory nor the table that maps it, at
  the page-aligned address \<open>base\<close>.
\<close>

definition pagina_en :: "kst \<Rightarrow> 32 word \<Rightarrow> nat \<Rightarrow> bool" where
  "pagina_en s base f \<longleftrightarrow> (\<forall>k<4096. traduce s (base + of_nat k) = Some (f, k)) \<and>
     f \<noteq> cr3 s \<and> f \<noteq> PGNUM (mem s (cr3 s) (PDX base)) \<and> (\<forall>k<4096. PDX (base + of_nat k) = PDX base)"

lemma pagina_en_poke:
  assumes "pagina_en s base f"
  shows "pagina_en (poke (f, i) v s) base f"
proof -
  have "traduce (poke (f, i) v s) (base + of_nat k) = traduce s (base + of_nat k)" if "k < 4096" for k
    using assms that by (simp add: pagina_en_def traduce_def mem_poke poke_def)
  then show ?thesis using assms by (simp add: pagina_en_def mem_poke) (simp add: poke_def)
qed

lemma escribe_bytes_pagina:
  assumes "pagina_en s base f" and "off + length bs \<le> 4096"
  shows "\<exists>m. escribe_bytes (base + of_nat off) bs s = Inr ((), s\<lparr>mem := m\<rparr>) \<and>
    pagina_en (s\<lparr>mem := m\<rparr>) base f \<and>
    (\<forall>k. byte_mem (s\<lparr>mem := m\<rparr>) f k =
       (if off \<le> k \<and> k < off + length bs then bs ! (k - off) else byte_mem s f k)) \<and>
    (\<forall>g. g \<noteq> f \<longrightarrow> m g = mem s g)"
  using assms
proof (induction bs arbitrary: s off)
  case Nil
  then show ?case by (intro exI [of _ "mem s"]) auto
next
  case (Cons b bs)
  let ?s = "poke (f, off div 4) (pon_byte (off mod 4) b (mem s f (off div 4))) s"
  have tr: "traduce s (base + of_nat off) = Some (f, off)"
    using Cons.prems by (simp add: pagina_en_def)
  have e: "escribe_byte (base + of_nat off) b s = Inr ((), ?s)" by (simp add: escribe_byte_def tr)
  have sig: "base + of_nat off + 1 = base + of_nat (Suc off)" by simp
  from Cons.IH [OF pagina_en_poke [OF Cons.prems(1)], of "Suc off" "off div 4"
      "pon_byte (off mod 4) b (mem s f (off div 4))"] Cons.prems(2)
  obtain m where m: "escribe_bytes (base + of_nat (Suc off)) bs ?s = Inr ((), ?s\<lparr>mem := m\<rparr>)"
    "pagina_en (?s\<lparr>mem := m\<rparr>) base f"
    "\<forall>k. byte_mem (?s\<lparr>mem := m\<rparr>) f k =
       (if Suc off \<le> k \<and> k < Suc off + length bs then bs ! (k - Suc off) else byte_mem ?s f k)"
    "\<forall>g. g \<noteq> f \<longrightarrow> m g = mem ?s g"
    by auto
  have s: "?s\<lparr>mem := m\<rparr> = s\<lparr>mem := m\<rparr>" by (simp add: poke_def)
  have "byte_mem (s\<lparr>mem := m\<rparr>) f k =
      (if off \<le> k \<and> k < off + length (b # bs) then (b # bs) ! (k - off) else byte_mem s f k)" for k
    using m(3) [unfolded s] byte_mem_poke [of f off b s f k]
    by (auto simp: nth_Cons' simp del: of_nat_Suc)
  moreover have "\<forall>g. g \<noteq> f \<longrightarrow> m g = mem s g" using m(4) by (simp add: poke_def)
  moreover have "escribe_bytes (base + of_nat off) (b # bs) s = Inr ((), s\<lparr>mem := m\<rparr>)"
    using m(1) by (simp add: e sig s del: of_nat_Suc)
  ultimately show ?case using m(2) unfolding s by blast
qed



section \<open>The exception stack\<close>

abbreviation exstk :: "32 word" where "exstk \<equiv> UXSTACKTOP - PGSIZE"

lemma exstk_val: "exstk = 0xEEBFF000" "UXSTACKTOP - 1 = exstk + 4095" "exstk < UTOP"
  by (simp_all add: UXSTACKTOP_def UTOP_val PGSIZE_def)

lemma unat_exstk: "k < 4096 \<Longrightarrow> unat (exstk + of_nat k) = 0xEEBFF000 + k"
  unfolding exstk_val(1) by (simp add: unat_word_ariths unat_of_nat take_bit_eq_mod)

lemma and_FFF: "unat (w AND 0xFFF :: 32 word) = unat w mod 4096"
proof -
  have "w AND 0xFFF = take_bit 12 w" by (simp add: take_bit_eq_mask mask_eq_exp_minus_1)
  then show ?thesis by (simp add: unsigned_take_bit_eq take_bit_eq_mod unat_mod)
qed

lemma exstk_pagina:
  assumes "k < 4096"
  shows "PDX (exstk + of_nat k) = PDX exstk" "PTX (exstk + of_nat k) = PTX exstk"
    "unat ((exstk + of_nat k) AND 0xFFF) = k"
proof -
  have "PGNUM (exstk + of_nat k) = PGNUM exstk"
    unfolding PGNUM_eq unat_exstk [OF assms] using unat_exstk [of 0] assms by simp
  then show "PDX (exstk + of_nat k) = PDX exstk" "PTX (exstk + of_nat k) = PTX exstk"
    unfolding PDX_PGNUM PTX_PGNUM by simp_all
  show "unat ((exstk + of_nat k) AND 0xFFF) = k"
  proof -
    have e: "0xEEBFF000 + k = k + 977919 * 4096" by simp
    show ?thesis
      unfolding and_FFF unat_exstk [OF assms] e mod_mult_self1 using assms by simp
  qed
qed

lemma bits_sub: "w AND (a OR b) = a OR b \<Longrightarrow> w AND a = a" for w a b :: "32 word"
proof -
  assume h: "w AND (a OR b) = a OR b"
  have a: "(a OR b) AND a = a" by (rule bit_word_eqI) (auto simp: bit_simps)
  have "w AND a = w AND ((a OR b) AND a)" by (simp only: a)
  also have "\<dots> = (w AND (a OR b)) AND a" by (simp only: and.assoc)
  also have "\<dots> = a" by (simp only: h a)
  finally show ?thesis .
qed

text \<open>
  A program \<open>c\<close> with a handler, running in its own address space, with the user's permission to write
  the page of its exception stack, whose table the processor may write through.
\<close>

definition con_manejador :: "kst \<Rightarrow> nat set \<Rightarrow> nat \<Rightarrow> nat \<Rightarrow> nat \<Rightarrow> bool" where
  "con_manejador s P c pd f \<longleftrightarrow>
     curenv s = Some c \<and> c < length (envs s) \<and> env_pgfault_upcall (envs s ! c) \<noteq> 0 \<and>
     env_pgdir (envs s ! c) = Some pd \<and> pd \<in> P \<and> cr3 s = pd \<and>
     mem s pd (PDX exstk) AND (PTE_P OR PTE_W) = PTE_P OR PTE_W \<and>
     ent s (ranura_va pd exstk) AND (PTE_P OR PTE_W OR PTE_U) = PTE_P OR PTE_W OR PTE_U \<and>
     PGNUM (ent s (ranura_va pd exstk)) = f"

lemma con_manejador_pagina:
  assumes "vm_ok s P xs" and "con_manejador s P c pd f"
  shows "pagina_en s exstk f"
proof -
  let ?e = "ent s (ranura_va pd exstk)"
  note C = assms(2) [unfolded con_manejador_def]
  have pde: "mem s pd (PDX exstk) \<noteq> 0" using C by (auto simp: permisos)
  have e: "?e = mem s (PGNUM (mem s pd (PDX exstk))) (PTX exstk)"
    using pde by (simp add: ent_def ranura_va_def)
  have nz: "?e \<noteq> 0" using C by (auto simp: permisos)
  have pw: "?e AND (PTE_P OR PTE_W) = PTE_P OR PTE_W"
    using C bits_sub [of ?e "PTE_P OR PTE_W" PTE_U] by (simp add: or.assoc)
  have in': "ranura_va pd exstk \<in> ranuras P" using C ranura_in PDX_user [OF exstk_val(3)] by blast
  have q: "(pd, PDX exstk) \<in> pdes s P" using C pde PDX_user [OF exstk_val(3)] by (simp add: pdes_def)
  have "f \<notin> P" "f \<notin> tabla_en s ` pdes s P" using vm_okD(6) [OF assms(1) in' nz] C by auto
  then have "f \<noteq> pd" "f \<noteq> PGNUM (mem s pd (PDX exstk))"
    using C imageI [OF q, of "tabla_en s"] unfolding tabla_en_def fst_conv snd_conv by blast+
  moreover have "traduce s (exstk + of_nat k) = Some (f, k)" if "k < 4096" for k
    using C pw e exstk_pagina [OF that] by (simp add: traduce_def Let_def)
  ultimately show ?thesis using C exstk_pagina(1) by (simp add: pagina_en_def)
qed


lemma assert_exstk:
  assumes "vm_ok s P xs" and "con_manejador s P c pd f"
  shows "user_mem_assert c exstk PGSIZE (PTE_U OR PTE_W) s = Inr ((), s)"
proof -
  note C = assms(2) [unfolded con_manejador_def]
  have pg: "PGNUM exstk = 977919" "(unat exstk + unat PGSIZE + 4095) div 4096 = 977920"
    unfolding PGNUM_eq exstk_val(1) by (simp_all add: PGSIZE_def)
  have "unat exstk + unat PGSIZE \<le> unat UTOP" unfolding exstk_val(1) by (simp add: UTOP_val PGSIZE_def)
  note chk = user_mem_check_dentro [OF assms(1) _ _ this, of pd c "(PTE_U OR PTE_W) OR PTE_U", unfolded pg]
  have perm: "((PTE_U OR PTE_W) OR PTE_U) OR PTE_P = PTE_P OR PTE_W OR PTE_U" by (simp add: permisos)
  have "\<not> falta s pd ((PTE_U OR PTE_W) OR PTE_U) 977919"
    using C by (simp add: falta_def perm ent_ranura pg)
  then have "user_mem_check c exstk PGSIZE ((PTE_U OR PTE_W) OR PTE_U) s = Inr (0, s)"
    using chk C by simp
  then show ?thesis by (simp add: user_mem_assert_def)
qed

lemma length_bytes_de: "length (bytes_de ws) = 4 * length ws"
  by (induction ws) (simp_all add: bytes_de_def)

lemma length_utf: "length (bytes_de (palabras_utf u)) = 52"
  by (simp add: length_bytes_de palabras_utf_def palabras_regs_def)

lemma exstk_entre: "j < 4096 \<Longrightarrow> \<not> exstk + of_nat j < exstk \<and> \<not> UXSTACKTOP - 1 < exstk + of_nat j"
  using unat_exstk [of 0] unat_exstk [of 4095] unat_exstk [of j]
  by (simp add: word_less_nat_alt exstk_val(2))

text \<open>The handler, once the page has passed the check.\<close>

lemma page_fault_handler_exstk:
  assumes "vm_ok s P xs" and "con_manejador s P c pd f" and "tf_cs tf AND 3 \<noteq> 0"
  shows "page_fault_handler fva tf s = and_then
    (if tf_esp tf < exstk \<or> UXSTACKTOP - 1 < tf_esp tf then Inr (UXSTACKTOP - 1 - 52, s)
     else and_then (escribe_bytes (tf_esp tf - 4) (bytes_de [0]) s) (\<lambda>(_, s). Inr (tf_esp tf - 4 - 52, s)))
    (\<lambda>(tmp, s). and_then (escribe_bytes tmp (bytes_de (palabras_utf (utf_de fva tf))) s) (\<lambda>(_, s).
      if tmp < exstk \<or> UXSTACKTOP - 1 < tmp
      then Inl (Panico ''page_fault_handler: exception stack overflow'')
      else Inl (env_run c (upd_env c (\<lambda>v. v\<lparr>env_tf := (env_tf v)\<lparr>
             tf_esp := tmp, tf_eip := env_pgfault_upcall v\<rparr>\<rparr>) s))))"
  using assms(2,3) assert_exstk [OF assms(1,2)]
  by (simp add: page_fault_handler_def con_manejador_def con_env_def Let_def utf_de_def)


lemma env_run_mismo:
  assumes "curenv s = Some c" and "c < length (envs s)" and "env_pgdir (envs s ! c) = Some pd"
  shows "\<exists>t. env_run c s = Corre c t \<and> curenv t = Some c \<and> mem t = mem s \<and> cr3 t = pd \<and>
    env_tf (envs t ! c) = env_tf (envs s ! c) \<and> env_status (envs t ! c) = ENV_RUNNING \<and>
    (\<forall>e. e \<noteq> c \<longrightarrow> envs t ! e = envs s ! e)"
  using assms by (auto simp: env_run_def env_load_pgdir_def Let_def upd_env_def nth_upd split: if_splits)

text \<open>
  \<open>hueco tf d\<close>: from the stack pointer of \<open>tf\<close> the frame goes to offset \<open>d\<close> of the exception stack, the
  first one to 4043, the next ones 56 bytes below the frame that faulted.
\<close>

definition hueco :: "trapframe \<Rightarrow> nat \<Rightarrow> bool" where
  "hueco tf d \<longleftrightarrow>
     (if tf_esp tf < exstk \<or> UXSTACKTOP - 1 < tf_esp tf then d = 4043
      else d + 56 < 4096 \<and> tf_esp tf = exstk + of_nat (d + 56))"

lemma monta_marco:
  assumes "vm_ok s P xs" and "con_manejador s P c pd f" and "tf_cs tf AND 3 \<noteq> 0" and "hueco tf d"
  shows "\<exists>m. page_fault_handler fva tf s =
      Inl (env_run c (upd_env c (\<lambda>v. v\<lparr>env_tf := (env_tf v)\<lparr>
             tf_esp := exstk + of_nat d, tf_eip := env_pgfault_upcall v\<rparr>\<rparr>) (s\<lparr>mem := m\<rparr>))) \<and>
    (\<forall>k<52. byte_mem (s\<lparr>mem := m\<rparr>) f (d + k) = bytes_de (palabras_utf (utf_de fva tf)) ! k) \<and>
    (\<forall>k. k < d \<or> d + 56 \<le> k \<longrightarrow> byte_mem (s\<lparr>mem := m\<rparr>) f k = byte_mem s f k) \<and>
    (\<forall>g. g \<noteq> f \<longrightarrow> m g = mem s g)"
proof (cases "tf_esp tf < exstk \<or> UXSTACKTOP - 1 < tf_esp tf")
  case True
  with assms(4) have d: "d = 4043" by (simp add: hueco_def)
  have a: "UXSTACKTOP - 1 - 52 = exstk + of_nat d" by (simp add: d UXSTACKTOP_def PGSIZE_def)
  obtain m where m: "escribe_bytes (exstk + of_nat d) (bytes_de (palabras_utf (utf_de fva tf))) s = Inr ((), s\<lparr>mem := m\<rparr>)"
    "\<forall>k. byte_mem (s\<lparr>mem := m\<rparr>) f k =
       (if d \<le> k \<and> k < d + 52 then bytes_de (palabras_utf (utf_de fva tf)) ! (k - d) else byte_mem s f k)"
    "\<forall>g. g \<noteq> f \<longrightarrow> m g = mem s g"
    using escribe_bytes_pagina [OF con_manejador_pagina [OF assms(1,2)], of d
        "bytes_de (palabras_utf (utf_de fva tf))"] d
    by (auto simp: length_utf)
  have ov: "\<not> (exstk + of_nat d < exstk \<or> UXSTACKTOP - 1 < exstk + of_nat d)"
    using exstk_entre [of d] d by simp
  from True m(1) ov have "page_fault_handler fva tf s =
      Inl (env_run c (upd_env c (\<lambda>v. v\<lparr>env_tf := (env_tf v)\<lparr>
             tf_esp := exstk + of_nat d, tf_eip := env_pgfault_upcall v\<rparr>\<rparr>) (s\<lparr>mem := m\<rparr>)))"
    unfolding page_fault_handler_exstk [OF assms(1-3)] a by simp
  with m(2,3) show ?thesis by (intro exI [of _ m]) auto
next
  case False
  with assms(4) have d: "d + 56 < 4096" "tf_esp tf = exstk + of_nat (d + 56)" by (simp_all add: hueco_def)
  have a: "tf_esp tf - 4 = exstk + of_nat (d + 52)" "exstk + of_nat (d + 52) - 52 = exstk + of_nat d"
    by (simp_all add: d(2))
  obtain m where m: "escribe_bytes (exstk + of_nat (d + 52)) (bytes_de [0]) s = Inr ((), s\<lparr>mem := m\<rparr>)"
    "pagina_en (s\<lparr>mem := m\<rparr>) exstk f"
    "\<forall>k. byte_mem (s\<lparr>mem := m\<rparr>) f k =
       (if d + 52 \<le> k \<and> k < d + 52 + 4 then bytes_de [0] ! (k - (d + 52)) else byte_mem s f k)"
    "\<forall>g. g \<noteq> f \<longrightarrow> m g = mem s g"
    using escribe_bytes_pagina [OF con_manejador_pagina [OF assms(1,2)], of "d + 52" "bytes_de [0]"] d
    by (auto simp: length_bytes_de)
  obtain n where n: "escribe_bytes (exstk + of_nat d) (bytes_de (palabras_utf (utf_de fva tf))) (s\<lparr>mem := m\<rparr>)
      = Inr ((), s\<lparr>mem := n\<rparr>)"
    "\<forall>k. byte_mem (s\<lparr>mem := n\<rparr>) f k =
       (if d \<le> k \<and> k < d + 52 then bytes_de (palabras_utf (utf_de fva tf)) ! (k - d)
        else byte_mem (s\<lparr>mem := m\<rparr>) f k)"
    "\<forall>g. g \<noteq> f \<longrightarrow> n g = m g"
    using escribe_bytes_pagina [OF m(2), of d "bytes_de (palabras_utf (utf_de fva tf))"] d
    by (auto simp: length_utf)
  have ov: "\<not> (exstk + of_nat d < exstk \<or> UXSTACKTOP - 1 < exstk + of_nat d)"
    using exstk_entre [of d] d by simp
  have "page_fault_handler fva tf s =
      Inl (env_run c (upd_env c (\<lambda>v. v\<lparr>env_tf := (env_tf v)\<lparr>
             tf_esp := exstk + of_nat d, tf_eip := env_pgfault_upcall v\<rparr>\<rparr>) (s\<lparr>mem := n\<rparr>)))"
    unfolding page_fault_handler_exstk [OF assms(1-3)] a if_not_P [OF False] m(1)
      and_then.simps prod.case n(1) if_not_P [OF ov] ..
  with m(3,4) n(2,3) show ?thesis by (intro exI [of _ n]) auto
qed


text \<open>Environment 0 with a handler, page 4 its exception stack, and a frame that faulted on its stack.\<close>

definition tf_ej :: trapframe where
  "tf_ej = tf_vacio\<lparr>tf_trapno := 14, tf_err := 7, tf_eip := 0x800040, tf_cs := 0x1b, tf_esp := 0xEEBFDF00\<rparr>"

definition kst_pila :: "trapframe \<Rightarrow> kst" where
  "kst_pila tf = (kst_una 954 1023)\<lparr>envs := (replicate 1024 env_ej)[0 := env_ej\<lparr>env_id := 0x1000,
     env_status := ENV_RUNNING, env_pgdir := Some 1, env_pgfault_upcall := 0x800020, env_tf := tf\<rparr>]\<rparr>"

lemma kst_pila_ok:
  "vm_ok (kst_pila tf) {1} [3, 2]" "con_manejador (kst_pila tf) {1} 0 1 4"
  "env_tf (envs (kst_pila tf) ! 0) = tf" "env_pgfault_upcall (envs (kst_pila tf) ! 0) = 0x800020"
proof -
  have m: "mem (kst_pila tf) = mem (kst_una 954 1023)" by (simp add: kst_pila_def)
  have e: "ent (kst_pila tf) r = ent (kst_una 954 1023) r" for r using solo_mem(1) [OF m] by simp
  have "954 < NU" by (simp add: NU_val)
  then have "vm_ok (kst_una 954 1023) {1} [3, 2]" by (rule vm_una)
  then show "vm_ok (kst_pila tf) {1} [3, 2]"
    by (subst vm_cong [where s = "kst_una 954 1023"]) (simp_all add: kst_pila_def)
  have r: "PDX exstk = 954" "ranura_va 1 exstk = (1, 954, 1023)"
    by (simp_all add: exstk_val ranura_va_def PDX_div PTX_div)
  have pd: "mem (kst_pila tf) 1 954 = pde_de 5" unfolding m by (simp add: kst_una_mem del: One_nat_def)
  have "curenv (kst_pila tf) = Some 0" "cr3 (kst_pila tf) = 1"
    by (simp_all add: kst_pila_def kst_una_def kst_ej_def)
  then show "con_manejador (kst_pila tf) {1} 0 1 4"
    by (simp add: con_manejador_def r pd e kst_una_ent entrada_4 del: One_nat_def)
      (simp add: kst_pila_def page2pa_4 permisos pde_de_def page2pa_def push_bit_eq_mult)
qed (simp_all add: kst_pila_def)



section \<open>A full exception stack\<close>

lemma escribe_bytes_falla:
  "escribe_bytes va bs s = Inl e \<Longrightarrow> e = Panico ''page fault in kernel mode''"
proof (induction bs arbitrary: va s)
  case (Cons b bs)
  then show ?case by (auto simp: escribe_byte_def and_then_eq_Inl split: option.splits prod.splits)
qed simp

text \<open>
  C32: A program that faults with less than 56 bytes left in its exception stack does not only lose itself,
  as the comment on the function says it should: the frame is written before the bound is looked at,
  and either way the kernel panics.
\<close>

theorem desborde_pila_excepciones:
  assumes "vm_ok s P xs" and "con_manejador s P c pd f" and "tf_cs tf AND 3 \<noteq> 0"
    and "k < 56" and "tf_esp tf = exstk + of_nat k"
  shows "page_fault_handler fva tf s = Inl (Panico ''page fault in kernel mode'') \<or>
    page_fault_handler fva tf s = Inl (Panico ''page_fault_handler: exception stack overflow'')"
proof -
  have dentro: "\<not> (tf_esp tf < exstk \<or> UXSTACKTOP - 1 < tf_esp tf)"
    using exstk_entre [of k] assms(4,5) by simp
  define j where "j = 56 - k"
  have j: "0 < j" "j \<le> 56" "k + j = 56" using assms(4) by (simp_all add: j_def)
  have uj: "unat (of_nat j :: 32 word) = j" using j(2) by (simp add: unat_of_nat take_bit_eq_mod)
  have "unat (exstk - of_nat j) = 0xEEBFF000 - j"
    using unat_exstk [of 0] j(2) uj by (subst unat_sub) (simp_all add: word_le_nat_alt)
  then have "exstk - of_nat j < exstk"
    using unat_exstk [of 0] j(1) by (simp add: word_less_nat_alt)
  moreover have "tf_esp tf - 4 - 52 = exstk - of_nat j"
  proof -
    have "of_nat k + of_nat j = (56 :: 32 word)" unfolding of_nat_add [symmetric] j(3) by simp
    then show ?thesis unfolding assms(5) by (simp add: algebra_simps)
  qed
  ultimately have bajo: "tf_esp tf - 4 - 52 < exstk" by simp
  show ?thesis
  proof (cases "escribe_bytes (tf_esp tf - 4) (bytes_de [0]) s")
    case (Inl e)
    with escribe_bytes_falla [OF Inl] show ?thesis
      unfolding page_fault_handler_exstk [OF assms(1-3)] if_not_P [OF dentro] by simp
  next
    case (Inr r)
    let ?u = "snd r"
    show ?thesis
    proof (cases "escribe_bytes (tf_esp tf - 4 - 52) (bytes_de (palabras_utf (utf_de fva tf))) ?u")
      case W: (Inl e)
      with escribe_bytes_falla [OF W] show ?thesis
        unfolding page_fault_handler_exstk [OF assms(1-3)] if_not_P [OF dentro] Inr
          and_then.simps prod.case_eq_if fst_conv snd_conv by simp
    next
      case W: (Inr w)
      show ?thesis
        unfolding page_fault_handler_exstk [OF assms(1-3)] if_not_P [OF dentro] Inr
          and_then.simps prod.case_eq_if fst_conv snd_conv W if_P [OF disjI1 [OF bajo]] by simp
    qed
  qed
qed

theorem desborde_pila_excepciones_witness:
  "page_fault_handler 0 (tf_ej\<lparr>tf_esp := exstk + 20\<rparr>) (kst_pila tf_ej) = Inl (Panico ''page fault in kernel mode'') \<or>
   page_fault_handler 0 (tf_ej\<lparr>tf_esp := exstk + 20\<rparr>) (kst_pila tf_ej) =
     Inl (Panico ''page_fault_handler: exception stack overflow'')"
  by (rule desborde_pila_excepciones [OF kst_pila_ok(1,2), where k = 20]) (simp_all add: tf_ej_def)


section \<open>The gates\<close>

lemma trap_init_eq:
  "trap_init h idt n =
     (if n = 3 \<or> n = 48 then Some (SETGATE False GD_KT (h n) 3)
      else if n \<in> {0, 1, 2, 4, 5, 6, 7, 8, 10, 11, 12, 13, 14, 16, 17, 18, 19, 32}
      then Some (SETGATE False GD_KT (h n) 0) else idt n)"
  by (simp add: trap_init_def)

text \<open>
  C33: \<open>trap_init\<close> lets a program raise by itself, with the instruction \<open>int\<close>, only the breakpoint and the
  system call; every gate it sets enters the kernel's code segment at its own entry with interrupts off,
  and it leaves the rest of the table as it was.
\<close>

theorem trap_init_puertas:
  "case trap_init h (\<lambda>_. None) n of
     None \<Rightarrow> n \<in> {9, 15} \<union> {20..<32} \<union> {33..<48} \<union> {49..}
   | Some d \<Rightarrow> n \<in> {0..8} \<union> {10..14} \<union> {16..19} \<union> {32, 48} \<and>
       gd_sel d = GD_KT \<and> gd_type d = STS_IG32 \<and> gd_s d = 0 \<and> gd_p d = 1 \<and>
       ucast (gd_off_15_0 d) OR push_bit 16 (ucast (gd_off_31_16 d)) = h n \<and>
       (gd_dpl d = 3 \<longleftrightarrow> n = unat T_BRKPT \<or> n = unat T_SYSCALL)"
proof -
  have off: "ucast (ucast (w AND 0xFFFF) :: 16 word) OR push_bit 16 (ucast (ucast (drop_bit 16 w) :: 16 word)) = w"
    for w :: "32 word"
  proof (rule bit_word_eqI)
    fix n :: nat
    assume "n < LENGTH(32)"
    moreover have "bit (0xFFFF :: 32 word) n \<longleftrightarrow> n < 16"
    proof -
      have "(0xFFFF :: 32 word) = mask 16" by (simp add: mask_eq_exp_minus_1)
      then show ?thesis by (simp only: bit_mask_iff) (auto simp: exp_eq_zero_iff)
    qed
    ultimately show "bit (ucast (ucast (w AND 0xFFFF) :: 16 word) OR push_bit 16 (ucast (ucast (drop_bit 16 w) :: 16 word)) :: 32 word) n
        = bit w n"
      by (auto simp: bit_simps bit_and_iff)
  qed
  have dpl: "gd_dpl (SETGATE i sel w d) = d" for i sel w d by (simp add: SETGATE_def)
  consider "n \<in> {0, 1, 2, 4, 5, 6, 7, 8, 10, 11, 12, 13, 14, 16, 17, 18, 19, 32}" | "n = 3 \<or> n = 48" | "n \<notin> {3, 48}" "n \<notin> {0, 1, 2, 4, 5, 6, 7, 8, 10, 11, 12, 13, 14, 16, 17, 18, 19, 32}"
    by blast
  then show ?thesis
  proof cases
    case 1
    then have "trap_init h (\<lambda>_. None) n = Some (SETGATE False GD_KT (h n) 0)" unfolding trap_init_eq by auto
    with 1 show ?thesis by (simp add: dpl) (auto simp: SETGATE_def off T_BRKPT_def T_SYSCALL_def)
  next
    case 2
    then show ?thesis unfolding trap_init_eq by (auto simp: SETGATE_def off T_BRKPT_def T_SYSCALL_def)
  next
    case 3
    then have "trap_init h (\<lambda>_. None) n = None" unfolding trap_init_eq by auto
    moreover have "n \<in> {9, 15} \<union> {20..<32} \<union> {33..<48} \<union> {49..}" using 3 by (simp; presburger)
    ultimately show ?thesis by simp
  qed
qed


section \<open>The stacks of the processors\<close>

text \<open>
  The stack a trap on processor \<open>i\<close> starts from is the top of the stack \<open>mem_init_mp\<close> maps for \<open>i\<close>; two
  such stacks are at least a gap apart. The descriptor decodes to the task state of 104 bytes.
\<close>

definition cima_pila :: "nat \<Rightarrow> nat" where "cima_pila i = 0xF0000000 - i * 0x10000"

lemma pila_de_trap:
  assumes "i < 8"
  shows "unat (ts_esp0 (fst (trap_init_percpu (of_nat i) d ts gdt))) = cima_pila i"
    and "KSTACKTOP - of_nat i * (8 * PGSIZE + 8 * PGSIZE) - 8 * PGSIZE + KSTKSIZE =
      ts_esp0 (fst (trap_init_percpu (of_nat i) d ts gdt))"
proof -
  have u: "unat (of_nat i :: 8 word) = i" using assms by (simp add: unat_of_nat take_bit_eq_mod)
  have c: "ucast (of_nat i :: 8 word) = (of_nat i :: 32 word)"
    by (rule word_unat_eq_iff [THEN iffD2]) (use assms u in \<open>simp add: unsigned_ucast_eq unat_of_nat take_bit_eq_mod\<close>)
  show "unat (ts_esp0 (fst (trap_init_percpu (of_nat i) d ts gdt))) = cima_pila i"
    using assms
    by (simp add: trap_init_percpu_def Let_def c cima_pila_def KSTKGAP_def KSTKSIZE_def PGSIZE_def KSTACKTOP_def
        KERNBASE_def unat_sub_if' unat_word_ariths unat_of_nat take_bit_eq_mod)
  show "KSTACKTOP - of_nat i * (8 * PGSIZE + 8 * PGSIZE) - 8 * PGSIZE + KSTKSIZE =
      ts_esp0 (fst (trap_init_percpu (of_nat i) d ts gdt))"
    by (simp add: trap_init_percpu_def Let_def c KSTKGAP_def KSTKSIZE_def)
qed

lemma pilas_separadas:
  "i < 8 \<Longrightarrow> j < i \<Longrightarrow> cima_pila i + unat KSTKGAP \<le> cima_pila j - unat KSTKSIZE"
  by (simp add: cima_pila_def KSTKGAP_def KSTKSIZE_def PGSIZE_def)

end
