(* ===== verification/Kern_User_Contrato.thy ===== *)
theory Kern_User_Contrato
  imports Kern_User Kern_Inserta Kern_Trap_Contrato
begin

text \<open>
  What the user library does, over the whole way down: the instruction, the trap, the system call and the
  page tables.
\<close>

section \<open>A system call from a program\<close>

text \<open>A program \<open>c\<close> that runs in user mode with directory \<open>pd\<close>.\<close>

definition corriendo :: "kst \<Rightarrow> nat \<Rightarrow> nat \<Rightarrow> bool" where
  "corriendo s c pd \<longleftrightarrow> curenv s = Some c \<and> c < length (envs s) \<and>
     env_status (envs s ! c) = ENV_RUNNING \<and> env_pgdir (envs s ! c) = Some pd \<and> cr3 s = pd"

text \<open>
  What does not depend on memory: between \<open>s\<close> and \<open>t\<close> only the frame and the counts of \<open>c\<close> changed. Entering
  and leaving the kernel changes nothing else.
\<close>

definition lados :: "nat \<Rightarrow> kst \<Rightarrow> kst \<Rightarrow> bool" where
  "lados c s t \<longleftrightarrow> npages t = npages s \<and> kern_pgdir t = kern_pgdir s \<and>
     env_free_list t = env_free_list s \<and> curenv t = curenv s \<and>
     (\<exists>tf r n. envs t = (envs s)[c := (envs s ! c)\<lparr>env_tf := tf, env_runs := r, env_cpunum := n\<rparr>])"

definition cruce :: "nat \<Rightarrow> kst \<Rightarrow> kst \<Rightarrow> bool" where
  "cruce c s t \<longleftrightarrow> mem t = mem s \<and> pages t = pages s \<and> page_free_list t = page_free_list s \<and> lados c s t"

lemma lados_trans:
  assumes "lados c s t" and "lados c t u"
  shows "lados c s u"
proof -
  from assms obtain tf r n tf' r' n' where
    "envs t = (envs s)[c := (envs s ! c)\<lparr>env_tf := tf, env_runs := r, env_cpunum := n\<rparr>]"
    "envs u = (envs t)[c := (envs t ! c)\<lparr>env_tf := tf', env_runs := r', env_cpunum := n'\<rparr>]"
    unfolding lados_def by metis
  then have "envs u = (envs s)[c := (envs s ! c)\<lparr>env_tf := tf', env_runs := r', env_cpunum := n'\<rparr>]"
    by (cases "c < length (envs s)") (simp_all add: list_update_beyond)
  with assms show ?thesis unfolding lados_def by metis
qed

lemma cruce_trans: "cruce c s t \<Longrightarrow> cruce c t u \<Longrightarrow> cruce c s u"
  by (auto simp: cruce_def intro: lados_trans)

lemma cruce_lados: "cruce c s t \<Longrightarrow> lados c s t"
  by (simp add: cruce_def)

lemma solo_vm_lados: "solo_vm s t \<Longrightarrow> lados c s t"
proof -
  assume h: "solo_vm s t"
  have "envs s = (envs s)[c := (envs s ! c)\<lparr>env_tf := env_tf (envs s ! c), env_runs := env_runs (envs s ! c),
      env_cpunum := env_cpunum (envs s ! c)\<rparr>]"
    by simp
  with h have "\<exists>tf r n. envs t = (envs s)[c := (envs s ! c)\<lparr>env_tf := tf, env_runs := r, env_cpunum := n\<rparr>]"
    unfolding solo_vm_def by metis
  with h show ?thesis by (simp add: solo_vm_def lados_def)
qed

lemma lados_campos:
  assumes "lados c s t"
  shows "length (envs t) = length (envs s)" and "e \<noteq> c \<Longrightarrow> envs t ! e = envs s ! e"
    and "env_pgdir (envs t ! e) = env_pgdir (envs s ! e)" and "env_status (envs t ! e) = env_status (envs s ! e)"
    and "env_id (envs t ! e) = env_id (envs s ! e)" and "env_parent_id (envs t ! e) = env_parent_id (envs s ! e)"
    and "env_pgfault_upcall (envs t ! e) = env_pgfault_upcall (envs s ! e)"
    and "nombra t eid e = nombra s eid e" and "npages t = npages s" and "curenv t = curenv s"
proof -
  from assms obtain tf r n where
    e: "envs t = (envs s)[c := (envs s ! c)\<lparr>env_tf := tf, env_runs := r, env_cpunum := n\<rparr>]"
    unfolding lados_def by metis
  show "length (envs t) = length (envs s)" "e \<noteq> c \<Longrightarrow> envs t ! e = envs s ! e" by (simp_all add: e)
  have f: "env_pgdir (envs t ! e) = env_pgdir (envs s ! e)" "env_status (envs t ! e) = env_status (envs s ! e)"
    "env_id (envs t ! e) = env_id (envs s ! e)" "env_parent_id (envs t ! e) = env_parent_id (envs s ! e)"
    "env_pgfault_upcall (envs t ! e) = env_pgfault_upcall (envs s ! e)" for e
    by (simp_all add: e nth_upd)
  show "env_pgdir (envs t ! e) = env_pgdir (envs s ! e)" "env_status (envs t ! e) = env_status (envs s ! e)"
    "env_id (envs t ! e) = env_id (envs s ! e)" "env_parent_id (envs t ! e) = env_parent_id (envs s ! e)"
    "env_pgfault_upcall (envs t ! e) = env_pgfault_upcall (envs s ! e)" by (fact f)+
  show c: "curenv t = curenv s" "npages t = npages s" using assms by (simp_all add: lados_def)
  show "nombra t eid e = nombra s eid e"
    by (simp add: nombra_def envid2env_def f c Let_def split: option.split)
qed

lemma cruce_vm:
  assumes "cruce c s t"
  shows "vm_ok t P xs = vm_ok s P xs" and "ent t = ent s" and "datos t P xs f = datos s P xs f"
    and "mem t = mem s" and "pages t = pages s"
proof -
  have n: "npages t = npages s" "mem t = mem s" "pages t = pages s" "page_free_list t = page_free_list s"
    using assms by (simp_all add: cruce_def lados_def)
  show "vm_ok t P xs = vm_ok s P xs" by (rule vm_cong) (fact n)+
  show "ent t = ent s" by (rule solo_mem(1)) (fact n)
  show "datos t P xs f = datos s P xs f" by (rule datos_solo_mem) (fact n)+
  show "mem t = mem s" "pages t = pages s" by (fact n)+
qed

text \<open>The state in which the handler of a system call starts.\<close>

definition entrada :: "trapframe \<Rightarrow> nat \<Rightarrow> kst \<Rightarrow> kst" where
  "entrada tf c s = upd_env c (env_tf_update (\<lambda>_. tf)) (s\<lparr>cpu_status := CPU_STARTED, kernel_lock := True\<rparr>)"

lemma entrada_cruce: "cruce c s (entrada tf c s)"
  unfolding cruce_def lados_def entrada_def upd_env_def
  by (intro conjI exI [of _ tf] exI [of _ "env_runs (envs s ! c)"] exI [of _ "env_cpunum (envs s ! c)"])
    simp_all

lemma entrada_corriendo: "corriendo s c pd \<Longrightarrow> corriendo (entrada tf c s) c pd"
  by (simp add: corriendo_def entrada_def upd_env_def)

text \<open>Coming back to the environment that was running.\<close>

lemma env_run_cruce:
  assumes "curenv s = Some c" and "c < length (envs s)" and "env_status (envs s ! c) = ENV_RUNNING"
    and "env_pgdir (envs s ! c) = Some pd"
  shows "\<exists>t. env_run c s = Corre c t \<and> cruce c s t \<and> corriendo t c pd \<and>
    env_tf (envs t ! c) = env_tf (envs s ! c)"
proof -
  let ?v = "(envs s ! c)\<lparr>env_status := ENV_RUNNING, env_runs := env_runs (envs s ! c) + 1, env_cpunum := cpunum s\<rparr>"
  let ?t = "s\<lparr>curenv := Some c, envs := (envs s)[c := ?v], cr3 := pd, kernel_lock := False\<rparr>"
  have v: "?v = (envs s ! c)\<lparr>env_tf := env_tf (envs s ! c), env_runs := env_runs (envs s ! c) + 1, env_cpunum := cpunum s\<rparr>"
    using assms(3) by (cases "envs s ! c") simp
  have r: "env_run c s = Corre c ?t"
    using assms by (simp add: env_run_def env_load_pgdir_def upd_env_def)
  have "envs ?t = (envs s)[c := (envs s ! c)\<lparr>env_tf := env_tf (envs s ! c),
      env_runs := env_runs (envs s ! c) + 1, env_cpunum := cpunum s\<rparr>]"
    unfolding v [symmetric] by simp
  then have "\<exists>tf r n. envs ?t = (envs s)[c := (envs s ! c)\<lparr>env_tf := tf, env_runs := r, env_cpunum := n\<rparr>]"
    by (intro exI)
  then have "cruce c s ?t" unfolding cruce_def lados_def using assms(1) by simp
  moreover have "corriendo ?t c pd" using assms by (simp add: corriendo_def)
  ultimately show ?thesis using r assms(2) by (intro exI [of _ ?t]) simp
qed

lemma trap_llamada:
  assumes "tf_cs tf AND 3 = 3" and "curenv s = Some c" and "env_status (envs s ! c) \<noteq> ENV_DYING"
  shows "trap fva tf s = (case trap_dispatch fva (Some c) tf (entrada tf c s) of
    Inl f \<Rightarrow> f | Inr r \<Rightarrow> vuelve_o_cede (snd r))"
proof -
  have e: "upd_env c (env_tf_update (\<lambda>_. tf)) ((if b then s\<lparr>kernel_lock := True\<rparr> else s)
      \<lparr>cpu_status := CPU_STARTED, kernel_lock := True\<rparr>) = entrada tf c s" for b
    by (simp add: entrada_def upd_env_def)
  have c: "curenv ((if b then s\<lparr>kernel_lock := True\<rparr> else s)\<lparr>cpu_status := CPU_STARTED, kernel_lock := True\<rparr>) = Some c"
    "envs ((if b then s\<lparr>kernel_lock := True\<rparr> else s)\<lparr>cpu_status := CPU_STARTED, kernel_lock := True\<rparr>) = envs s" for b
    using assms(2) by simp_all
  show ?thesis
    unfolding trap_def Let_def c option.case if_P [OF assms(1)] if_not_P [OF assms(3)] e
    by (cases "trap_dispatch fva (Some c) tf (entrada tf c s)") (simp_all add: case_prod_unfold)
qed

lemma int_syscall_ok:
  assumes run: "corriendo (nucleo u) c pd" and cs: "tf_cs (registros u) AND 3 = 3"
    and call: "\<And>tf. \<exists>t. syscall num a1 a2 a3 a4 a5 (entrada tf c (nucleo u)) = Inr (ret, t) \<and>
      corriendo t c pd \<and> Q tf t"
  obtains t t' tf where "int_syscall num a1 a2 a3 a4 a5 u = Inr (sint (word_of_int ret :: 32 word), u\<lparr>nucleo := t'\<rparr>)"
    "Q tf t" "cruce c t t'" "corriendo t' c pd"
proof -
  define tf where "tf = (registros u)\<lparr>tf_trapno := T_SYSCALL,
                 tf_regs := (tf_regs (registros u))\<lparr>reg_eax := num, reg_edx := a1, reg_ecx := a2,
                                               reg_ebx := a3, reg_edi := a4, reg_esi := a5\<rparr>\<rparr>"
  obtain t where t: "syscall num a1 a2 a3 a4 a5 (entrada tf c (nucleo u)) = Inr (ret, t)"
    "corriendo t c pd" "Q tf t"
    using call by blast
  let ?f = "env_tf_update (\<lambda>f. f\<lparr>tf_regs := (tf_regs f)\<lparr>reg_eax := word_of_int ret\<rparr>\<rparr>)"
  define t1 where "t1 = upd_env c (\<lambda>v. v\<lparr>env_tf := (env_tf v)\<lparr>
                           tf_regs := (tf_regs (env_tf v))\<lparr>reg_eax := word_of_int ret\<rparr>\<rparr>\<rparr>) t"
  have t1: "curenv t1 = Some c" "c < length (envs t1)" "env_status (envs t1 ! c) = ENV_RUNNING"
    "env_pgdir (envs t1 ! c) = Some pd" "reg_eax (tf_regs (env_tf (envs t1 ! c))) = word_of_int ret"
    using t(2) by (simp_all add: t1_def corriendo_def upd_env_def)
  have c1: "cruce c t t1" unfolding cruce_def lados_def t1_def upd_env_def
    by (intro conjI exI [of _ "(env_tf (envs t ! c))\<lparr>tf_regs := (tf_regs (env_tf (envs t ! c)))\<lparr>reg_eax := word_of_int ret\<rparr>\<rparr>"]
        exI [of _ "env_runs (envs t ! c)"] exI [of _ "env_cpunum (envs t ! c)"]) simp_all
  obtain t' where t': "env_run c t1 = Corre c t'" "cruce c t1 t'" "corriendo t' c pd"
    "env_tf (envs t' ! c) = env_tf (envs t1 ! c)"
    using env_run_cruce [OF t1(1-4)] by blast
  have est: "env_status (envs (nucleo u) ! c) \<noteq> ENV_DYING" "curenv (nucleo u) = Some c"
    using run by (simp_all add: corriendo_def)
  have disp: "trap_dispatch 0 (Some c) tf (entrada tf c (nucleo u)) = Inr ((), t1)"
    using t(1) by (simp add: trap_dispatch_def tf_def T_SYSCALL_def T_BRKPT_def T_PGFLT_def t1_def Let_def)
  have "tf_cs tf AND 3 = 3" using cs by (simp add: tf_def)
  then have "trap 0 tf (nucleo u) = vuelve_o_cede t1"
    using trap_llamada [of tf "nucleo u" c 0] est disp by simp
  also have "\<dots> = Corre c t'" using t1(1,3) t'(1) by (simp add: vuelve_o_cede_def)
  finally have tr: "trap 0 tf (nucleo u) = Corre c t'" .
  have "int_syscall num a1 a2 a3 a4 a5 u = Inr (sint (word_of_int ret :: 32 word), u\<lparr>nucleo := t'\<rparr>)"
    using tr est(2) t'(4) t1(5) by (simp add: int_syscall_def flip: tf_def)
  then show thesis using that t(3) cruce_trans [OF c1 t'(2)] t'(3) by blast
qed


lemma corriendo_solo_vm: "corriendo s c pd \<Longrightarrow> solo_vm s t \<Longrightarrow> corriendo t c pd"
  by (simp add: corriendo_def solo_vm_def)

text \<open>A call whose handler changes only pages and memory, from the program's side.\<close>

lemma syscall_u_vm:
  assumes run: "corriendo (nucleo u) c pd" and cs: "tf_cs (registros u) AND 3 = 3"
    and call: "\<And>s. cruce c (nucleo u) s \<Longrightarrow> corriendo s c pd \<Longrightarrow>
      \<exists>t. syscall num a1 a2 a3 a4 a5 s = Inr (0, t) \<and> solo_vm s t \<and> Q t"
    and Q: "\<And>t t'. cruce c t t' \<Longrightarrow> Q t \<Longrightarrow> Q t'"
  obtains t where "syscall_u num check a1 a2 a3 a4 a5 u = Inr (0, u\<lparr>nucleo := t\<rparr>)" "Q t"
    "corriendo t c pd" "lados c (nucleo u) t"
proof -
  have "\<exists>t. syscall num a1 a2 a3 a4 a5 (entrada tf c (nucleo u)) = Inr (0, t) \<and> corriendo t c pd \<and>
      Q t \<and> solo_vm (entrada tf c (nucleo u)) t" for tf
    using call [OF entrada_cruce [of c "nucleo u" tf] entrada_corriendo [OF run, of tf]]
      corriendo_solo_vm [OF entrada_corriendo [OF run, of tf]] by blast
  from int_syscall_ok [OF run cs, where Q = "\<lambda>tf t. Q t \<and> solo_vm (entrada tf c (nucleo u)) t", OF this]
  obtain t t' tf where t: "int_syscall num a1 a2 a3 a4 a5 u = Inr (sint (word_of_int 0 :: 32 word), u\<lparr>nucleo := t'\<rparr>)"
    "Q t \<and> solo_vm (entrada tf c (nucleo u)) t" "cruce c t t'" "corriendo t' c pd"
    by metis
  have "lados c (nucleo u) t'"
    using t(2,3) by (meson cruce_lados entrada_cruce lados_trans solo_vm_lados)
  moreover have "syscall_u num check a1 a2 a3 a4 a5 u = Inr (0, u\<lparr>nucleo := t'\<rparr>)"
    using t(1) by (simp add: syscall_u_def)
  ultimately show thesis using that t Q by blast
qed


section \<open>The page calls from a program\<close>

lemma sys_page_alloc_u_ok:
  assumes run: "corriendo (nucleo u) c pd" "tf_cs (registros u) AND 3 = 3"
    and ok: "vm_ok (nucleo u) P (x # xs)" and e: "nombra (nucleo u) eid e" "env_pgdir (envs (nucleo u) ! e) = Some pe" "pe \<in> P"
    and va: "va_ok va" and cabe: "mem (nucleo u) pe (PDX va) \<noteq> 0 \<or> xs \<noteq> []"
    and perm: "(perm OR PTE_U OR PTE_P) AND NOT PTE_SYSCALL = 0" "bajos (perm OR PTE_U OR PTE_P)"
  obtains t ys where "sys_page_alloc_u eid va perm u = Inr (0, u\<lparr>nucleo := t\<rparr>)" "corriendo t c pd"
    "lados c (nucleo u) t" "vm_ok t P ys"
    "\<And>r. r \<in> ranuras P \<Longrightarrow>
       ent t r = (if r = ranura_va pe va then entrada_pte x (perm OR PTE_U OR PTE_P) else ent (nucleo u) r)"
    "\<And>g. datos (nucleo u) P (x # xs) g \<Longrightarrow> mem t g = mem (nucleo u) g"
    "\<And>p i. p \<in> P \<Longrightarrow> mem t p i =
       (if p = pe \<and> i = PDX va \<and> mem (nucleo u) pe i = 0 then pde_de (hd xs) else mem (nucleo u) p i)"
    "unat (pp_ref (pages t ! x)) \<le> 1" "\<And>i. i < 1024 \<Longrightarrow> mem t x i = 0"
    "length xs - (if mem (nucleo u) pe (PDX va) = 0 then 1 else 0) \<le> length ys"
proof -
  let ?s = "nucleo u" and ?p = "perm OR PTE_U OR PTE_P"
  define Q where "Q t \<longleftrightarrow> (\<exists>ys. vm_ok t P ys \<and>
        length xs - (if mem ?s pe (PDX va) = 0 then 1 else 0) \<le> length ys) \<and>
      (\<forall>r\<in>ranuras P. ent t r = (if r = ranura_va pe va then entrada_pte x ?p else ent ?s r)) \<and>
      (\<forall>g. datos ?s P (x # xs) g \<longrightarrow> mem t g = mem ?s g) \<and>
      (\<forall>p\<in>P. \<forall>i. mem t p i =
         (if p = pe \<and> i = PDX va \<and> mem ?s pe i = 0 then pde_de (hd xs) else mem ?s p i)) \<and>
      unat (pp_ref (pages t ! x)) \<le> 1 \<and> (\<forall>i<1024. mem t x i = 0)" for t
  have call: "\<exists>t. syscall 4 eid va perm 0 0 s = Inr (0, t) \<and> solo_vm s t \<and> Q t"
    if s: "cruce c ?s s" "corriendo s c pd" for s
  proof -
    note V = cruce_vm [OF s(1)]
    note R = reservada_ok [OF ok [folded V(1)]]
    let ?r = "reservada x s"
    define t where "t = insertada pe x va ?p xs ?r"
    have cb: "mem ?r pe (PDX va) \<noteq> 0 \<or> xs \<noteq> []" using cabe R(6) [OF e(3)] V(4) by simp
    have ref: "unat (pp_ref (pages ?r ! x)) < 65535" using R(4) by simp
    note I = insertada_ok [OF R(2) e(3) va_ok_buena(2) [OF va] cb R(3) ref, where perm = ?p, folded t_def]
    have "syscall 4 eid va perm 0 0 s = Inr (0, t)"
      using sys_page_alloc_ok [OF ok [folded V(1)] _ _ e(3) va _ perm(1), of eid e] e cabe V(4)
        lados_campos(3,8) [OF cruce_lados [OF s(1)]]
      by (simp add: syscall_def t_def)
    moreover have "solo_vm s t"
      unfolding t_def by (meson reservada_simps(2) solo_vm_insertada solo_vm_trans)
    moreover have "Q t" unfolding Q_def
    proof (intro conjI allI ballI impI)
      show "\<exists>ys. vm_ok t P ys \<and> length xs - (if mem ?s pe (PDX va) = 0 then 1 else 0) \<le> length ys"
        using I(2) [OF perm(2)] libres_insertada_largo [of xs ?r pe va x] R(6) [OF e(3)] V(4) by auto
      show "ent t r = (if r = ranura_va pe va then entrada_pte x ?p else ent ?s r)" if "r \<in> ranuras P" for r
        using I(3) [OF that] R(5) [OF that] V(2) by simp
      show "mem t g = mem ?s g" if "datos ?s P (x # xs) g" for g
        using I(4) [of g] R(7) [of g] that V(3,4) by simp
      show "mem t p i = (if p = pe \<and> i = PDX va \<and> mem ?s pe i = 0 then pde_de (hd xs) else mem ?s p i)"
        if "p \<in> P" for p i
        using I(5) [OF that, of i] R(6) [OF that] R(6) [OF e(3)] V(4) by (simp cong: conj_cong)
      show "unat (pp_ref (pages t ! x)) \<le> 1" using I(6) [OF R(3)] R(4) by simp
      show "mem t x i = 0" if "i < 1024" for i
        using I(4) [OF R(3)] that by (simp add: reservada_mem)
    qed
    ultimately show ?thesis by blast
  qed
  have cr: "Q t'" if "cruce c t t'" "Q t" for t t'
    using that(2) unfolding Q_def cruce_vm(1,2,4,5) [OF that(1)] .
  obtain t where t: "syscall_u 4 True eid va perm 0 0 u = Inr (0, u\<lparr>nucleo := t\<rparr>)" "Q t"
    "corriendo t c pd" "lados c ?s t"
    by (rule syscall_u_vm [OF run call cr])
  from t(2) obtain ys where "vm_ok t P ys"
    "length xs - (if mem ?s pe (PDX va) = 0 then 1 else 0) \<le> length ys"
    unfolding Q_def by blast
  then show thesis
    by (intro that [of t ys]) (use t in \<open>auto simp: sys_page_alloc_u_def Q_def\<close>)
qed


lemma sys_page_map_u_ok:
  assumes run: "corriendo (nucleo u) c pd" "tf_cs (registros u) AND 3 = 3" and ok: "vm_ok (nucleo u) P xs"
    and src: "nombra (nucleo u) sid se" "env_pgdir (envs (nucleo u) ! se) = Some ps" "ps \<in> P"
    and dst: "nombra (nucleo u) did de" "env_pgdir (envs (nucleo u) ! de) = Some pt" "pt \<in> P"
    and va: "va_ok sva" "va_ok dva" and f: "f = PGNUM (ent (nucleo u) (ranura_va ps sva))"
    and hay: "ent (nucleo u) (ranura_va ps sva) \<noteq> 0"
    and w: "perm AND PTE_W = PTE_W \<longrightarrow> ent (nucleo u) (ranura_va ps sva) AND PTE_W = PTE_W"
    and cabe: "mem (nucleo u) pt (PDX dva) \<noteq> 0 \<or> xs \<noteq> []"
    and ref: "unat (pp_ref (pages (nucleo u) ! f)) < 65535" and perm: "bajos perm"
  obtains t ys where "sys_page_map_u sid sva did dva perm u = Inr (0, u\<lparr>nucleo := t\<rparr>)" "corriendo t c pd"
    "lados c (nucleo u) t" "vm_ok t P ys"
    "\<And>r. r \<in> ranuras P \<Longrightarrow>
       ent t r = (if r = ranura_va pt dva then entrada_pte f (PTE_P OR PTE_U OR perm) else ent (nucleo u) r)"
    "\<And>g. datos (nucleo u) P xs g \<Longrightarrow> mem t g = mem (nucleo u) g"
    "\<And>p i. p \<in> P \<Longrightarrow> mem t p i =
       (if p = pt \<and> i = PDX dva \<and> mem (nucleo u) pt i = 0 then pde_de (hd xs) else mem (nucleo u) p i)"
    "\<And>g. datos (nucleo u) P xs g \<Longrightarrow>
       unat (pp_ref (pages t ! g)) \<le> unat (pp_ref (pages (nucleo u) ! g)) + (if g = f then 1 else 0)"
    "length xs - (if mem (nucleo u) pt (PDX dva) = 0 then 1 else 0) \<le> length ys"
proof -
  let ?s = "nucleo u" and ?p = "PTE_P OR PTE_U OR perm"
  have bp: "bajos ?p" using perm by (intro bajos_or bajos_permisos)
  define Q where "Q t \<longleftrightarrow> (\<exists>ys. vm_ok t P ys \<and>
        length xs - (if mem ?s pt (PDX dva) = 0 then 1 else 0) \<le> length ys) \<and>
      (\<forall>r\<in>ranuras P. ent t r = (if r = ranura_va pt dva then entrada_pte f ?p else ent ?s r)) \<and>
      (\<forall>g. datos ?s P xs g \<longrightarrow> mem t g = mem ?s g) \<and>
      (\<forall>p\<in>P. \<forall>i. mem t p i =
         (if p = pt \<and> i = PDX dva \<and> mem ?s pt i = 0 then pde_de (hd xs) else mem ?s p i)) \<and>
      (\<forall>g. datos ?s P xs g \<longrightarrow>
         unat (pp_ref (pages t ! g)) \<le> unat (pp_ref (pages ?s ! g)) + (if g = f then 1 else 0))" for t
  have call: "\<exists>t. syscall 5 sid sva did dva perm s = Inr (0, t) \<and> solo_vm s t \<and> Q t"
    if s: "cruce c ?s s" "corriendo s c pd" for s
  proof -
    note V = cruce_vm [OF s(1)] and L = lados_campos [OF cruce_lados [OF s(1)]]
    define t where "t = insertada pt f dva ?p xs s"
    have oks: "vm_ok s P xs" using ok V(1) by simp
    have d: "datos s P xs f"
      using datos_ent [OF ok ranura_in [OF src(3) va_ok_buena(2) [OF va(1)]] hay] V(3) f by simp
    note I = insertada_ok [OF oks dst(3) va_ok_buena(2) [OF va(2)] _ d, where perm = ?p, folded t_def]
    have cb: "mem s pt (PDX dva) \<noteq> 0 \<or> xs \<noteq> []" and rf: "unat (pp_ref (pages s ! f)) < 65535"
      using cabe ref V(4,5) by simp_all
    have "syscall 5 sid sva did dva perm s = Inr (0, t)"
      using sys_page_map_ok [OF oks, of sid se ps did de pt sva dva perm] src dst va hay w cb rf f V(2) L(3,8)
      by (simp add: syscall_def t_def)
    moreover have "solo_vm s t" unfolding t_def by (rule solo_vm_insertada)
    moreover have "Q t" unfolding Q_def
    proof (intro conjI allI ballI impI)
      show "\<exists>ys. vm_ok t P ys \<and> length xs - (if mem ?s pt (PDX dva) = 0 then 1 else 0) \<le> length ys"
        using I(2) [OF cb rf bp] libres_insertada_largo [of xs s pt dva f] V(4) by auto
      show "ent t r = (if r = ranura_va pt dva then entrada_pte f ?p else ent ?s r)" if "r \<in> ranuras P" for r
        using I(3) [OF cb rf that] V(2) by simp
      show "mem t g = mem ?s g" if "datos ?s P xs g" for g
        using I(4) [OF cb rf, of g] that V(3,4) by simp
      show "mem t p i = (if p = pt \<and> i = PDX dva \<and> mem ?s pt i = 0 then pde_de (hd xs) else mem ?s p i)"
        if "p \<in> P" for p i
        using I(5) [OF cb rf that, of i] V(4) by (simp cong: conj_cong)
      show "unat (pp_ref (pages t ! g)) \<le> unat (pp_ref (pages ?s ! g)) + (if g = f then 1 else 0)"
        if "datos ?s P xs g" for g
        using I(6) [OF cb rf, of g] that V(3,5) by simp
    qed
    ultimately show ?thesis by blast
  qed
  have cr: "Q t'" if "cruce c t t'" "Q t" for t t'
    using that(2) unfolding Q_def cruce_vm(1,2,4,5) [OF that(1)] .
  obtain t where t: "syscall_u 5 True sid sva did dva perm u = Inr (0, u\<lparr>nucleo := t\<rparr>)" "Q t"
    "corriendo t c pd" "lados c ?s t"
    by (rule syscall_u_vm [OF run call cr])
  from t(2) obtain ys where "vm_ok t P ys"
    "length xs - (if mem ?s pt (PDX dva) = 0 then 1 else 0) \<le> length ys"
    unfolding Q_def by blast
  then show thesis
    by (intro that [of t ys]) (use t in \<open>auto simp: sys_page_map_u_def Q_def\<close>)
qed

lemma sys_page_unmap_u_ok:
  assumes run: "corriendo (nucleo u) c pd" "tf_cs (registros u) AND 3 = 3" and ok: "vm_ok (nucleo u) P xs"
    and pd: "pd \<in> P" and va: "va_ok va"
  obtains t ys where "sys_page_unmap_u 0 va u = Inr (0, u\<lparr>nucleo := t\<rparr>)" "corriendo t c pd"
    "lados c (nucleo u) t" "vm_ok t P ys"
    "\<And>r. r \<in> ranuras P \<Longrightarrow> ent t r = (if r = ranura_va pd va then 0 else ent (nucleo u) r)"
    "\<And>g. datos (nucleo u) P xs g \<Longrightarrow> mem t g = mem (nucleo u) g" "\<And>p. p \<in> P \<Longrightarrow> mem t p = mem (nucleo u) p"
proof -
  let ?s = "nucleo u"
  define Q where "Q t \<longleftrightarrow> (\<exists>ys. vm_ok t P ys) \<and>
      (\<forall>r\<in>ranuras P. ent t r = (if r = ranura_va pd va then 0 else ent ?s r)) \<and>
      (\<forall>g. datos ?s P xs g \<longrightarrow> mem t g = mem ?s g) \<and> (\<forall>p\<in>P. mem t p = mem ?s p)" for t
  have call: "\<exists>t. syscall 6 0 va 0 0 0 s = Inr (0, t) \<and> solo_vm s t \<and> Q t"
    if s: "cruce c ?s s" "corriendo s c pd" for s
  proof -
    note V = cruce_vm [OF s(1)]
    have oks: "vm_ok s P xs" using ok V(1) by simp
    note R = quitada_ok [OF oks pd va_ok_buena(2) [OF va]] and DQ = datos_quitada [OF oks pd va_ok_buena(2) [OF va]]
    have "syscall 6 0 va 0 0 0 s = Inr (0, quitada pd va s)"
      using sys_page_unmap_ok [OF oks nombra_0 _ pd va] s(2) by (simp add: syscall_def corriendo_def)
    moreover have "solo_vm s (quitada pd va s)" by (simp add: quitada_def solo_vm_sin_pagina)
    moreover have "Q (quitada pd va s)" unfolding Q_def using R(2,3) DQ(1,2) V(2,3,4) by auto
    ultimately show ?thesis by blast
  qed
  have cr: "Q t'" if "cruce c t t'" "Q t" for t t'
    using that(2) unfolding Q_def cruce_vm(1,2,4,5) [OF that(1)] .
  obtain t where t: "syscall_u 6 True 0 va 0 0 0 u = Inr (0, u\<lparr>nucleo := t\<rparr>)" "Q t"
    "corriendo t c pd" "lados c ?s t"
    by (rule syscall_u_vm [OF run call cr])
  from t(2) obtain ys where "vm_ok t P ys" unfolding Q_def by blast
  then show thesis
    by (intro that [of t ys]) (use t in \<open>auto simp: sys_page_unmap_u_def Q_def\<close>)
qed


section \<open>Reading the page tables\<close>

text \<open>
  The directory entry that \<open>env_setup_vm\<close> points at the directory itself, and tables open to the program,
  as \<open>pgdir_walk\<close> makes them.
\<close>

definition autoref :: "kst \<Rightarrow> nat \<Rightarrow> bool" where
  "autoref s pd \<longleftrightarrow> pd < 2 ^ 20 \<and> mem s pd (PDX UVPT) = page2pa pd OR PTE_P OR PTE_U"

definition abierta :: "kst \<Rightarrow> nat \<Rightarrow> nat \<Rightarrow> bool" where
  "abierta s pd d \<longleftrightarrow> mem s pd d AND (PTE_P OR PTE_U OR PTE_W) = PTE_P OR PTE_U OR PTE_W"

lemma uvpt_dir:
  assumes "n < 2 ^ 20"
  shows "PDX (UVPT + of_nat n * 4) = PDX UVPT" "PTX (UVPT + of_nat n * 4) = n div 1024"
    "unat ((UVPT + of_nat n * 4) AND 0xFFF) div 4 = n mod 1024"
proof -
  have u: "unat (UVPT + of_nat n * 4) = 0xEF400000 + n * 4"
    using assms by (simp add: mapa unat_word_ariths unat_of_nat take_bit_eq_mod)
  have v: "unat UVPT = 0xEF400000" by (simp add: mapa)
  have "0xEF400000 + n * 4 = n * 4 + 957 * 2 ^ 22" "n * 4 < 2 ^ 22" using assms by simp_all
  then show "PDX (UVPT + of_nat n * 4) = PDX UVPT" unfolding PDX_div u v by simp
  have a: "0xEF400000 + n * 4 = n * 4 + 979968 * 4096" by simp
  have b: "n * 4 div 4096 = n div 1024"
    using div_mult2_eq [of "n * 4" 4 1024] by simp
  have lt: "n div 1024 < 1024" using assms by (intro less_mult_imp_div_less) simp
  have e: "979968 + n div 1024 = n div 1024 + 957 * 1024" by simp
  have m: "(979968 + n div 1024) mod 1024 = n div 1024" unfolding e mod_mult_self1 by (rule mod_less [OF lt])
  have d: "(n * 4 + 979968 * 4096) div 4096 = 979968 + n div 1024"
    unfolding b [symmetric] by (rule div_mult_self1) simp
  show "PTX (UVPT + of_nat n * 4) = n div 1024"
    unfolding PTX_div u a d by (rule m)
  have "(n * 4) mod 4096 = 4 * (n mod 1024)"
    using mult_mod_right [of 4 n 1024] by (simp add: mult.commute)
  then show "unat ((UVPT + of_nat n * 4) AND 0xFFF) div 4 = n mod 1024"
    unfolding and_FFF u a mod_mult_self1 by simp
qed

lemma uvpt_lee:
  assumes "cr3 (nucleo u) = pd" and "autoref (nucleo u) pd" and "n < 2 ^ 20"
    and "mem (nucleo u) pd (n div 1024) AND (PTE_P OR PTE_U) = PTE_P OR PTE_U"
  shows "uvpt (of_nat n) u = Inr (mem (nucleo u) (PGNUM (mem (nucleo u) pd (n div 1024))) (n mod 1024), u)"
proof -
  have pdn: "PGNUM (page2pa pd OR PTE_P OR PTE_U) = pd"
    using assms(2) unfolding autoref_def by (metis PGNUM_entrada bajos_or bajos_permisos(1,3) or.assoc)
  have bits: "(page2pa pd OR PTE_P OR PTE_U) AND (PTE_P OR PTE_U) = PTE_P OR PTE_U"
    by (rule bit_word_eqI) (auto simp: bit_simps)
  show ?thesis
    using assms bits pdn
    by (simp add: uvpt_def lee_u_def traduce_u_def uvpt_dir [OF assms(3)] autoref_def Let_def)
qed


section \<open>Copy on write\<close>

lemma bits_parte: "w AND (a OR b) = a OR b \<Longrightarrow> w AND b = b" for w a b :: "32 word"
  using bits_sub [of w b a] by (simp add: or.commute)

lemma datos_cambia:
  assumes ok: "vm_ok s P xs" and g: "datos s P xs g" and m: "\<And>h. h \<noteq> g \<Longrightarrow> mem u h = mem s h"
    and sel: "npages u = npages s" "pages u = pages s" "page_free_list u = page_free_list s"
  shows "vm_ok u P xs" and "r \<in> ranuras P \<Longrightarrow> ent u r = ent s r" and "datos u P xs h = datos s P xs h"
proof -
  have mP: "mem u p = mem s p" if "p \<in> P" for p using g that by (intro m) (auto simp: datos_def)
  have pd: "pdes u P = pdes s P" by (auto simp: pdes_def mP)
  have te: "tabla_en u q = tabla_en s q" if "q \<in> pdes s P" for q
    using that by (auto simp: pdes_def tabla_en_def mP)
  have img: "tabla_en u ` pdes u P = tabla_en s ` pdes s P"
    unfolding pd by (rule image_cong [OF refl te])
  have inj: "inj_on (tabla_en u) (pdes u P)"
    unfolding pd using vm_okD(5) [OF ok] by (subst inj_on_cong [where g = "tabla_en s"]) (auto simp: te)
  show ent: "ent u r = ent s r" if r: "r \<in> ranuras P" for r
  proof -
    obtain p d j where e: "r = (p, d, j)" "p \<in> P" "d < NU" using r by (cases r) (auto simp: ranuras_def)
    show ?thesis
    proof (cases "mem s p d = 0")
      case False
      then have "(p, d) \<in> pdes s P" using e by (simp add: pdes_def)
      then have "tabla_en s (p, d) \<noteq> g" using g by (auto simp: datos_def)
      then have "mem u (PGNUM (mem s p d)) = mem s (PGNUM (mem s p d))" by (intro m) (simp add: tabla_en_def)
      then show ?thesis using e mP by (simp add: ent_def)
    qed (use e mP in \<open>simp add: ent_def\<close>)
  qed
  have us: "usos u P f = usos s P f" for f using ent by (auto simp: usos_def)
  have "libres_ok u xs" using vm_okD(1) [OF ok] by (simp add: libres_ok_def sel)
  then show "vm_ok u P xs" unfolding vm_ok_def img us sel using vm_okD(2-7) [OF ok] inj ent by auto
  show "datos u P xs h = datos s P xs h" by (simp add: datos_def img sel)
qed

lemma datos_memcpy:
  assumes ok: "vm_ok s P xs" and g: "datos s P xs g"
  shows "vm_ok (memcpy_pag g f s) P xs" and "r \<in> ranuras P \<Longrightarrow> ent (memcpy_pag g f s) r = ent s r"
    and "h \<noteq> g \<Longrightarrow> mem (memcpy_pag g f s) h = mem s h" and "datos (memcpy_pag g f s) P xs h = datos s P xs h"
proof -
  let ?u = "memcpy_pag g f s"
  have sel: "npages ?u = npages s" "pages ?u = pages s" "page_free_list ?u = page_free_list s"
    by (simp_all add: memcpy_pag_def)
  show m: "mem ?u h = mem s h" if "h \<noteq> g" for h using that by (simp add: memcpy_pag_def)
  note C = datos_cambia [OF ok g m sel]
  show "vm_ok ?u P xs" "datos ?u P xs h = datos s P xs h" by (rule C(1,3); assumption)+
  show "ent ?u r = ent s r" if r: "r \<in> ranuras P" by (rule C(2) [OF _ r])
qed

lemma pde_de_abierta: "pde_de x AND (PTE_P OR PTE_U OR PTE_W) = PTE_P OR PTE_U OR PTE_W"
  unfolding pde_de_def by (rule bit_word_eqI) (auto simp: bit_simps)

text \<open>A page of the program, read and written.\<close>

lemma traduce_u_pagina:
  assumes "cr3 s = pd" and "abierta s pd (PDX va)"
    and "ent s (ranura_va pd va) AND (PTE_P OR PTE_U OR (if esc then PTE_W else 0)) =
      PTE_P OR PTE_U OR (if esc then PTE_W else 0)"
  shows "\<exists>i. traduce_u s esc va = Some (PGNUM (ent s (ranura_va pd va)), i)"
proof -
  have "PTE_P OR PTE_U OR PTE_W \<noteq> 0" by (simp add: permisos)
  then have nz: "mem s pd (PDX va) \<noteq> 0" using assms(2) by (auto simp: abierta_def)
  have "mem s pd (PDX va) AND (PTE_P OR PTE_U) = PTE_P OR PTE_U"
    using bits_sub [of "mem s pd (PDX va)" "PTE_P OR PTE_U" PTE_W] assms(2) by (simp add: abierta_def or.assoc)
  then show ?thesis
    using assms nz by (auto simp: traduce_u_def ent_def ranura_va_def abierta_def Let_def split: if_splits)
qed

lemma PFTEMP_val: "PFTEMP = 0x7FF000" "va_ok PFTEMP"
  by (simp_all add: PFTEMP_def UTEMP_def va_ok_def mapa)

lemma va_ok_ROUNDDOWN:
  assumes "va < UTOP"
  shows "va_ok (ROUNDDOWN va PGSIZE)" "ranura_va pd (ROUNDDOWN va PGSIZE) = ranura_va pd va"
    "PDX (ROUNDDOWN va PGSIZE) = PDX va"
proof -
  have u: "unat (ROUNDDOWN va PGSIZE) = unat va div 4096 * 4096" by (rule unat_ROUNDDOWN)
  have "unat va div 4096 * 4096 \<le> unat va" by simp
  then have "ROUNDDOWN va PGSIZE < UTOP" using assms unfolding word_less_nat_alt u by linarith
  moreover have "unat (ROUNDDOWN va PGSIZE mod PGSIZE) = 0"
    unfolding unat_mod u by (simp add: PGSIZE_def)
  ultimately show "va_ok (ROUNDDOWN va PGSIZE)" by (simp add: va_ok_def unat_eq_zero)
  have n: "PGNUM (ROUNDDOWN va PGSIZE) = PGNUM va" unfolding PGNUM_eq u by simp
  show "ranura_va pd (ROUNDDOWN va PGSIZE) = ranura_va pd va" "PDX (ROUNDDOWN va PGSIZE) = PDX va"
    using n by (simp_all add: ranura_eq PDX_PGNUM)
qed

lemma no_c_nunca: "(err AND FEC_WR) AND no_c w = 0"
  by (rule bit_word_eqI) (auto simp: no_c_def FEC_WR_def bit_simps bit_2_iff bit_1_iff)


abbreviation PUW :: "32 word" where "PUW \<equiv> PTE_P OR PTE_U OR PTE_W"

lemma PUW_simps: "PUW OR PTE_U OR PTE_P = PUW" "PTE_P OR PTE_U OR PUW = PUW" "bajos PUW" "PUW AND NOT PTE_SYSCALL = 0"
  "PUW AND PTE_W = PTE_W"
  by (simp_all add: permisos bajos_def)

lemma entrada_PUW:
  assumes "x < 2 ^ 20"
  shows "PGNUM (entrada_pte x PUW) = x" "entrada_pte x PUW AND PUW = PUW" "entrada_pte x PUW = page2pa x OR PUW"
proof -
  show e: "entrada_pte x PUW = page2pa x OR PUW"
    unfolding entrada_pte_def by (rule bit_word_eqI) (auto simp: bit_simps)
  show "PGNUM (entrada_pte x PUW) = x" unfolding e by (rule PGNUM_entrada [OF assms PUW_simps(3)])
  show "entrada_pte x PUW AND PUW = PUW" unfolding e by (rule bit_word_eqI) (auto simp: bit_simps)
qed

text \<open>
  C35: pgfault resolves a fault at a page the program can read: when it returns, the program has at that
  address a frame of its own, taken from the free list, with the contents the page had, readable and
  writable, the temporary mapping is gone, and every other page of every address space, with its contents,
  is as it was. Nothing in the hypotheses says that the fault was a write or that the page was marked
  PTE_COW: the check the code makes for that never fires.
\<close>

theorem pgfault_copia:
  assumes ok: "vm_ok (nucleo u) P (x # xs)" and run: "corriendo (nucleo u) c pd" "tf_cs (registros u) AND 3 = 3"
    and pd: "pd \<in> P" "autoref (nucleo u) pd" and va: "utf_fault_va utf < UTOP" "PGNUM (utf_fault_va utf) \<noteq> PGNUM PFTEMP"
    and ab: "abierta (nucleo u) pd (PDX (utf_fault_va utf))"
    and tmp: "abierta (nucleo u) pd (PDX PFTEMP) \<or> mem (nucleo u) pd (PDX PFTEMP) = 0 \<and> xs \<noteq> []"
    and lee: "ent (nucleo u) (ranura_va pd (utf_fault_va utf)) AND (PTE_P OR PTE_U) = PTE_P OR PTE_U"
  shows "\<exists>t ys. pgfault utf u = Inr ((), u\<lparr>nucleo := t\<rparr>) \<and> corriendo t c pd \<and> vm_ok t P ys \<and>
    ent t (ranura_va pd (utf_fault_va utf)) = page2pa x OR PTE_P OR PTE_U OR PTE_W \<and>
    (\<forall>i<1024. mem t x i = mem (nucleo u) (PGNUM (ent (nucleo u) (ranura_va pd (utf_fault_va utf)))) i) \<and>
    ent t (ranura_va pd PFTEMP) = 0 \<and>
    (\<forall>r\<in>ranuras P - {ranura_va pd (utf_fault_va utf), ranura_va pd PFTEMP}. ent t r = ent (nucleo u) r \<and>
       (ent t r = 0 \<or> mem t (PGNUM (ent t r)) = mem (nucleo u) (PGNUM (ent t r)))) \<and> lados c (nucleo u) t"
proof -
  let ?s = "nucleo u" and ?va = "utf_fault_va utf"
  let ?r = "ranura_va pd ?va" and ?q = "ranura_va pd PFTEMP"
  let ?f = "PGNUM (ent ?s ?r)" and ?va' = "ROUNDDOWN ?va PGSIZE"
  note RD = va_ok_ROUNDDOWN [OF va(1)]
  have cr: "cr3 ?s = pd" "env_pgdir (envs ?s ! c) = Some pd" "nombra ?s 0 c"
    using run(1) nombra_0 by (simp_all add: corriendo_def)
  have rr: "?r \<in> ranuras P" "?q \<in> ranuras P" "?r \<noteq> ?q"
    using ranura_in [OF pd(1)] PDX_user [OF va(1)] va_ok_buena(2) [OF PFTEMP_val(2)] va(2) by (auto simp: ranura_eq)
  have nz: "ent ?s ?r \<noteq> 0" "mem ?s pd (PDX ?va) \<noteq> 0"
    using lee ab by (auto simp: abierta_def permisos)
  have PFd: "mem ?s pd (PDX PFTEMP) \<noteq> 0 \<or> xs \<noteq> []" using tmp by (auto simp: abierta_def permisos)
  have x: "x < 2 ^ 20" using libres_okD(3,7) [OF vm_okD(1) [OF ok]] by (auto dest: order_less_le_trans)
  have df: "datos ?s P (x # xs) ?f" by (rule datos_ent [OF ok rr(1) nz(1)])
  have uv: "uvpt (drop_bit 12 ?va) u = Inr (ent ?s ?r, u)"
  proof -
    have n: "drop_bit 12 ?va = of_nat (PGNUM ?va)" by (simp add: PGNUM_def)
    have "mem ?s pd (PDX ?va) AND (PTE_P OR PTE_U) = PTE_P OR PTE_U"
      using bits_sub [of _ "PTE_P OR PTE_U" PTE_W] ab by (simp add: abierta_def or.assoc)
    then show ?thesis
      unfolding n using uvpt_lee [OF cr(1) pd(2) PGNUM_lt [of ?va]] nz(2)
      by (simp add: ent_def ranura_va_def PDX_PGNUM PTX_PGNUM)
  qed
  have p1: "(PUW OR PTE_U OR PTE_P) AND NOT PTE_SYSCALL = 0" "bajos (PUW OR PTE_U OR PTE_P)"
    unfolding PUW_simps(1) by (rule PUW_simps)+
  obtain t1 ys1 where A: "sys_page_alloc_u 0 PFTEMP PUW u = Inr (0, u\<lparr>nucleo := t1\<rparr>)" "corriendo t1 c pd"
    "lados c ?s t1" "vm_ok t1 P ys1"
    "\<And>r. r \<in> ranuras P \<Longrightarrow> ent t1 r = (if r = ?q then entrada_pte x PUW else ent ?s r)"
    "\<And>g. datos ?s P (x # xs) g \<Longrightarrow> mem t1 g = mem ?s g"
    "\<And>p i. p \<in> P \<Longrightarrow> mem t1 p i =
       (if p = pd \<and> i = PDX PFTEMP \<and> mem ?s pd i = 0 then pde_de (hd xs) else mem ?s p i)"
    "unat (pp_ref (pages t1 ! x)) \<le> 1" "\<And>i. i < 1024 \<Longrightarrow> mem t1 x i = 0"
    "length xs - (if mem ?s pd (PDX PFTEMP) = 0 then 1 else 0) \<le> length ys1"
    by (rule sys_page_alloc_u_ok [OF run ok cr(3,2) pd(1) PFTEMP_val(2) PFd p1, unfolded PUW_simps(1)], rule that)
      (assumption | blast)+
  have e1: "ent t1 ?r = ent ?s ?r" "ent t1 ?q = entrada_pte x PUW" using A(5) rr by simp_all
  have d1: "datos t1 P ys1 x" using datos_ent [OF A(4) rr(2)] e1(2) entrada_PUW(1) [OF x] by simp
  have c1: "cr3 t1 = pd" using A(2) by (simp add: corriendo_def)
  have ab1: "abierta t1 pd (PDX ?va)" "abierta t1 pd (PDX PFTEMP)"
    using ab tmp pde_de_abierta [of "hd xs"] by (auto simp: abierta_def A(7) [OF pd(1)] permisos)
  define t2 where "t2 = memcpy_pag x ?f t1"
  note M = datos_memcpy [OF A(4) d1, where f = ?f, folded t2_def]
  have mm: "memmove_pag PFTEMP ?va' (u\<lparr>nucleo := t1\<rparr>) = Inr ((), u\<lparr>nucleo := t2\<rparr>)"
  proof -
    obtain i where "traduce_u t1 False ?va' = Some (?f, i)"
      using traduce_u_pagina [of t1 pd ?va' False] c1 ab1(1) RD(2,3) e1(1) lee by auto
    moreover obtain j where "traduce_u t1 True PFTEMP = Some (x, j)"
      using traduce_u_pagina [of t1 pd PFTEMP True] c1 ab1(2) e1(2) entrada_PUW(1,2) [OF x] by auto
    ultimately show ?thesis by (simp add: memmove_pag_def Let_def t2_def)
  qed
  have cont: "mem t2 x i = mem ?s ?f i" if "i < 1024" for i
    using that A(6) [OF df] by (simp add: t2_def memcpy_pag_def)
  have s12: "solo_vm t1 t2" by (simp add: t2_def)
  have run2: "corriendo t2 c pd" by (rule corriendo_solo_vm [OF A(2) s12])
  then have cr2: "env_pgdir (envs t2 ! c) = Some pd" "nombra t2 0 c"
    using nombra_0 by (simp_all add: corriendo_def)
  have vm2: "vm_ok t2 P ys1" and e2: "\<And>r. r \<in> ranuras P \<Longrightarrow> ent t2 r = ent t1 r" using M(1,2) by blast+
  have pg2: "pages t2 = pages t1" by (simp add: t2_def memcpy_pag_def)
  let ?u2 = "u\<lparr>nucleo := t2\<rparr>"
  have x2: "x = PGNUM (ent (nucleo ?u2) ?q)" and q2: "ent (nucleo ?u2) ?q \<noteq> 0"
    "ent (nucleo ?u2) ?q AND PTE_W = PTE_W" "unat (pp_ref (pages (nucleo ?u2) ! x)) < 65535"
    using e2 [OF rr(2)] e1(2) entrada_PUW(1) [OF x] A(8) pg2
      bits_parte [of "entrada_pte x PUW" "PTE_P OR PTE_U" PTE_W] entrada_PUW(2) [OF x]
    by (simp_all add: or.assoc)
  have pd2: "mem (nucleo ?u2) pd (PDX ?va') \<noteq> 0 \<or> ys1 \<noteq> []"
  proof -
    have "pd \<noteq> x" using d1 pd(1) unfolding datos_def by blast
    then show ?thesis using M(3) [of pd] ab1(1) RD(3) by (auto simp: abierta_def permisos)
  qed
  have nom: "nombra (nucleo ?u2) 0 c" "env_pgdir (envs (nucleo ?u2) ! c) = Some pd" "corriendo (nucleo ?u2) c pd"
    "vm_ok (nucleo ?u2) P ys1" using cr2 run2 vm2 by simp_all
  have run2': "tf_cs (registros ?u2) AND 3 = 3" using run(2) by simp
  obtain t3 ys3 where B: "sys_page_map_u 0 PFTEMP 0 ?va' PUW ?u2 = Inr (0, ?u2\<lparr>nucleo := t3\<rparr>)"
    "corriendo t3 c pd" "lados c (nucleo ?u2) t3" "vm_ok t3 P ys3"
    "\<And>r. r \<in> ranuras P \<Longrightarrow> ent t3 r = (if r = ranura_va pd ?va' then entrada_pte x PUW
       else ent (nucleo ?u2) r)"
    "\<And>g. datos (nucleo ?u2) P ys1 g \<Longrightarrow> mem t3 g = mem (nucleo ?u2) g"
    by (rule sys_page_map_u_ok [OF nom(3) run2' nom(4) nom(1,2) pd(1) nom(1,2) pd(1) PFTEMP_val(2) RD(1) x2
          q2(1) impI [OF q2(2)] pd2 q2(3) PUW_simps(3), unfolded PUW_simps(2)], rule that) (assumption | blast)+
  have run3: "corriendo (nucleo (u\<lparr>nucleo := t3\<rparr>)) c pd" "tf_cs (registros (u\<lparr>nucleo := t3\<rparr>)) AND 3 = 3"
    "vm_ok (nucleo (u\<lparr>nucleo := t3\<rparr>)) P ys3" using B(2,4) run(2) by simp_all
  obtain t4 ys4 where C: "sys_page_unmap_u 0 PFTEMP (u\<lparr>nucleo := t3\<rparr>) = Inr (0, u\<lparr>nucleo := t3\<rparr>\<lparr>nucleo := t4\<rparr>)"
    "corriendo t4 c pd" "lados c (nucleo (u\<lparr>nucleo := t3\<rparr>)) t4" "vm_ok t4 P ys4"
    "\<And>r. r \<in> ranuras P \<Longrightarrow> ent t4 r = (if r = ?q then 0 else ent (nucleo (u\<lparr>nucleo := t3\<rparr>)) r)"
    "\<And>g. datos (nucleo (u\<lparr>nucleo := t3\<rparr>)) P ys3 g \<Longrightarrow> mem t4 g = mem (nucleo (u\<lparr>nucleo := t3\<rparr>)) g"
    by (rule sys_page_unmap_u_ok [OF run3 pd(1) PFTEMP_val(2)], rule that) (assumption | blast)+
  have pf: "pgfault utf u = Inr ((), u\<lparr>nucleo := t4\<rparr>)"
    unfolding pgfault_def Let_def uv and_then.simps prod.case no_c_nunca
    using A(1) mm B(1) C(1) by simp
  have dx: "datos t2 P ys1 x" using M(4) d1 by simp
  have e3: "ent t3 ?r = entrada_pte x PUW" using B(5) [OF rr(1)] RD(2) by simp
  have dx3: "datos t3 P ys3 x" using datos_ent [OF B(4) rr(1)] e3 entrada_PUW(1) [OF x] by simp
  show ?thesis
  proof (intro exI conjI allI ballI impI)
    show "pgfault utf u = Inr ((), u\<lparr>nucleo := t4\<rparr>)" by (rule pf)
    show "corriendo t4 c pd" "vm_ok t4 P ys4" by (fact C)+
    show "ent t4 ?r = page2pa x OR PTE_P OR PTE_U OR PTE_W"
      using C(5) [OF rr(1)] rr(3) e3 entrada_PUW(3) [OF x] by simp
    show "mem t4 x i = mem ?s ?f i" if "i < 1024" for i
      using cont [OF that] B(6) [of x] C(6) [of x] dx dx3 by simp
    show "ent t4 ?q = 0" using C(5) [OF rr(2)] by simp
    show e4: "ent t4 r = ent ?s r" if "r \<in> ranuras P - {?r, ?q}" for r
      using that C(5) [of r] B(5) [of r] e2 [of r] A(5) [of r] RD(2) by simp
    show "lados c ?s t4"
      using A(3) solo_vm_lados [OF s12, of c] B(3) C(3) by (auto intro: lados_trans)
    show "ent t4 r = 0 \<or> mem t4 (PGNUM (ent t4 r)) = mem ?s (PGNUM (ent t4 r))" if r: "r \<in> ranuras P - {?r, ?q}" for r
    proof (cases "ent ?s r = 0")
      case False
      let ?g = "PGNUM (ent ?s r)"
      have rP: "r \<in> ranuras P" using r by blast
      have es: "ent t1 r = ent ?s r" "ent t2 r = ent ?s r" "ent t3 r = ent ?s r"
        using r e2 [OF rP] A(5) [OF rP] B(5) [OF rP] RD(2) by simp_all
      have ds: "datos ?s P (x # xs) ?g" "datos t2 P ys1 ?g" "datos t3 P ys3 ?g"
        using False datos_ent [OF ok rP] datos_ent [OF vm2 rP] datos_ent [OF B(4) rP] es by simp_all
      have "?g \<noteq> x" using ds(1) by (auto simp: datos_def)
      then show ?thesis using e4 [OF r] A(6) [OF ds(1)] M(3) [of ?g] B(6) [of ?g] C(6) [of ?g] ds by simp
    qed (use e4 [OF r] in simp)
  qed
qed


text \<open>A program with page 4 at 0x800000 and its directory, page 1, mapped at \<open>UVPT\<close>.\<close>

definition ust_ej :: ust where
  "ust_ej = \<lparr>nucleo = poke (1, 957) (page2pa 1 OR PTE_P OR PTE_U) (kst_una 2 0), thisenv = Some 0,
     pgfault_handler = 0x800040, registros = tf_ej\<rparr>"

lemma ust_ej_ok:
  "vm_ok (nucleo ust_ej) {1} [3, 2]" "corriendo (nucleo ust_ej) 0 1" "autoref (nucleo ust_ej) 1"
  "abierta (nucleo ust_ej) 1 2" "mem (nucleo ust_ej) 1 1 = 0"
  "ent (nucleo ust_ej) (1, 2, 0) = page2pa 4 OR PTE_P OR PTE_W OR PTE_U"
proof -
  have v: "vm_ok (kst_una 2 0) {1} [3, 2]" by (rule vm_una) (simp add: NU_val)
  have NU: "NU \<le> 957" by (simp add: NU_val)
  have en: "(1 :: nat) \<in> {1}" by simp
  show "vm_ok (nucleo ust_ej) {1} [3, 2]" using vm_alta(1) [OF v en NU] by (simp add: ust_ej_def)
  show "corriendo (nucleo ust_ej) 0 1"
    by (simp add: corriendo_def ust_ej_def poke_def kst_una_def kst_ej_def)
  have "PDX UVPT = 957" by (simp add: PDX_div mapa)
  then show "autoref (nucleo ust_ej) 1" by (simp add: autoref_def ust_ej_def mem_poke)
  have m: "mem (nucleo ust_ej) 1 i = (if i = 957 then page2pa 1 OR PTE_P OR PTE_U else if i = 2 then pde_de 5 else 0)" for i
    by (simp add: ust_ej_def mem_poke kst_una_sel(3))
  show "abierta (nucleo ust_ej) 1 2" using pde_de_abierta [of 5] by (simp add: abierta_def m del: One_nat_def)
  show "mem (nucleo ust_ej) 1 1 = 0" by (simp add: m del: One_nat_def)
  have "(1, 2, 0) \<in> ranuras {1}" by (simp add: ranuras_def NU_val)
  from vm_alta(2) [OF v en NU this]
  show "ent (nucleo ust_ej) (1, 2, 0) = page2pa 4 OR PTE_P OR PTE_W OR PTE_U"
    by (simp add: ust_ej_def kst_una_ent [unfolded One_nat_def])
qed

theorem pgfault_copia_witness:
  "\<exists>t. pgfault (utf_de 0x800123 tf_ej) ust_ej = Inr ((), ust_ej\<lparr>nucleo := t\<rparr>) \<and>
     ent t (1, 2, 0) = page2pa 3 OR PTE_P OR PTE_U OR PTE_W \<and> mem t 3 7 = mem (nucleo ust_ej) 4 7"
proof -
  let ?utf = "utf_de 0x800123 tf_ej"
  have va: "utf_fault_va ?utf = 0x800123" by (simp add: utf_de_def)
  have r: "ranura_va 1 0x800123 = (1, 2, 0)" "PDX 0x800123 = 2" "PDX PFTEMP = 1"
    "PGNUM 0x800123 \<noteq> PGNUM PFTEMP" "(0x800123 :: 32 word) < UTOP"
    by (simp_all add: ranura_va_def PDX_div PTX_div PFTEMP_val PGNUM_eq UTOP_val)
  have bits: "(page2pa 4 OR PTE_P OR PTE_W OR PTE_U) AND (PTE_P OR PTE_U) = PTE_P OR PTE_U"
    by (rule bit_word_eqI) (auto simp: bit_simps)
  have cs: "tf_cs (registros ust_ej) AND 3 = 3" by (simp add: ust_ej_def tf_ej_def)
  have en: "(1 :: nat) \<in> {1}" by simp
  have h: "utf_fault_va ?utf < UTOP" "PGNUM (utf_fault_va ?utf) \<noteq> PGNUM PFTEMP"
    "abierta (nucleo ust_ej) 1 (PDX (utf_fault_va ?utf))"
    "abierta (nucleo ust_ej) 1 (PDX PFTEMP) \<or> mem (nucleo ust_ej) 1 (PDX PFTEMP) = 0 \<and> [2::nat] \<noteq> []"
    "ent (nucleo ust_ej) (ranura_va 1 (utf_fault_va ?utf)) AND (PTE_P OR PTE_U) = PTE_P OR PTE_U"
    using ust_ej_ok(5) by (simp_all only: va r ust_ej_ok(4,6) bits) simp_all
  obtain t where t: "pgfault ?utf ust_ej = Inr ((), ust_ej\<lparr>nucleo := t\<rparr>)"
    "ent t (ranura_va 1 (utf_fault_va ?utf)) = page2pa 3 OR PTE_P OR PTE_U OR PTE_W"
    "\<And>i. i < 1024 \<Longrightarrow> mem t 3 i = mem (nucleo ust_ej) (PGNUM (ent (nucleo ust_ej) (ranura_va 1 (utf_fault_va ?utf)))) i"
    using pgfault_copia [OF ust_ej_ok(1,2) cs en ust_ej_ok(3) h] by blast
  have "mem t 3 7 = mem (nucleo ust_ej) 4 7" using t(3) [of 7] unfolding va r(1) ust_ej_ok(6) entrada_4(1) by simp
  then show ?thesis using t(1,2) unfolding va r(1) by blast
qed

end
