(* ===== verification/Kern_Fork_Contrato.thy ===== *)
theory Kern_Fork_Contrato
  imports Kern_User_Contrato
begin

text \<open>
  What \<open>fork\<close> leaves in the two address spaces. \<open>hijo_pte w\<close> and \<open>padre_pte w\<close> are the entries the child and
  the parent should have for a page whose entry was \<open>w\<close>.
\<close>

section \<open>One page\<close>

definition del_usuario :: "32 word \<Rightarrow> bool" where
  "del_usuario w \<longleftrightarrow> w AND PTE_P \<noteq> 0 \<and> w AND PTE_U \<noteq> 0"

definition escribible :: "32 word \<Rightarrow> bool" where
  "escribible w \<longleftrightarrow> w AND PTE_W \<noteq> 0 \<or> w AND PTE_COW \<noteq> 0"

definition permiso_dup :: "32 word \<Rightarrow> 32 word" where
  "permiso_dup w =
     (PTE_P OR PTE_U OR (if w AND (PTE_PCD OR PTE_PWT) \<noteq> 0 then PTE_PCD OR PTE_PWT else 0)) OR
     (if escribible w then PTE_COW else 0)"

definition hijo_pte :: "32 word \<Rightarrow> 32 word" where
  "hijo_pte w = (if del_usuario w then entrada_pte (PGNUM w) (permiso_dup w) else 0)"

definition padre_pte :: "32 word \<Rightarrow> 32 word" where
  "padre_pte w = (if del_usuario w \<and> escribible w then hijo_pte w else w)"

lemma del_usuario_bits: "del_usuario w \<longleftrightarrow> bit w 0 \<and> bit w 2"
  using and_exp_eq_0_iff_not_bit [of w 0] and_exp_eq_0_iff_not_bit [of w 2]
  by (simp add: del_usuario_def PTE_P_def PTE_U_def)

lemma del_usuario_PU: "del_usuario w \<Longrightarrow> w AND (PTE_P OR PTE_U) = PTE_P OR PTE_U"
proof -
  assume d: "del_usuario w"
  have "(PTE_P OR PTE_U) = set_bit 2 (set_bit 0 (0 :: 32 word))" by (simp add: permisos set_bit_eq_or)
  then show ?thesis
    using d by (simp only:) (rule bit_word_eqI, auto simp: bit_simps del_usuario_bits)
qed

lemma del_usuario_nz: "del_usuario w \<Longrightarrow> w \<noteq> 0"
  by (auto simp: del_usuario_def)

text \<open>The page with number \<open>k\<close>.\<close>

lemma ranura_k: "i * 1024 + j = k \<and> j < 1024 \<longleftrightarrow> i = k div 1024 \<and> j = k mod 1024" for i j k :: nat
  by auto

lemma pagina_k:
  assumes "k < NU * 1024"
  shows "va_ok (push_bit 12 (of_nat k))" "PDX (push_bit 12 (of_nat k)) = k div 1024"
    "ranura_va pd (push_bit 12 (of_nat k)) = (pd, k div 1024, k mod 1024)"
    "(pd, k div 1024, k mod 1024) \<in> ranuras P \<longleftrightarrow> pd \<in> P"
proof -
  have k: "k < 977920" using assms by (simp add: NU_val)
  have e: "push_bit 12 (of_nat k) = page2pa k" by (simp add: page2pa_def)
  have u: "unat (page2pa k) = k * 4096" using k by (intro unat_page2pa) simp
  have n: "PGNUM (page2pa k) = k" unfolding PGNUM_eq u by simp
  show "PDX (push_bit 12 (of_nat k)) = k div 1024"
    "ranura_va pd (push_bit 12 (of_nat k)) = (pd, k div 1024, k mod 1024)"
    unfolding e by (simp_all add: ranura_va_def PDX_PGNUM PTX_PGNUM n)
  have "unat (page2pa k mod PGSIZE) = 0" unfolding unat_mod u by (simp add: PGSIZE_def)
  moreover have "page2pa k < UTOP" using k by (simp add: word_less_nat_alt u UTOP_val)
  ultimately show "va_ok (push_bit 12 (of_nat k))" unfolding e by (simp add: va_ok_def unat_eq_zero)
  have "k div 1024 < NU" using assms by (simp add: less_mult_imp_div_less)
  then show "(pd, k div 1024, k mod 1024) \<in> ranuras P \<longleftrightarrow> pd \<in> P" by (simp add: ranuras_def)
qed

lemma permiso_dup_simps:
  "bajos (permiso_dup w)" "PTE_P OR PTE_U OR permiso_dup w = permiso_dup w" "permiso_dup w AND PTE_W = 0"
  by (simp_all add: permiso_dup_def permisos bajos_def PTE_COW_def)


text \<open>
  The program \<open>c\<close> with directory \<open>pd\<close> and its child \<open>h\<close>, called \<open>hid\<close>, with directory \<open>pc\<close>.
\<close>

definition familia :: "ust \<Rightarrow> nat set \<Rightarrow> nat \<Rightarrow> nat \<Rightarrow> 32 word \<Rightarrow> nat \<Rightarrow> nat \<Rightarrow> bool" where
  "familia u P c pd hid h pc \<longleftrightarrow> corriendo (nucleo u) c pd \<and> tf_cs (registros u) AND 3 = 3 \<and>
     pd \<in> P \<and> pc \<in> P \<and> pd \<noteq> pc \<and> h < length (envs (nucleo u)) \<and>
     nombra (nucleo u) hid h \<and> env_pgdir (envs (nucleo u) ! h) = Some pc"

lemma familia_sigue:
  assumes "familia u P c pd hid h pc" and "corriendo t c pd" and "lados c (nucleo u) t"
  shows "familia (u\<lparr>nucleo := t\<rparr>) P c pd hid h pc"
  using assms lados_campos(1,3,8) [OF assms(3)] by (simp add: familia_def)

text \<open>One mapping of a page of the program in a space of the family.\<close>

lemma mapea_k:
  assumes F: "familia u P c pd hid h pc" and ok: "vm_ok (nucleo u) P xs" and k: "k < NU * 1024"
    and w: "del_usuario (ent_pag (nucleo u) pd k)" and f: "f = PGNUM (ent_pag (nucleo u) pd k)"
    and q: "did = hid \<and> q = pc \<or> did = 0 \<and> q = pd"
    and cabe: "mem (nucleo u) q (k div 1024) \<noteq> 0 \<or> xs \<noteq> []"
    and ref: "unat (pp_ref (pages (nucleo u) ! f)) < 65535" and perm: "bajos perm" "perm AND PTE_W = 0"
  obtains t ys where
    "sys_page_map_u 0 (push_bit 12 (of_nat k)) did (push_bit 12 (of_nat k)) perm u = Inr (0, u\<lparr>nucleo := t\<rparr>)"
    "corriendo t c pd" "lados c (nucleo u) t" "vm_ok t P ys"
    "\<forall>r\<in>ranuras P. ent t r = (if r = (q, k div 1024, k mod 1024) then entrada_pte f (PTE_P OR PTE_U OR perm)
       else ent (nucleo u) r)"
    "\<forall>g. datos (nucleo u) P xs g \<longrightarrow> mem t g = mem (nucleo u) g \<and>
       unat (pp_ref (pages t ! g)) \<le> unat (pp_ref (pages (nucleo u) ! g)) + (if g = f then 1 else 0)"
    "\<forall>p\<in>P. \<forall>i. mem t p i = (if p = q \<and> i = k div 1024 \<and> mem (nucleo u) q i = 0
       then pde_de (hd xs) else mem (nucleo u) p i)"
    "length xs - (if mem (nucleo u) q (k div 1024) = 0 then 1 else 0) \<le> length ys"
proof -
  note K = pagina_k [OF k]
  let ?va = "push_bit 12 (of_nat k) :: 32 word"
  have e: "ent (nucleo u) (ranura_va pd ?va) = ent_pag (nucleo u) pd k" by (simp add: K(3) ent_pag_def)
  have run: "corriendo (nucleo u) c pd" "tf_cs (registros u) AND 3 = 3" "pd \<in> P"
    "nombra (nucleo u) 0 c" "env_pgdir (envs (nucleo u) ! c) = Some pd"
    using F nombra_0 by (auto simp: familia_def corriendo_def)
  obtain de where de: "nombra (nucleo u) did de" "env_pgdir (envs (nucleo u) ! de) = Some q" "q \<in> P"
    using q F run(3-5) by (auto simp: familia_def)
  have f': "f = PGNUM (ent (nucleo u) (ranura_va pd ?va))" using f e by simp
  have nz: "ent (nucleo u) (ranura_va pd ?va) \<noteq> 0" using w del_usuario_nz e by simp
  have sinW: "perm AND PTE_W = PTE_W \<longrightarrow> ent (nucleo u) (ranura_va pd ?va) AND PTE_W = PTE_W"
    using perm(2) by (simp add: PTE_W_def)
  have cb: "mem (nucleo u) q (PDX ?va) \<noteq> 0 \<or> xs \<noteq> []" using cabe by (simp add: K(2))
  note X = sys_page_map_u_ok [OF run(1,2) ok run(4,5,3) de K(1,1) f' nz sinW cb ref perm(1)]
  show thesis
    by (rule X, rule that) (assumption | simp add: K(2,3))+
qed


text \<open>
  The frames mapped in \<open>s\<close> keep their contents, and \<open>f\<close> gets at most \<open>n\<close> references more; only the entry \<open>d\<close>
  of the child's directory may be new.
\<close>

definition datos_igual :: "nat set \<Rightarrow> nat \<Rightarrow> nat \<Rightarrow> kst \<Rightarrow> kst \<Rightarrow> bool" where
  "datos_igual P f n s t \<longleftrightarrow> (\<forall>r\<in>ranuras P. ent s r \<noteq> 0 \<longrightarrow>
     mem t (PGNUM (ent s r)) = mem s (PGNUM (ent s r)) \<and>
     unat (pp_ref (pages t ! PGNUM (ent s r))) \<le>
       unat (pp_ref (pages s ! PGNUM (ent s r))) + (if PGNUM (ent s r) = f then n else 0))"

definition dir_nueva :: "nat set \<Rightarrow> nat \<Rightarrow> nat \<Rightarrow> kst \<Rightarrow> kst \<Rightarrow> bool" where
  "dir_nueva P pc d s t \<longleftrightarrow> mem t pc d \<noteq> 0 \<and>
     (\<forall>p\<in>P. \<forall>i. p \<noteq> pc \<or> i \<noteq> d \<or> mem s p i \<noteq> 0 \<longrightarrow> mem t p i = mem s p i)"

lemma uvpt_k:
  assumes F: "familia u P c pd hid h pc" and au: "autoref (nucleo u) pd" and k: "k < NU * 1024"
    and ab: "abierta (nucleo u) pd (k div 1024)"
  shows "uvpt (of_nat k) u = Inr (ent_pag (nucleo u) pd k, u)"
proof -
  have "mem (nucleo u) pd (k div 1024) AND (PTE_P OR PTE_U) = PTE_P OR PTE_U"
    using bits_sub [of _ "PTE_P OR PTE_U" PTE_W] ab by (simp add: abierta_def or.assoc)
  moreover have "mem (nucleo u) pd (k div 1024) \<noteq> 0" using ab by (auto simp: abierta_def permisos)
  moreover have "k < 2 ^ 20" using k by (simp add: NU_val)
  ultimately show ?thesis
    using F uvpt_lee [of u pd k] au by (simp add: familia_def corriendo_def ent_pag_def ent_def)
qed

lemma duppage_cow:
  assumes F: "familia u P c pd hid h pc" and ok: "vm_ok (nucleo u) P xs" and k: "k < NU * 1024"
    and w: "del_usuario (ent_pag (nucleo u) pd k)" "escribible (ent_pag (nucleo u) pd k)"
    and f: "f = PGNUM (ent_pag (nucleo u) pd k)"
    and cabe: "mem (nucleo u) pc (k div 1024) \<noteq> 0 \<or> xs \<noteq> []"
    and vacia: "ent (nucleo u) (pc, k div 1024, k mod 1024) = 0"
    and ref: "unat (pp_ref (pages (nucleo u) ! f)) < 65534" and perm: "bajos perm" "perm AND PTE_W = 0"
  shows "\<exists>t1 t ys. sys_page_map_u 0 (push_bit 12 (of_nat k)) hid (push_bit 12 (of_nat k)) perm u = Inr (0, u\<lparr>nucleo := t1\<rparr>) \<and>
    sys_page_map_u 0 (push_bit 12 (of_nat k)) 0 (push_bit 12 (of_nat k)) perm (u\<lparr>nucleo := t1\<rparr>) = Inr (0, u\<lparr>nucleo := t\<rparr>) \<and>
    corriendo t c pd \<and> lados c (nucleo u) t \<and> vm_ok t P ys \<and>
    (\<forall>r\<in>ranuras P. ent t r =
       (if r = (pc, k div 1024, k mod 1024) \<or> r = (pd, k div 1024, k mod 1024)
        then entrada_pte f (PTE_P OR PTE_U OR perm) else ent (nucleo u) r)) \<and>
    datos_igual P f 2 (nucleo u) t \<and> dir_nueva P pc (k div 1024) (nucleo u) t \<and>
    length xs - (if mem (nucleo u) pc (k div 1024) = 0 then 1 else 0) \<le> length ys"
proof -
  let ?s = "nucleo u" and ?a = "push_bit 12 (of_nat k) :: 32 word"
  let ?rc = "(pc, k div 1024, k mod 1024)" and ?rd = "(pd, k div 1024, k mod 1024)"
  let ?e = "entrada_pte f (PTE_P OR PTE_U OR perm)"
  note K = pagina_k [OF k]
  have P: "pd \<in> P" "pc \<in> P" "pd \<noteq> pc" using F by (simp_all add: familia_def)
  have ed: "ent ?s ?rd = ent_pag ?s pd k" by (simp add: ent_pag_def)
  have rP: "?rd \<in> ranuras P" "?rc \<in> ranuras P" using K(4) P by simp_all
  have ref1: "unat (pp_ref (pages ?s ! f)) < 65535" using ref by simp
  have q1: "hid = hid \<and> pc = pc \<or> hid = 0 \<and> pc = pd" and q2: "0 = hid \<and> pd = pc \<or> (0 :: 32 word) = 0 \<and> pd = pd"
    by simp_all
  obtain t1 ys1 where A: "sys_page_map_u 0 ?a hid ?a perm u = Inr (0, u\<lparr>nucleo := t1\<rparr>)"
    "corriendo t1 c pd" "lados c ?s t1" "vm_ok t1 P ys1"
    "\<forall>r\<in>ranuras P. ent t1 r = (if r = ?rc then ?e else ent ?s r)"
    "\<forall>g. datos ?s P xs g \<longrightarrow> mem t1 g = mem ?s g \<and>
       unat (pp_ref (pages t1 ! g)) \<le> unat (pp_ref (pages ?s ! g)) + (if g = f then 1 else 0)"
    "\<forall>p\<in>P. \<forall>i. mem t1 p i = (if p = pc \<and> i = k div 1024 \<and> mem ?s pc i = 0 then pde_de (hd xs) else mem ?s p i)"
    "length xs - (if mem ?s pc (k div 1024) = 0 then 1 else 0) \<le> length ys1"
    by (rule mapea_k [OF F ok k w(1) f q1 cabe ref1 perm], rule that) assumption+
  let ?u1 = "u\<lparr>nucleo := t1\<rparr>"
  have F1: "familia ?u1 P c pd hid h pc" by (rule familia_sigue [OF F A(2,3)])
  have e1: "ent t1 ?rd = ent ?s ?rd" using A(5) rP P(3) by simp
  have p1: "ent_pag (nucleo ?u1) pd k = ent_pag ?s pd k" using e1 by (simp add: ent_pag_def)
  have fd: "datos ?s P xs f" using datos_ent [OF ok rP(1)] del_usuario_nz [OF w(1)] f ed by simp
  have ref2: "unat (pp_ref (pages (nucleo ?u1) ! f)) < 65535" using A(6) fd ref by fastforce
  have pde1: "mem (nucleo ?u1) pd (k div 1024) \<noteq> 0 \<or> ys1 \<noteq> []"
  proof -
    have "mem ?s pd (k div 1024) \<noteq> 0" using del_usuario_nz [OF w(1)] by (auto simp: ent_pag_def ent_def)
    then show ?thesis using A(7) P by simp
  qed
  have ok1: "vm_ok (nucleo ?u1) P ys1" using A(4) by simp
  have w1: "del_usuario (ent_pag (nucleo ?u1) pd k)" and f1: "f = PGNUM (ent_pag (nucleo ?u1) pd k)"
    using p1 w f by simp_all
  obtain t ys where B: "sys_page_map_u 0 ?a 0 ?a perm ?u1 = Inr (0, ?u1\<lparr>nucleo := t\<rparr>)"
    "corriendo t c pd" "lados c (nucleo ?u1) t" "vm_ok t P ys"
    "\<forall>r\<in>ranuras P. ent t r = (if r = ?rd then ?e else ent (nucleo ?u1) r)"
    "\<forall>g. datos (nucleo ?u1) P ys1 g \<longrightarrow> mem t g = mem (nucleo ?u1) g \<and>
       unat (pp_ref (pages t ! g)) \<le> unat (pp_ref (pages (nucleo ?u1) ! g)) + (if g = f then 1 else 0)"
    "\<forall>p\<in>P. \<forall>i. mem t p i = (if p = pd \<and> i = k div 1024 \<and> mem (nucleo ?u1) pd i = 0 then pde_de (hd ys1)
       else mem (nucleo ?u1) p i)"
    "length ys1 - (if mem (nucleo ?u1) pd (k div 1024) = 0 then 1 else 0) \<le> length ys"
    by (rule mapea_k [OF F1 ok1 k w1 f1 q2 pde1 ref2 perm], rule that) assumption+
  have t: "\<forall>r\<in>ranuras P. ent t r = (if r = ?rc \<or> r = ?rd then ?e else ent ?s r)"
    using A(5) B(5) by simp
  have sigue: "ent t1 r = ent ?s r" if "r \<in> ranuras P" "ent ?s r \<noteq> 0" for r
    using A(5) that vacia by auto
  have di: "datos_igual P f 2 ?s t" unfolding datos_igual_def
  proof (intro ballI impI)
    fix r assume r: "r \<in> ranuras P" "ent ?s r \<noteq> 0"
    have d: "datos ?s P xs (PGNUM (ent ?s r))" "datos (nucleo ?u1) P ys1 (PGNUM (ent ?s r))"
      using datos_ent [OF ok r] datos_ent [OF A(4) r(1)] sigue [OF r] r(2) by simp_all
    show "mem t (PGNUM (ent ?s r)) = mem ?s (PGNUM (ent ?s r)) \<and>
      unat (pp_ref (pages t ! PGNUM (ent ?s r))) \<le>
        unat (pp_ref (pages ?s ! PGNUM (ent ?s r))) + (if PGNUM (ent ?s r) = f then 2 else 0)"
      using A(6) [rule_format, OF d(1)] B(6) [rule_format, OF d(2)] by (auto split: if_splits)
  qed
  have pd0: "mem ?s pd (k div 1024) \<noteq> 0" using del_usuario_nz [OF w(1)] by (auto simp: ent_pag_def ent_def)
  have m1: "mem t p i = mem t1 p i" if "p \<in> P" for p i
    using B(7) A(7) that pd0 P by (cases "p = pd \<and> i = k div 1024") auto
  have dn: "dir_nueva P pc (k div 1024) ?s t" unfolding dir_nueva_def
    using A(7) P m1 by auto
  have len: "length xs - (if mem ?s pc (k div 1024) = 0 then 1 else 0) \<le> length ys"
  proof -
    have "mem (nucleo ?u1) pd (k div 1024) \<noteq> 0" using A(7) pd0 P by simp
    then show ?thesis using A(8) B(8) by simp
  qed
  have la: "lados c ?s t" using lados_trans [OF A(3), of t] B(3) by simp
  have B1: "sys_page_map_u 0 ?a 0 ?a perm ?u1 = Inr (0, u\<lparr>nucleo := t\<rparr>)" using B(1) by simp
  show ?thesis
    by (rule exI, rule exI, rule exI) (rule conjI [OF A(1) conjI [OF B1 conjI [OF B(2) conjI [OF la conjI [OF B(4)
      conjI [OF t conjI [OF di conjI [OF dn len]]]]]]]])
qed

text \<open>A page that is not written to is only mapped in the child.\<close>

lemma duppage_lee:
  assumes F: "familia u P c pd hid h pc" and ok: "vm_ok (nucleo u) P xs" and k: "k < NU * 1024"
    and w: "del_usuario (ent_pag (nucleo u) pd k)" and f: "f = PGNUM (ent_pag (nucleo u) pd k)"
    and cabe: "mem (nucleo u) pc (k div 1024) \<noteq> 0 \<or> xs \<noteq> []"
    and ref: "unat (pp_ref (pages (nucleo u) ! f)) < 65534" and perm: "bajos perm" "perm AND PTE_W = 0"
  shows "\<exists>t ys. sys_page_map_u 0 (push_bit 12 (of_nat k)) hid (push_bit 12 (of_nat k)) perm u = Inr (0, u\<lparr>nucleo := t\<rparr>) \<and>
    corriendo t c pd \<and> lados c (nucleo u) t \<and> vm_ok t P ys \<and>
    (\<forall>r\<in>ranuras P. ent t r = (if r = (pc, k div 1024, k mod 1024)
        then entrada_pte f (PTE_P OR PTE_U OR perm) else ent (nucleo u) r)) \<and>
    datos_igual P f 2 (nucleo u) t \<and> dir_nueva P pc (k div 1024) (nucleo u) t \<and>
    length xs - (if mem (nucleo u) pc (k div 1024) = 0 then 1 else 0) \<le> length ys"
proof -
  let ?s = "nucleo u" and ?a = "push_bit 12 (of_nat k) :: 32 word" and ?rc = "(pc, k div 1024, k mod 1024)"
  have ref1: "unat (pp_ref (pages ?s ! f)) < 65535" using ref by simp
  have q1: "hid = hid \<and> pc = pc \<or> hid = 0 \<and> pc = pd" by simp
  obtain t ys where A: "sys_page_map_u 0 ?a hid ?a perm u = Inr (0, u\<lparr>nucleo := t\<rparr>)"
    "corriendo t c pd" "lados c ?s t" "vm_ok t P ys"
    "\<forall>r\<in>ranuras P. ent t r = (if r = ?rc then entrada_pte f (PTE_P OR PTE_U OR perm) else ent ?s r)"
    "\<forall>g. datos ?s P xs g \<longrightarrow> mem t g = mem ?s g \<and>
       unat (pp_ref (pages t ! g)) \<le> unat (pp_ref (pages ?s ! g)) + (if g = f then 1 else 0)"
    "\<forall>p\<in>P. \<forall>i. mem t p i = (if p = pc \<and> i = k div 1024 \<and> mem ?s pc i = 0 then pde_de (hd xs) else mem ?s p i)"
    "length xs - (if mem ?s pc (k div 1024) = 0 then 1 else 0) \<le> length ys"
    by (rule mapea_k [OF F ok k w f q1 cabe ref1 perm], rule that) assumption+
  have di: "datos_igual P f 2 ?s t" unfolding datos_igual_def
  proof (intro ballI impI)
    fix r assume r: "r \<in> ranuras P" "ent ?s r \<noteq> 0"
    show "mem t (PGNUM (ent ?s r)) = mem ?s (PGNUM (ent ?s r)) \<and>
      unat (pp_ref (pages t ! PGNUM (ent ?s r))) \<le>
        unat (pp_ref (pages ?s ! PGNUM (ent ?s r))) + (if PGNUM (ent ?s r) = f then 2 else 0)"
      using A(6) [rule_format, OF datos_ent [OF ok r]] by (auto split: if_splits)
  qed
  have "pc \<in> P" using F by (simp add: familia_def)
  then have dn: "dir_nueva P pc (k div 1024) ?s t" unfolding dir_nueva_def using A(7) by auto
  show ?thesis
    by (rule exI, rule exI) (rule conjI [OF A(1) conjI [OF A(2) conjI [OF A(3) conjI [OF A(4)
      conjI [OF A(5) conjI [OF di conjI [OF dn A(8)]]]]]]])
qed

text \<open>The permissions \<open>duppage\<close> computes before it looks at the write bits.\<close>

definition permiso_base :: "32 word \<Rightarrow> 32 word" where
  "permiso_base w = (if w AND (PTE_PCD OR PTE_PWT) \<noteq> 0 then (PTE_U OR PTE_P) OR (PTE_PCD OR PTE_PWT) else PTE_U OR PTE_P)"

lemma permiso_base_dup:
  "PTE_P OR PTE_U OR (permiso_base w OR PTE_COW) = permiso_dup w" if "escribible w"
  using that by (simp add: permiso_base_def permiso_dup_def permisos PTE_COW_def)

lemma permiso_base_lee: "\<not> escribible w \<Longrightarrow> PTE_P OR PTE_U OR permiso_base w = permiso_dup w"
  by (simp add: permiso_base_def permiso_dup_def permisos)

lemma permiso_base_simps:
  "bajos (permiso_base w)" "permiso_base w AND PTE_W = 0"
  "bajos (permiso_base w OR PTE_COW)" "(permiso_base w OR PTE_COW) AND PTE_W = 0"
  by (simp_all add: permiso_base_def permisos bajos_def PTE_COW_def)

lemma duppage_base:
  "duppage envid pn u = and_then (uvpt pn u) (\<lambda>(pte, u).
     if pte AND PTE_P = 0 \<or> pte AND PTE_U = 0 then panic_u u
     else if escribible pte then
       and_then (sys_page_map_u 0 (push_bit 12 pn) envid (push_bit 12 pn) (permiso_base pte OR PTE_COW) u) (\<lambda>(r, u).
         if r < 0 then panic_u u
         else and_then (sys_page_map_u 0 (push_bit 12 pn) 0 (push_bit 12 pn) (permiso_base pte OR PTE_COW) u) (\<lambda>(r, u).
           if r < 0 then panic_u u else Inr (0, u)))
     else and_then (sys_page_map_u 0 (push_bit 12 pn) envid (push_bit 12 pn) (permiso_base pte) u) (\<lambda>(r, u).
       if r < 0 then panic_u u else Inr (0, u)))"
  by (simp only: duppage_def permiso_base_def escribible_def Let_def)

lemma duppage_ok:
  assumes F: "familia u P c pd hid h pc" and ok: "vm_ok (nucleo u) P xs" and k: "k < NU * 1024"
    and au: "autoref (nucleo u) pd" "abierta (nucleo u) pd (k div 1024)"
    and w: "w = ent_pag (nucleo u) pd k" "del_usuario w"
    and cabe: "mem (nucleo u) pc (k div 1024) \<noteq> 0 \<or> xs \<noteq> []"
    and vacia: "ent (nucleo u) (pc, k div 1024, k mod 1024) = 0"
    and ref: "unat (pp_ref (pages (nucleo u) ! PGNUM w)) < 65534"
  shows "\<exists>t ys. duppage hid (of_nat k) u = Inr (0, u\<lparr>nucleo := t\<rparr>) \<and>
    corriendo t c pd \<and> lados c (nucleo u) t \<and> vm_ok t P ys \<and>
    (\<forall>r\<in>ranuras P. ent t r = (if r = (pc, k div 1024, k mod 1024) then hijo_pte w
       else if r = (pd, k div 1024, k mod 1024) then padre_pte w else ent (nucleo u) r)) \<and>
    datos_igual P (PGNUM w) 2 (nucleo u) t \<and> dir_nueva P pc (k div 1024) (nucleo u) t \<and>
    length xs - (if mem (nucleo u) pc (k div 1024) = 0 then 1 else 0) \<le> length ys"
proof -
  let ?a = "push_bit 12 (of_nat k) :: 32 word"
  have uv: "uvpt (of_nat k) u = Inr (w, u)" unfolding w(1) by (rule uvpt_k [OF F au(1) k au(2)])
  have pu: "w AND PTE_P \<noteq> 0" "w AND PTE_U \<noteq> 0" using w(2) by (simp_all add: del_usuario_def)
  have w': "del_usuario (ent_pag (nucleo u) pd k)" "PGNUM w = PGNUM (ent_pag (nucleo u) pd k)" using w by simp_all
  have ne: "(pc, k div 1024, k mod 1024) \<noteq> (pd, k div 1024, k mod 1024)" using F by (auto simp: familia_def)
  show ?thesis
  proof (cases "escribible w")
    case True
    have esc: "escribible (ent_pag (nucleo u) pd k)" using True w by simp
    have e: "entrada_pte (PGNUM w) (PTE_P OR PTE_U OR (permiso_base w OR PTE_COW)) = hijo_pte w" "padre_pte w = hijo_pte w"
      using True w(2) by (simp_all add: permiso_base_dup hijo_pte_def padre_pte_def)
    from duppage_cow [OF F ok k w'(1) esc w'(2) cabe vacia ref permiso_base_simps(3,4) [of w]]
    obtain t1 t ys where D: "sys_page_map_u 0 ?a hid ?a (permiso_base w OR PTE_COW) u = Inr (0, u\<lparr>nucleo := t1\<rparr>)"
      "sys_page_map_u 0 ?a 0 ?a (permiso_base w OR PTE_COW) (u\<lparr>nucleo := t1\<rparr>) = Inr (0, u\<lparr>nucleo := t\<rparr>)"
      and R: "corriendo t c pd" "lados c (nucleo u) t" "vm_ok t P ys"
      "\<forall>r\<in>ranuras P. ent t r = (if r = (pc, k div 1024, k mod 1024) \<or> r = (pd, k div 1024, k mod 1024)
         then hijo_pte w else ent (nucleo u) r)"
      "datos_igual P (PGNUM w) 2 (nucleo u) t" "dir_nueva P pc (k div 1024) (nucleo u) t"
      "length xs - (if mem (nucleo u) pc (k div 1024) = 0 then 1 else 0) \<le> length ys"
      unfolding e(1) by blast
    have "duppage hid (of_nat k) u = Inr (0, u\<lparr>nucleo := t\<rparr>)"
      using pu True D by (simp add: duppage_base uv)
    moreover have "\<forall>r\<in>ranuras P. ent t r = (if r = (pc, k div 1024, k mod 1024) then hijo_pte w
       else if r = (pd, k div 1024, k mod 1024) then padre_pte w else ent (nucleo u) r)"
      using R(4) e(2) by simp
    ultimately show ?thesis using R by blast
  next
    case False
    have e: "entrada_pte (PGNUM w) (PTE_P OR PTE_U OR permiso_base w) = hijo_pte w" "padre_pte w = ent (nucleo u) (pd, k div 1024, k mod 1024)"
      using False w by (simp_all add: permiso_base_lee hijo_pte_def padre_pte_def ent_pag_def)
    from duppage_lee [OF F ok k w' cabe ref permiso_base_simps(1,2) [of w]]
    obtain t ys where D: "sys_page_map_u 0 ?a hid ?a (permiso_base w) u = Inr (0, u\<lparr>nucleo := t\<rparr>)"
      and R: "corriendo t c pd" "lados c (nucleo u) t" "vm_ok t P ys"
      "\<forall>r\<in>ranuras P. ent t r = (if r = (pc, k div 1024, k mod 1024) then hijo_pte w else ent (nucleo u) r)"
      "datos_igual P (PGNUM w) 2 (nucleo u) t" "dir_nueva P pc (k div 1024) (nucleo u) t"
      "length xs - (if mem (nucleo u) pc (k div 1024) = 0 then 1 else 0) \<le> length ys"
      unfolding e(1) by blast
    have "duppage hid (of_nat k) u = Inr (0, u\<lparr>nucleo := t\<rparr>)"
      using pu False D by (simp add: duppage_base uv)
    moreover have "\<forall>r\<in>ranuras P. ent t r = (if r = (pc, k div 1024, k mod 1024) then hijo_pte w
       else if r = (pd, k div 1024, k mod 1024) then padre_pte w else ent (nucleo u) r)"
      using R(4) e(2) by simp
    ultimately show ?thesis using R by blast
  qed
qed

end
