(* ===== verification/Kern_Fork.thy ===== *)
theory Kern_Fork
  imports Kern_Fork_Contrato
begin

text \<open>
  The loop of \<open>fork\<close> over the pages below the exception stack, as an invariant of the page it has reached, and
  the rest of the parent's work on it.
\<close>

section \<open>The directory through \<open>UVPD\<close>\<close>

text \<open>The directory is the table of the pages from \<open>UVPT\<close> on.\<close>

lemma uvpd_lee:
  assumes "cr3 (nucleo u) = pd" and au: "autoref (nucleo u) pd" and d: "d < 1024"
  shows "uvpd (of_nat d) u = Inr (mem (nucleo u) pd d, u)"
proof -
  have e: "uvpd (of_nat d) u = uvpt (of_nat (979968 + d)) u"
    by (simp add: uvpd_def uvpt_def UVPD_def mapa drop_bit_eq_div)
  have "PDX UVPT = 957" by (simp add: PDX_div mapa)
  then have m: "mem (nucleo u) pd 957 = page2pa pd OR PTE_P OR PTE_U" using au by (simp add: autoref_def)
  have n: "(979968 + d) div 1024 = 957" "(979968 + d) mod 1024 = d" "979968 + d < 2 ^ 20"
  proof -
    have "979968 + d = d + 957 * 1024" by simp
    then show "(979968 + d) div 1024 = 957" "(979968 + d) mod 1024 = d"
      using d by (simp_all only: div_mult_self1 mod_mult_self1 mod_less)
  qed (use d in simp)
  have pdn: "PGNUM (page2pa pd OR PTE_P OR PTE_U) = pd"
    using au unfolding autoref_def by (metis PGNUM_entrada bajos_or bajos_permisos(1,3) or.assoc)
  have "(page2pa pd OR PTE_P OR PTE_U) AND (PTE_P OR PTE_U) = PTE_P OR PTE_U"
    by (rule bit_word_eqI) (auto simp: bit_simps)
  then show ?thesis using uvpt_lee [OF assms(1) au n(3)] unfolding e n(1,2) m pdn by simp
qed


lemma bits_abierta:
  assumes "abierta s pd d"
  shows "mem s pd d AND PTE_P \<noteq> 0" "mem s pd d AND PTE_U \<noteq> 0"
proof -
  have "mem s pd d AND (PTE_U OR PTE_W) = PTE_U OR PTE_W" "mem s pd d AND PTE_P = PTE_P"
    using assms bits_parte [of _ PTE_P "PTE_U OR PTE_W"] bits_sub [of _ PTE_P "PTE_U OR PTE_W"]
    by (simp_all add: abierta_def)
  then show "mem s pd d AND PTE_P \<noteq> 0" "mem s pd d AND PTE_U \<noteq> 0"
    using bits_sub [of _ PTE_U PTE_W] by (simp_all add: permisos)
qed


section \<open>The invariant\<close>

text \<open>The pages of the directory before \<open>k\<close> mapped to the frame \<open>f\<close>.\<close>

definition veces :: "kst \<Rightarrow> nat \<Rightarrow> nat \<Rightarrow> nat \<Rightarrow> nat" where
  "veces s pd k f = length (filter (\<lambda>n. ent_pag s pd n \<noteq> 0 \<and> PGNUM (ent_pag s pd n) = f) [0..<k])"

lemma veces_Suc:
  "veces s pd (Suc k) f = veces s pd k f + (if ent_pag s pd k \<noteq> 0 \<and> PGNUM (ent_pag s pd k) = f then 1 else 0)"
  by (simp add: veces_def)

lemma veces_mono: "k \<le> n \<Longrightarrow> veces s pd k f \<le> veces s pd n f"
  by (induction n) (auto simp: veces_Suc le_Suc_eq)

text \<open>The tables the child still needs: those of the parent and the one of the exception stack.\<close>

definition tablas_faltan :: "kst \<Rightarrow> nat \<Rightarrow> nat \<Rightarrow> kst \<Rightarrow> nat set" where
  "tablas_faltan s pd pc t =
     {i. i < NU \<and> (mem s pd i \<noteq> 0 \<or> i = PDX (UXSTACKTOP - PGSIZE)) \<and> mem t pc i = 0}"

text \<open>
  \<open>t\<close> is \<open>s\<close> with the pages before \<open>k\<close> copied from the parent's directory \<open>pd\<close> to the child's \<open>pc\<close>; one frame
  more than the tables still to come is free.
\<close>

definition copiada :: "kst \<Rightarrow> nat set \<Rightarrow> nat \<Rightarrow> nat \<Rightarrow> nat \<Rightarrow> kst \<Rightarrow> nat list \<Rightarrow> bool" where
  "copiada s P pd pc k t ys \<longleftrightarrow> vm_ok t P ys \<and>
     (\<forall>p i j. (p, i, j) \<in> ranuras P \<longrightarrow> ent t (p, i, j) =
        (if i * 1024 + j < k
         then if p = pc then hijo_pte (ent s (pd, i, j))
              else if p = pd then padre_pte (ent s (p, i, j)) else ent s (p, i, j)
         else ent s (p, i, j))) \<and>
     (\<forall>r\<in>ranuras P. ent s r \<noteq> 0 \<longrightarrow> mem t (PGNUM (ent s r)) = mem s (PGNUM (ent s r)) \<and>
        unat (pp_ref (pages t ! PGNUM (ent s r))) \<le>
          unat (pp_ref (pages s ! PGNUM (ent s r))) + 2 * veces s pd k (PGNUM (ent s r))) \<and>
     (\<forall>p\<in>P. \<forall>i. p \<noteq> pc \<or> NU \<le> i \<longrightarrow> mem t p i = mem s p i) \<and>
     card (tablas_faltan s pd pc t) + 1 \<le> length ys"

text \<open>What the copy needs of the two spaces at the beginning.\<close>

definition copiable :: "kst \<Rightarrow> nat set \<Rightarrow> nat \<Rightarrow> nat \<Rightarrow> nat list \<Rightarrow> bool" where
  "copiable s P pd pc xs \<longleftrightarrow> vm_ok s P xs \<and> autoref s pd \<and>
     (\<forall>i<NU. mem s pd i = 0 \<or> abierta s pd i) \<and> (\<forall>i<NU. mem s pc i = 0) \<and>
     card {i. i < NU \<and> (mem s pd i \<noteq> 0 \<or> i = PDX (UXSTACKTOP - PGSIZE))} + 1 \<le> length xs \<and>
     (\<forall>n<NU * 1024. ent_pag s pd n \<noteq> 0 \<longrightarrow> unat (pp_ref (pages s ! PGNUM (ent_pag s pd n))) +
        2 * veces s pd (NU * 1024) (PGNUM (ent_pag s pd n)) < 65536)"

lemma copiada_0:
  assumes "copiable s P pd pc xs"
  shows "copiada s P pd pc 0 s xs"
proof -
  have "tablas_faltan s pd pc s = {i. i < NU \<and> (mem s pd i \<noteq> 0 \<or> i = PDX (UXSTACKTOP - PGSIZE))}"
    using assms by (auto simp: tablas_faltan_def copiable_def)
  then show ?thesis using assms by (simp add: copiada_def copiable_def)
qed

lemma PGNUM_padre [simp]: "PGNUM (padre_pte w) = PGNUM w"
proof -
  have "bajos (permiso_dup w OR PTE_P)" by (intro bajos_or permiso_dup_simps bajos_permisos)
  then have "PGNUM (entrada_pte (PGNUM w) (permiso_dup w)) = PGNUM w"
    unfolding entrada_pte_def by (metis PGNUM_entrada PGNUM_lt or.assoc)
  then show ?thesis by (simp add: padre_pte_def hijo_pte_def)
qed

lemma padre_nz: "padre_pte w = 0 \<longleftrightarrow> w = 0"
  using del_usuario_nz by (auto simp: padre_pte_def hijo_pte_def)

lemma no_del_usuario: "\<not> del_usuario w \<Longrightarrow> hijo_pte w = 0" "\<not> del_usuario w \<Longrightarrow> padre_pte w = w"
  by (simp_all add: hijo_pte_def padre_pte_def)

lemma ranura_Suc: "(i :: nat) * 1024 + j < Suc k \<longleftrightarrow> i * 1024 + j < k \<or> (i = k div 1024 \<and> j = k mod 1024)" if "j < 1024"
  using ranura_k [of i j k] that by (auto simp: less_Suc_eq)

text \<open>A page that is not the user's is left out.\<close>

lemma copiada_salta:
  assumes C: "copiada s P pd pc k t ys" and vac: "\<And>r. r \<in> ranuras {pc} \<Longrightarrow> ent s r = 0"
    and n: "\<not> del_usuario (ent_pag s pd k)"
  shows "copiada s P pd pc (Suc k) t ys"
proof -
  have "ent t (p, i, j) = (if i * 1024 + j < Suc k
         then if p = pc then hijo_pte (ent s (pd, i, j))
              else if p = pd then padre_pte (ent s (p, i, j)) else ent s (p, i, j)
         else ent s (p, i, j))" if r: "(p, i, j) \<in> ranuras P" for p i j
  proof (cases "i = k div 1024 \<and> j = k mod 1024")
    case True
    then have "ent s (pd, i, j) = ent_pag s pd k" by (simp add: ent_pag_def)
    moreover have "p = pc \<Longrightarrow> ent s (p, i, j) = 0" using vac [of "(p, i, j)"] r by (simp add: ranuras_def)
    moreover have "\<not> i * 1024 + j < k" "i * 1024 + j < Suc k" using True by simp_all
    ultimately show ?thesis using C r no_del_usuario [OF n] by (simp add: copiada_def)
  next
    case False
    have "j < 1024" using r by (simp add: ranuras_def)
    then have "i * 1024 + j < Suc k \<longleftrightarrow> i * 1024 + j < k" using ranura_Suc [of j i k] False by blast
    then show ?thesis using C r by (simp only: copiada_def)
  qed
  moreover have "veces s pd k f \<le> veces s pd (Suc k) f" for f by (simp add: veces_Suc)
  ultimately show ?thesis using C unfolding copiada_def
    by (meson add_le_mono le_refl le_trans mult_le_mono)
qed

text \<open>A page that was duplicated.\<close>

lemma tablas_faltan_menos:
  assumes d: "dir_nueva P pc (k div 1024) t t'" and pc: "pc \<in> P" and k: "k < NU * 1024"
    and m: "mem s pd (k div 1024) \<noteq> 0" and l: "card (tablas_faltan s pd pc t) + 1 \<le> length ys"
      "length ys - (if mem t pc (k div 1024) = 0 then 1 else 0) \<le> length zs"
  shows "card (tablas_faltan s pd pc t') + 1 \<le> length zs"
proof -
  have i: "k div 1024 < NU" using k by (simp add: less_mult_imp_div_less)
  have e: "tablas_faltan s pd pc t' = tablas_faltan s pd pc t - {k div 1024}"
  proof -
    have "mem t' pc i = mem t pc i" if "i \<noteq> k div 1024" for i using d pc that unfolding dir_nueva_def by blast
    moreover have "mem t' pc (k div 1024) \<noteq> 0" using d by (simp add: dir_nueva_def)
    ultimately have "i \<in> tablas_faltan s pd pc t' \<longleftrightarrow> i \<in> tablas_faltan s pd pc t - {k div 1024}" for i
      by (cases "i = k div 1024") (simp_all add: tablas_faltan_def)
    then show ?thesis by blast
  qed
  have fin: "finite (tablas_faltan s pd pc t)" by (simp add: tablas_faltan_def)
  show ?thesis
  proof (cases "mem t pc (k div 1024) = 0")
    case True
    then have in_t: "k div 1024 \<in> tablas_faltan s pd pc t" using i m by (simp add: tablas_faltan_def)
    then have "card (tablas_faltan s pd pc t') = card (tablas_faltan s pd pc t) - 1"
      unfolding e by (rule card_Diff_singleton)
    moreover have "0 < card (tablas_faltan s pd pc t)" using in_t fin by (auto simp: card_gt_0_iff)
    ultimately show ?thesis using l True by simp
  next
    case False
    then have "k div 1024 \<notin> tablas_faltan s pd pc t" by (simp add: tablas_faltan_def)
    then show ?thesis using l False unfolding e by simp
  qed
qed

lemma copiada_sigue:
  assumes C: "copiada s P pd pc k t ys" and k: "k < NU * 1024" and P: "pd \<in> P" "pc \<in> P" "pd \<noteq> pc"
    and vac: "\<And>r. r \<in> ranuras {pc} \<Longrightarrow> ent s r = 0" and w: "w = ent_pag s pd k" "w \<noteq> 0"
    and ok: "vm_ok t' P zs" and e: "\<forall>r\<in>ranuras P. ent t' r = (if r = (pc, k div 1024, k mod 1024) then hijo_pte w
       else if r = (pd, k div 1024, k mod 1024) then padre_pte w else ent t r)"
    and di: "datos_igual P (PGNUM w) 2 t t'" and dn: "dir_nueva P pc (k div 1024) t t'"
    and l: "length ys - (if mem t pc (k div 1024) = 0 then 1 else 0) \<le> length zs"
  shows "copiada s P pd pc (Suc k) t' zs"
proof -
  note D = C [unfolded copiada_def]
  have md: "mem s pd (k div 1024) \<noteq> 0" using w by (auto simp: ent_pag_def ent_def)
  have kd: "k div 1024 < NU" using k by (simp add: less_mult_imp_div_less)
  have A: "ent t' (p, i, j) = (if i * 1024 + j < Suc k
         then if p = pc then hijo_pte (ent s (pd, i, j))
              else if p = pd then padre_pte (ent s (p, i, j)) else ent s (p, i, j)
         else ent s (p, i, j))" if r: "(p, i, j) \<in> ranuras P" for p i j
  proof -
    have j: "j < 1024" using r by (simp add: ranuras_def)
    have t: "ent t (p, i, j) = (if i * 1024 + j < k
         then if p = pc then hijo_pte (ent s (pd, i, j))
              else if p = pd then padre_pte (ent s (p, i, j)) else ent s (p, i, j)
         else ent s (p, i, j))" using D r by blast
    show ?thesis
    proof (cases "i = k div 1024 \<and> j = k mod 1024")
      case True
      then have "ent s (pd, i, j) = w" "\<not> i * 1024 + j < k" "i * 1024 + j < Suc k" using w(1) by (simp_all add: ent_pag_def)
      then show ?thesis using e [rule_format, OF r] t True P(3) by simp
    next
      case False
      then have "i * 1024 + j < Suc k \<longleftrightarrow> i * 1024 + j < k" using ranura_Suc [OF j, of i k] by blast
      then show ?thesis using e [rule_format, OF r] t False by simp
    qed
  qed
  have B: "mem t' (PGNUM (ent s r)) = mem s (PGNUM (ent s r)) \<and>
        unat (pp_ref (pages t' ! PGNUM (ent s r))) \<le>
          unat (pp_ref (pages s ! PGNUM (ent s r))) + 2 * veces s pd (Suc k) (PGNUM (ent s r))"
    if r: "r \<in> ranuras P" "ent s r \<noteq> 0" for r
  proof -
    obtain p i j where x: "r = (p, i, j)" by (cases r)
    have "p \<noteq> pc" using vac [of r] r x by (auto simp: ranuras_def)
    then have q: "PGNUM (ent t r) = PGNUM (ent s r)" "ent t r \<noteq> 0"
      using D r padre_nz unfolding x by (auto split: if_splits)
    have "mem t' (PGNUM (ent s r)) = mem t (PGNUM (ent s r)) \<and> unat (pp_ref (pages t' ! PGNUM (ent s r))) \<le>
          unat (pp_ref (pages t ! PGNUM (ent s r))) + (if PGNUM (ent s r) = PGNUM w then 2 else 0)"
      using di r(1) q unfolding datos_igual_def by metis
    moreover have "veces s pd (Suc k) (PGNUM (ent s r)) =
        veces s pd k (PGNUM (ent s r)) + (if PGNUM (ent s r) = PGNUM w then 1 else 0)"
      using w by (auto simp: veces_Suc)
    moreover have "mem t (PGNUM (ent s r)) = mem s (PGNUM (ent s r))" "unat (pp_ref (pages t ! PGNUM (ent s r))) \<le>
          unat (pp_ref (pages s ! PGNUM (ent s r))) + 2 * veces s pd k (PGNUM (ent s r))"
      using D r by blast+
    ultimately show ?thesis by (auto split: if_splits)
  qed
  have M: "mem t' p i = mem s p i" if "p \<in> P" "p \<noteq> pc \<or> NU \<le> i" for p i
  proof -
    have "mem t p i = mem s p i" using D that by blast
    moreover have "p \<noteq> pc \<or> i \<noteq> k div 1024" using that(2) kd by auto
    ultimately show ?thesis using dn that(1) unfolding dir_nueva_def by metis
  qed
  have L: "card (tablas_faltan s pd pc t') + 1 \<le> length zs"
    using tablas_faltan_menos [OF dn P(2) k md _ l] D by blast
  show ?thesis unfolding copiada_def using ok A B M L by blast
qed


section \<open>One turn of the loop\<close>

lemma fork_pagina_ok:
  assumes C: "copiada s P pd pc k (nucleo u) ys" and ini: "copiable s P pd pc xs" and F: "familia u P c pd hid h pc"
    and k: "k < NU * 1024 - 1"
  shows "\<exists>t ys. fork_pagina hid (of_nat k) u = Inr ((), u\<lparr>nucleo := t\<rparr>) \<and> corriendo t c pd \<and>
    lados c (nucleo u) t \<and> copiada s P pd pc (Suc k) t ys"
proof -
  let ?t = "nucleo u" and ?w = "ent_pag s pd k"
  note D = C [unfolded copiada_def] and I = ini [unfolded copiable_def]
  have k1: "k < NU * 1024" and kn: "k < 977919" using k by (simp_all add: NU_val)
  have kd: "k div 1024 < NU" using k1 by (simp add: less_mult_imp_div_less)
  have P: "pd \<in> P" "pc \<in> P" "pd \<noteq> pc" and run: "corriendo ?t c pd" "cr3 ?t = pd"
    using F by (simp_all add: familia_def corriendo_def)
  have rP: "(pd, k div 1024, k mod 1024) \<in> ranuras P" "(pc, k div 1024, k mod 1024) \<in> ranuras P"
    using pagina_k(4) [OF k1] P by simp_all
  have vac: "ent s r = 0" if "r \<in> ranuras {pc}" for r using I that by (auto simp: ranuras_def ent_def)
  have mpd: "mem ?t pd i = mem s pd i" for i using D P by blast
  have au: "autoref ?t pd" using I mpd by (simp add: autoref_def)
  have et: "ent_pag ?t pd k = ?w" using D rP(1) by (simp add: ent_pag_def)
  have ec: "ent ?t (pc, k div 1024, k mod 1024) = 0"
    using D rP(2) vac [of "(pc, k div 1024, k mod 1024)"] rP(2) by (simp add: ranuras_def)
  have uvd: "uvpd (drop_bit 10 (of_nat k)) u = Inr (mem s pd (k div 1024), u)"
  proof -
    have "drop_bit 10 (of_nat k :: 32 word) = of_nat (k div 1024)"
      using kn by (simp add: word_unat_eq_iff unat_desplaza unat_of_nat take_bit_eq_mod)
    then show ?thesis using uvpd_lee [OF run(2) au, of "k div 1024"] kd mpd by (simp add: NU_val)
  qed
  have xst: "(of_nat k :: 32 word) \<noteq> drop_bit 12 UXSTACKTOP - 1"
  proof -
    have "unat (of_nat k :: 32 word) = k" using kn by (simp add: unat_of_nat take_bit_eq_mod)
    moreover have "unat (drop_bit 12 UXSTACKTOP - 1) = 977919" by (simp add: UXSTACKTOP_def mapa drop_bit_eq_div)
    ultimately show ?thesis using kn by force
  qed
  have igual: "u\<lparr>nucleo := ?t\<rparr> = u" by simp
  have lados: "lados c ?t ?t" by (rule solo_vm_lados) simp
  show ?thesis
  proof (cases "del_usuario ?w")
    case False
    have "fork_pagina hid (of_nat k) u = Inr ((), u)"
    proof (cases "mem s pd (k div 1024) = 0")
      case True
      then show ?thesis using uvd xst by (simp add: fork_pagina_def)
    next
      case ab: False
      then have a: "abierta ?t pd (k div 1024)" using I kd mpd unfolding abierta_def by metis
      show ?thesis
        using uvd xst uvpt_k [OF F au k1 a] False et by (auto simp: fork_pagina_def del_usuario_def)
    qed
    then show ?thesis using copiada_salta [OF C vac False] run(1) lados igual by metis
  next
    case True
    have w0: "?w \<noteq> 0" using del_usuario_nz [OF True] .
    then have nz: "mem s pd (k div 1024) \<noteq> 0" by (auto simp: ent_pag_def ent_def)
    then have a: "abierta ?t pd (k div 1024)" using I kd mpd unfolding abierta_def by metis
    have pu: "mem s pd (k div 1024) AND PTE_P \<noteq> 0" "mem s pd (k div 1024) AND PTE_U \<noteq> 0"
      using bits_abierta [OF a] mpd by simp_all
    have ref: "unat (pp_ref (pages ?t ! PGNUM ?w)) < 65534"
    proof -
      have "unat (pp_ref (pages s ! PGNUM ?w)) + 2 * veces s pd (NU * 1024) (PGNUM ?w) < 65536"
        using I k1 w0 by blast
      moreover have "veces s pd (Suc k) (PGNUM ?w) \<le> veces s pd (NU * 1024) (PGNUM ?w)"
        by (rule veces_mono) (use k1 in simp)
      moreover have "veces s pd (Suc k) (PGNUM ?w) = Suc (veces s pd k (PGNUM ?w))" using w0 by (simp add: veces_Suc)
      moreover have "unat (pp_ref (pages ?t ! PGNUM ?w)) \<le>
          unat (pp_ref (pages s ! PGNUM ?w)) + 2 * veces s pd k (PGNUM ?w)"
        using D rP(1) w0 unfolding ent_pag_def by blast
      ultimately show ?thesis by linarith
    qed
    have cabe: "mem ?t pc (k div 1024) \<noteq> 0 \<or> ys \<noteq> []" using D by auto
    from duppage_ok [OF F _ k1 au a et [symmetric] True cabe ec ref, OF conjunct1 [OF D]]
    obtain t zs where R: "duppage hid (of_nat k) u = Inr (0, u\<lparr>nucleo := t\<rparr>)" "corriendo t c pd" "lados c ?t t"
      "vm_ok t P zs" "\<forall>r\<in>ranuras P. ent t r = (if r = (pc, k div 1024, k mod 1024) then hijo_pte ?w
       else if r = (pd, k div 1024, k mod 1024) then padre_pte ?w else ent ?t r)"
      "datos_igual P (PGNUM ?w) 2 ?t t" "dir_nueva P pc (k div 1024) ?t t"
      "length ys - (if mem ?t pc (k div 1024) = 0 then 1 else 0) \<le> length zs"
      by blast
    have "fork_pagina hid (of_nat k) u = Inr ((), u\<lparr>nucleo := t\<rparr>)"
      using uvd xst uvpt_k [OF F au k1 a] pu True et R(1) by (simp add: fork_pagina_def del_usuario_def)
    then show ?thesis
      using copiada_sigue [OF C k1 P vac refl w0 R(4-8)] R(2,3) by blast
  qed
qed


section \<open>The loop\<close>

lemma recorre_u_invariante:
  assumes paso: "\<And>k u. I k u \<Longrightarrow> k < n \<Longrightarrow> \<exists>u'. f (of_nat k) u = Inr ((), u') \<and> I (Suc k) u'"
  shows "I k u \<Longrightarrow> k \<le> n \<Longrightarrow> \<exists>u'. recorre_u f (map of_nat [k..<n]) u = Inr ((), u') \<and> I n u'"
proof (induction "n - k" arbitrary: k u)
  case (Suc m)
  then have lt: "k < n" by simp
  from paso [OF Suc.prems(1) lt] obtain u1 where u1: "f (of_nat k) u = Inr ((), u1)" "I (Suc k) u1" by blast
  have "m = n - Suc k" "Suc k \<le> n" using Suc.hyps(2) lt by simp_all
  from Suc.hyps(1) [OF this(1) u1(2) this(2)] show ?case using u1(1) lt by (simp add: upt_rec [of k])
qed simp

lemma recorre_u_append:
  "recorre_u f (xs @ ys) u = and_then (recorre_u f xs u) (\<lambda>(_, u). recorre_u f ys u)"
proof (induction xs arbitrary: u)
  case (Cons x xs)
  show ?case by (cases "f x u") (auto simp: Cons.IH)
qed simp

text \<open>The last page below \<open>UTOP\<close> is the exception stack, which the loop leaves out.\<close>

lemma paginas_utop_eq: "paginas_utop = map of_nat [0..<NU * 1024 - 1] @ [drop_bit 12 UXSTACKTOP - 1]"
proof -
  have n: "unat (drop_bit 12 UTOP) = Suc (NU * 1024 - 1)"
    by (simp add: unat_desplaza UTOP_val NU_val)
  have "of_nat (NU * 1024 - 1) = (drop_bit 12 UXSTACKTOP - 1 :: 32 word)"
    by (simp add: NU_val UXSTACKTOP_def mapa drop_bit_eq_div)
  then show ?thesis unfolding paginas_utop_def n by (simp del: One_nat_def)
qed

lemma fork_bucle_ok:
  assumes ini: "copiable (nucleo u) P pd pc xs" and F: "familia u P c pd hid h pc"
  shows "\<exists>t ys. recorre_u (fork_pagina hid) paginas_utop u = Inr ((), u\<lparr>nucleo := t\<rparr>) \<and> corriendo t c pd \<and>
    lados c (nucleo u) t \<and> copiada (nucleo u) P pd pc (NU * 1024 - 1) t ys"
proof -
  let ?s = "nucleo u" and ?n = "NU * 1024 - 1"
  define I where "I k v \<longleftrightarrow> (\<exists>t ys. v = u\<lparr>nucleo := t\<rparr> \<and> corriendo t c pd \<and> lados c ?s t \<and>
    copiada ?s P pd pc k t ys)" for k v
  have "I 0 u"
  proof -
    have "lados c ?s ?s" by (rule solo_vm_lados) simp
    moreover have "u = u\<lparr>nucleo := ?s\<rparr>" "corriendo ?s c pd" using F by (simp_all add: familia_def)
    ultimately show ?thesis using copiada_0 [OF ini] unfolding I_def by metis
  qed
  moreover have "\<exists>v'. fork_pagina hid (of_nat k) v = Inr ((), v') \<and> I (Suc k) v'" if "I k v" "k < ?n" for k v
  proof -
    from that(1) obtain t ys where t: "v = u\<lparr>nucleo := t\<rparr>" "corriendo t c pd" "lados c ?s t" "copiada ?s P pd pc k t ys"
      unfolding I_def by blast
    have Fv: "familia v P c pd hid h pc" unfolding t(1) by (rule familia_sigue [OF F t(2,3)])
    have Cv: "copiada ?s P pd pc k (nucleo v) ys" using t by simp
    from fork_pagina_ok [OF Cv ini Fv that(2)] obtain t' zs where
      T: "fork_pagina hid (of_nat k) v = Inr ((), v\<lparr>nucleo := t'\<rparr>)" "corriendo t' c pd" "lados c (nucleo v) t'"
        "copiada ?s P pd pc (Suc k) t' zs" by blast
    have "lados c ?s t'" using lados_trans [OF t(3), of t'] T(3) t(1) by simp
    moreover have "v\<lparr>nucleo := t'\<rparr> = u\<lparr>nucleo := t'\<rparr>" using t(1) by simp
    ultimately show ?thesis using T unfolding I_def by metis
  qed
  ultimately obtain v where v: "recorre_u (fork_pagina hid) (map of_nat [0..<?n]) u = Inr ((), v)" "I ?n v"
    using recorre_u_invariante [of I ?n "fork_pagina hid" 0 u] by blast
  have "recorre_u (fork_pagina hid) paginas_utop u = Inr ((), v)"
    unfolding paginas_utop_eq recorre_u_append v(1) by (simp add: fork_pagina_def)
  then show ?thesis using v(2) unfolding I_def by blast
qed


section \<open>The child's environment\<close>

text \<open>A call that changes only the environment \<open>h\<close>, which is not the caller.\<close>

lemma upd_entrada_cruce:
  assumes "h \<noteq> c"
  shows "cruce c (upd_env h g s) (upd_env h g (entrada tf c s))"
proof -
  have "envs (upd_env h g (entrada tf c s)) = (envs (upd_env h g s))[c := (envs (upd_env h g s) ! c)
      \<lparr>env_tf := tf, env_runs := env_runs (envs s ! c), env_cpunum := env_cpunum (envs s ! c)\<rparr>]"
    using assms by (simp add: upd_env_def entrada_def list_update_swap)
  moreover have "mem (upd_env h g (entrada tf c s)) = mem (upd_env h g s)"
    "pages (upd_env h g (entrada tf c s)) = pages (upd_env h g s)"
    "page_free_list (upd_env h g (entrada tf c s)) = page_free_list (upd_env h g s)"
    "npages (upd_env h g (entrada tf c s)) = npages (upd_env h g s)"
    "kern_pgdir (upd_env h g (entrada tf c s)) = kern_pgdir (upd_env h g s)"
    "env_free_list (upd_env h g (entrada tf c s)) = env_free_list (upd_env h g s)"
    "curenv (upd_env h g (entrada tf c s)) = curenv (upd_env h g s)"
    by (simp_all add: upd_env_def entrada_def)
  ultimately show ?thesis unfolding cruce_def lados_def by blast
qed

lemma syscall_u_env:
  assumes run: "corriendo (nucleo u) c pd" and cs: "tf_cs (registros u) AND 3 = 3" and h: "h \<noteq> c"
    and call: "\<And>s. cruce c (nucleo u) s \<Longrightarrow> corriendo s c pd \<Longrightarrow> syscall num a1 a2 a3 a4 a5 s = Inr (0, upd_env h g s)"
  obtains t where "syscall_u num check a1 a2 a3 a4 a5 u = Inr (0, u\<lparr>nucleo := t\<rparr>)"
    "cruce c (upd_env h g (nucleo u)) t" "corriendo t c pd"
proof -
  have "\<exists>t. syscall num a1 a2 a3 a4 a5 (entrada tf c (nucleo u)) = Inr (0, t) \<and> corriendo t c pd \<and>
      t = upd_env h g (entrada tf c (nucleo u))" for tf
    using call [OF entrada_cruce entrada_corriendo [OF run]] entrada_corriendo [OF run, of tf] h
    by (simp add: corriendo_def upd_env_def)
  from int_syscall_ok [OF run cs, where Q = "\<lambda>tf t. t = upd_env h g (entrada tf c (nucleo u))", OF this]
  obtain t t' tf where t: "int_syscall num a1 a2 a3 a4 a5 u = Inr (sint (word_of_int 0 :: 32 word), u\<lparr>nucleo := t'\<rparr>)"
    "t = upd_env h g (entrada tf c (nucleo u))" "cruce c t t'" "corriendo t' c pd"
    by metis
  have "cruce c (upd_env h g (nucleo u)) t'"
    using cruce_trans [OF upd_entrada_cruce [OF h]] t(2,3) by blast
  moreover have "syscall_u num check a1 a2 a3 a4 a5 u = Inr (0, u\<lparr>nucleo := t'\<rparr>)"
    using t(1) by (simp add: syscall_u_def)
  ultimately show thesis using that t(4) by blast
qed

lemma hijo_PU:
  assumes "del_usuario w"
  shows "hijo_pte w AND (PTE_P OR PTE_U) = PTE_P OR PTE_U"
  unfolding hijo_pte_def if_P [OF assms] entrada_pte_def permiso_dup_def
  by (rule bit_word_eqI) (auto simp: bit_simps)

text \<open>The pages from \<open>upc\<close> on that the kernel checks before it registers the handler.\<close>

definition upcall_copiado :: "kst \<Rightarrow> nat \<Rightarrow> 32 word \<Rightarrow> bool" where
  "upcall_copiado s pd upc \<longleftrightarrow> unat upc + 4096 \<le> (NU * 1024 - 1) * 4096 \<and>
     (\<forall>n. PGNUM upc \<le> n \<and> n < (unat upc + 8191) div 4096 \<longrightarrow> del_usuario (ent_pag s pd n))"

lemma pgfault_upcall_ok:
  assumes ok: "vm_ok s P xs" and pc: "pc \<in> P" and e: "nombra s hid h" "env_pgdir (envs s ! h) = Some pc"
    and up: "upcall_copiado s0 pd upc"
    and hijo: "\<And>n. n < NU * 1024 - 1 \<Longrightarrow> ent_pag s pc n = hijo_pte (ent_pag s0 pd n)"
  shows "sys_env_set_pgfault_upcall hid upc s = Inr (0, upd_env h (env_pgfault_upcall_update (\<lambda>_. upc)) s)"
proof -
  have pg: "unat (PGSIZE :: 32 word) = 4096" by (simp add: PGSIZE_def)
  have lim: "unat upc + unat (PGSIZE :: 32 word) \<le> unat UTOP"
    using up by (simp add: upcall_copiado_def pg UTOP_val NU_val)
  have perm: "((PTE_P OR PTE_U) OR PTE_U) OR PTE_P = PTE_P OR PTE_U" by (simp add: permisos)
  have "find (falta s pc ((PTE_P OR PTE_U) OR PTE_U)) [PGNUM upc..<(unat upc + unat (PGSIZE :: 32 word) + 4095) div 4096] = None"
  proof -
    have "\<not> falta s pc ((PTE_P OR PTE_U) OR PTE_U) n"
      if "n \<in> set [PGNUM upc..<(unat upc + unat (PGSIZE :: 32 word) + 4095) div 4096]" for n
    proof -
      have n: "PGNUM upc \<le> n" "n < (unat upc + 8191) div 4096" using that by (simp_all add: pg add.commute)
      have "(unat upc + 8191) div 4096 \<le> (977919 * 4096 + 4095) div 4096"
        using up by (intro div_le_mono) (simp add: upcall_copiado_def NU_val)
      then have "n < NU * 1024 - 1" using n(2) by (simp add: NU_val)
      then show ?thesis using hijo_PU up n hijo unfolding falta_def perm upcall_copiado_def by metis
    qed
    then show ?thesis by (simp add: find_None_iff)
  qed
  then have "user_mem_assert h upc PGSIZE (PTE_P OR PTE_U) s = Inr ((), s)"
    using user_mem_check_dentro [OF ok pc e(2) lim] by (simp add: user_mem_assert_def)
  then show ?thesis using e(1) by (simp add: sys_env_set_pgfault_upcall_def nombra_def con_env_def)
qed

lemma set_status_ok:
  "nombra s hid h \<Longrightarrow> sys_env_set_status hid 2 s = Inr (0, upd_env h (env_status_update (\<lambda>_. ENV_RUNNABLE)) s)"
  by (simp add: sys_env_set_status_def estado_num_def nombra_def con_env_def)


section \<open>The parent\<close>

lemma nombra_upd:
  assumes "\<And>e. env_status (g e) = env_status e" and "\<And>e. env_id (g e) = env_id e"
    and "\<And>e. env_parent_id (g e) = env_parent_id e"
  shows "nombra (upd_env h g s) eid e = nombra s eid e"
proof -
  have f: "env_status (envs (upd_env h g s) ! i) = env_status (envs s ! i)" "env_id (envs (upd_env h g s) ! i) = env_id (envs s ! i)"
    "env_parent_id (envs (upd_env h g s) ! i) = env_parent_id (envs s ! i)" for i
    using assms by (simp_all add: upd_env_def nth_upd)
  have c: "curenv (upd_env h g s) = curenv s" by (simp add: upd_env_def)
  show ?thesis by (simp add: nombra_def envid2env_def f c Let_def split: option.split)
qed

lemma upd_env_dos: "upd_env h g (upd_env h f s) = upd_env h (\<lambda>e. g (f e)) s"
  by (cases "h < length (envs s)") (simp_all add: upd_env_def list_update_beyond)

lemma lados_upd:
  assumes "lados c s t" and h: "h \<noteq> c"
  shows "lados c (upd_env h g s) (upd_env h g t)"
proof -
  from assms(1) obtain tf r n where
    e: "envs t = (envs s)[c := (envs s ! c)\<lparr>env_tf := tf, env_runs := r, env_cpunum := n\<rparr>]"
    unfolding lados_def by metis
  then have "envs (upd_env h g t) = (envs (upd_env h g s))[c := (envs (upd_env h g s) ! c)
      \<lparr>env_tf := tf, env_runs := r, env_cpunum := n\<rparr>]"
    using h by (simp add: upd_env_def list_update_swap)
  moreover have "npages (upd_env h g t) = npages (upd_env h g s)" "kern_pgdir (upd_env h g t) = kern_pgdir (upd_env h g s)"
    "env_free_list (upd_env h g t) = env_free_list (upd_env h g s)" "curenv (upd_env h g t) = curenv (upd_env h g s)"
    using assms(1) by (simp_all add: upd_env_def lados_def)
  ultimately show ?thesis unfolding lados_def by blast
qed

lemma XSTACK_val:
  "va_ok (UXSTACKTOP - PGSIZE)" "ranura_va pd (UXSTACKTOP - PGSIZE) = (pd, 954, 1023)" "PDX (UXSTACKTOP - PGSIZE) = 954"
  by (simp_all add: UXSTACKTOP_def mapa va_ok_def ranura_va_def PDX_div PTX_div PGSIZE_def)

lemma PUW_otra: "PTE_U OR PTE_P OR PTE_W = PUW"
  by (simp add: permisos)

text \<open>After the loop: the exception stack, the handler and the state.\<close>

lemma fork_padre_ok:
  assumes C: "copiada s P pd pc (NU * 1024 - 1) t ys" and ini: "copiable s P pd pc xs"
    and bucle: "recorre_u (fork_pagina (word_of_int envid)) paginas_utop u = Inr ((), u\<lparr>nucleo := t\<rparr>)"
    and F: "familia (u\<lparr>nucleo := t\<rparr>) P c pd (word_of_int envid) h pc" and yo: "thisenv u = Some c"
    and up: "upcall_copiado s pd (env_pgfault_upcall (envs t ! c))"
  shows "\<exists>x t' zs. fork_padre envid u = Inr (envid, u\<lparr>nucleo := t'\<rparr>) \<and> corriendo t' c pd \<and> vm_ok t' P zs \<and>
    (\<forall>r\<in>ranuras P. ent t' r = (if r = (pc, 954, 1023) then page2pa x OR PTE_P OR PTE_U OR PTE_W else ent t r)) \<and>
    (\<forall>r\<in>ranuras P. ent t r \<noteq> 0 \<longrightarrow> PGNUM (ent t r) \<noteq> x \<and> mem t' (PGNUM (ent t r)) = mem t (PGNUM (ent t r))) \<and>
    (\<forall>i<1024. mem t' x i = 0) \<and>
    lados c (upd_env h (\<lambda>e. e\<lparr>env_pgfault_upcall := env_pgfault_upcall (envs t ! c), env_status := ENV_RUNNABLE\<rparr>) t) t'"
proof -
  let ?va = "UXSTACKTOP - PGSIZE :: 32 word" and ?u = "u\<lparr>nucleo := t\<rparr>" and ?id = "word_of_int envid :: 32 word"
  let ?upc = "env_pgfault_upcall (envs t ! c)"
  let ?g1 = "env_pgfault_upcall_update (\<lambda>_. ?upc)" and ?g2 = "env_status_update (\<lambda>_. ENV_RUNNABLE)"
  note D = C [unfolded copiada_def]
  have run: "corriendo (nucleo ?u) c pd" "tf_cs (registros ?u) AND 3 = 3" and P: "pd \<in> P" "pc \<in> P" "pd \<noteq> pc"
    and hijo: "nombra (nucleo ?u) ?id h" "env_pgdir (envs (nucleo ?u) ! h) = Some pc"
    using F by (simp_all add: familia_def)
  have hc: "h \<noteq> c" using F by (auto simp: familia_def corriendo_def)
  have l: "card (tablas_faltan s pd pc t) + 1 \<le> length ys" using D by blast
  then obtain x zs where ys: "ys = x # zs" by (cases ys) simp_all
  have ok: "vm_ok (nucleo ?u) P (x # zs)" using D ys by simp
  have cabe: "mem (nucleo ?u) pc (PDX ?va) \<noteq> 0 \<or> zs \<noteq> []"
  proof (rule disjCI)
    assume "\<not> zs \<noteq> []"
    then have "card (tablas_faltan s pd pc t) = 0" using l ys by simp
    moreover have "finite (tablas_faltan s pd pc t)" by (simp add: tablas_faltan_def)
    ultimately have "954 \<notin> tablas_faltan s pd pc t" by simp
    then show "mem (nucleo ?u) pc (PDX ?va) \<noteq> 0" by (simp add: tablas_faltan_def XSTACK_val NU_val)
  qed
  have perm: "(PUW OR PTE_U OR PTE_P) AND NOT PTE_SYSCALL = 0" "bajos (PUW OR PTE_U OR PTE_P)"
    unfolding PUW_simps(1) by (rule PUW_simps)+
  obtain t1 ys1 where A: "sys_page_alloc_u ?id ?va PUW ?u = Inr (0, ?u\<lparr>nucleo := t1\<rparr>)" "corriendo t1 c pd"
    "lados c (nucleo ?u) t1" "vm_ok t1 P ys1"
    "\<And>r. r \<in> ranuras P \<Longrightarrow> ent t1 r = (if r = ranura_va pc ?va then entrada_pte x PUW else ent (nucleo ?u) r)"
    "\<And>g. datos (nucleo ?u) P (x # zs) g \<Longrightarrow> mem t1 g = mem (nucleo ?u) g"
    "\<And>i. i < 1024 \<Longrightarrow> mem t1 x i = 0"
    by (rule sys_page_alloc_u_ok [OF run ok hijo P(2) XSTACK_val(1) cabe perm, unfolded PUW_simps(1)], rule that)
      (assumption | blast)+
  note L1 = lados_campos [OF A(3)]
  have x: "x < 2 ^ 20" using libres_okD(3,7) [OF vm_okD(1) [OF ok]] by (auto dest: order_less_le_trans)
  have r1: "corriendo (nucleo (u\<lparr>nucleo := t1\<rparr>)) c pd" "tf_cs (registros (u\<lparr>nucleo := t1\<rparr>)) AND 3 = 3"
    using A(2) run(2) by simp_all
  have hijo1: "ent_pag t1 pc n = hijo_pte (ent_pag s pd n)" if n: "n < NU * 1024 - 1" for n
  proof -
    have nP: "(pc, n div 1024, n mod 1024) \<in> ranuras P" "n div 1024 * 1024 + n mod 1024 = n"
      using pagina_k(4) [of n] n P by simp_all
    have "(pc, n div 1024, n mod 1024) \<noteq> ranura_va pc ?va"
    proof
      assume "(pc, n div 1024, n mod 1024) = ranura_va pc ?va"
      then have "n = 977919" using nP(2) by (simp add: XSTACK_val)
      then show False using n by (simp add: NU_val)
    qed
    then show ?thesis using A(5) [OF nP(1)] D nP n by (simp add: ent_pag_def)
  qed
  have call1: "syscall 9 ?id ?upc 0 0 0 s' = Inr (0, upd_env h ?g1 s')"
    if s': "cruce c (nucleo (u\<lparr>nucleo := t1\<rparr>)) s'" for s'
  proof -
    have c1: "cruce c t1 s'" using s' by simp
    note L = lados_campos [OF cruce_lados [OF c1]] and V = cruce_vm [OF c1]
    have "sys_env_set_pgfault_upcall ?id ?upc s' = Inr (0, upd_env h ?g1 s')"
      by (rule pgfault_upcall_ok [of s' P ys1 pc _ _ s pd])
        (use A(4) P V hijo L(3,8) L1(3,8) up hijo1 in \<open>simp_all add: ent_pag_def\<close>)
    then show ?thesis by (simp add: syscall_def)
  qed
  obtain t2 where B: "sys_env_set_pgfault_upcall_u ?id ?upc (u\<lparr>nucleo := t1\<rparr>) = Inr (0, u\<lparr>nucleo := t2\<rparr>)"
    "cruce c (upd_env h ?g1 t1) t2" "corriendo t2 c pd"
    by (rule syscall_u_env [OF r1 hc call1, where check = True]) (simp_all add: sys_env_set_pgfault_upcall_u_def)
  have r2: "corriendo (nucleo (u\<lparr>nucleo := t2\<rparr>)) c pd" "tf_cs (registros (u\<lparr>nucleo := t2\<rparr>)) AND 3 = 3"
    using B(3) run(2) by simp_all
  have nom: "nombra t2 ?id h"
  proof -
    have "nombra (upd_env h ?g1 t1) ?id h = nombra t1 ?id h" by (rule nombra_upd) simp_all
    then show ?thesis using lados_campos(8) [OF cruce_lados [OF B(2)]] hijo(1) L1(8) by simp
  qed
  have call2: "syscall 8 ?id 2 0 0 0 s' = Inr (0, upd_env h ?g2 s')" if "cruce c (nucleo (u\<lparr>nucleo := t2\<rparr>)) s'" for s'
    using set_status_ok [of s' ?id h] lados_campos(8) [OF cruce_lados [OF that]] nom by (simp add: syscall_def)
  obtain t3 where E: "sys_env_set_status_u ?id 2 (u\<lparr>nucleo := t2\<rparr>) = Inr (0, u\<lparr>nucleo := t3\<rparr>)"
    "cruce c (upd_env h ?g2 t2) t3" "corriendo t3 c pd"
    by (rule syscall_u_env [OF r2 hc call2, where check = True]) (simp_all add: sys_env_set_status_u_def)
  have fp: "fork_padre envid u = Inr (envid, u\<lparr>nucleo := t3\<rparr>)"
    using bucle A(1) B(1) E(1) yo L1(7) [of c] by (simp add: fork_padre_def Let_def PUW_otra)
  have m: "mem t3 = mem t1" "npages t3 = npages t1" "pages t3 = pages t1" "page_free_list t3 = page_free_list t1"
    using B(2) E(2) by (simp_all add: cruce_def lados_def upd_env_def)
  have e3: "ent t3 = ent t1" by (rule solo_mem(1)) (rule m)
  have la: "lados c (upd_env h (\<lambda>e. ?g2 (?g1 e)) t) t3"
  proof -
    have "lados c (upd_env h ?g2 (upd_env h ?g1 t)) (upd_env h ?g2 (upd_env h ?g1 t1))"
      using A(3) by (intro lados_upd hc) simp
    moreover have "lados c (upd_env h ?g2 (upd_env h ?g1 t1)) (upd_env h ?g2 t2)"
      by (intro lados_upd hc cruce_lados B(2))
    ultimately show ?thesis using cruce_lados [OF E(2)] unfolding upd_env_dos by (meson lados_trans)
  qed
  have nuevo: "PGNUM (ent t r) \<noteq> x \<and> mem t3 (PGNUM (ent t r)) = mem t (PGNUM (ent t r))"
    if "r \<in> ranuras P" "ent t r \<noteq> 0" for r
    using datos_ent [OF ok that(1)] that(2) A(6) [of "PGNUM (ent t r)"] m(1) by (simp add: datos_def)
  have vm3: "vm_ok t3 P ys1" using A(4) vm_cong [OF m] by simp
  have en: "\<forall>r\<in>ranuras P. ent t3 r = (if r = (pc, 954, 1023) then page2pa x OR PTE_P OR PTE_U OR PTE_W else ent t r)"
    unfolding e3 entrada_PUW(3) [OF x, symmetric] using A(5) by (simp add: XSTACK_val)
  have ceros: "\<forall>i<1024. mem t3 x i = 0" using A(7) m(1) by simp
  have nuevos: "\<forall>r\<in>ranuras P. ent t r \<noteq> 0 \<longrightarrow> PGNUM (ent t r) \<noteq> x \<and> mem t3 (PGNUM (ent t r)) = mem t (PGNUM (ent t r))"
    using nuevo by blast
  have la': "lados c (upd_env h (\<lambda>e. e\<lparr>env_pgfault_upcall := ?upc, env_status := ENV_RUNNABLE\<rparr>) t) t3"
    using la by simp
  show ?thesis
    by (rule exI, rule exI, rule exI) (rule conjI [OF fp conjI [OF E(3) conjI [OF vm3 conjI [OF en
      conjI [OF nuevos conjI [OF ceros la']]]]]])
qed


text \<open>What the copy says page by page.\<close>

lemma copiada_paginas:
  assumes C: "copiada s P pd pc (NU * 1024 - 1) t ys" and P: "pd \<in> P" "pc \<in> P" "pd \<noteq> pc"
  shows "n < NU * 1024 - 1 \<Longrightarrow> ent_pag t pc n = hijo_pte (ent_pag s pd n) \<and> ent_pag t pd n = padre_pte (ent_pag s pd n)"
    and "ent_pag t pd (NU * 1024 - 1) = ent_pag s pd (NU * 1024 - 1)"
    and "r \<in> ranuras (P - {pd, pc}) \<Longrightarrow> ent t r = ent s r"
    and "r \<in> ranuras (P - {pc}) \<Longrightarrow> ent s r \<noteq> 0 \<Longrightarrow> ent t r \<noteq> 0 \<and> PGNUM (ent t r) = PGNUM (ent s r) \<and>
      mem t (PGNUM (ent s r)) = mem s (PGNUM (ent s r))"
proof -
  note D = C [unfolded copiada_def]
  have k: "(q, n div 1024, n mod 1024) \<in> ranuras P" "n div 1024 * 1024 + n mod 1024 = n" if "n < NU * 1024" "q \<in> P" for q n
    using pagina_k(4) [OF that(1), of q P] that(2) by simp_all
  show "ent_pag t pc n = hijo_pte (ent_pag s pd n) \<and> ent_pag t pd n = padre_pte (ent_pag s pd n)" if n: "n < NU * 1024 - 1"
    using D k [of n pc] k [of n pd] n P by (simp add: ent_pag_def)
  show "ent_pag t pd (NU * 1024 - 1) = ent_pag s pd (NU * 1024 - 1)"
    using D k [of "NU * 1024 - 1" pd] P by (simp add: ent_pag_def NU_val)
  show "ent t r = ent s r" if "r \<in> ranuras (P - {pd, pc})"
    using that D by (cases r) (simp add: ranuras_def)
  show "ent t r \<noteq> 0 \<and> PGNUM (ent t r) = PGNUM (ent s r) \<and> mem t (PGNUM (ent s r)) = mem s (PGNUM (ent s r))"
    if "r \<in> ranuras (P - {pc})" "ent s r \<noteq> 0"
  proof -
    obtain p i j where x: "r = (p, i, j)" by (cases r)
    have r: "(p, i, j) \<in> ranuras P" "p \<noteq> pc" "ent s (p, i, j) \<noteq> 0" using that x by (simp_all add: ranuras_def)
    then have "ent t (p, i, j) = ent s (p, i, j) \<or> ent t (p, i, j) = padre_pte (ent s (p, i, j))" using D by simp
    then have "ent t (p, i, j) \<noteq> 0 \<and> PGNUM (ent t (p, i, j)) = PGNUM (ent s (p, i, j))"
      using r(3) padre_nz PGNUM_padre by metis
    then show ?thesis using D r unfolding x by blast
  qed
qed



text \<open>A program with one page, 4, in its stack, and a child with an empty directory, page 0.\<close>

definition ust_hijo :: ust where
  "ust_hijo = \<lparr>nucleo = (poke (1, 957) (page2pa 1 OR PTE_P OR PTE_U) (kst_una 954 1021))\<lparr>envs :=
     (replicate 1024 env_ej)[0 := env_ej\<lparr>env_id := 0x1000, env_status := ENV_RUNNING, env_pgdir := Some 1,
                                        env_pgfault_upcall := 0xEEBFD000\<rparr>,
                             1 := env_ej\<lparr>env_id := 0x1001, env_parent_id := 0x1000, env_status := ENV_NOT_RUNNABLE,
                                        env_pgdir := Some 0\<rparr>]\<rparr>,
     thisenv = Some 0, pgfault_handler = 0x800040, registros = tf_ej\<rparr>"

text \<open>A directory with nothing in the user's part.\<close>

lemma vm_otro:
  assumes ok: "vm_ok s P xs" and q: "q < npages s" "q \<notin> set xs" "q \<notin> tabla_en s ` pdes s P"
    and no: "\<And>r. r \<in> ranuras P \<Longrightarrow> ent s r \<noteq> 0 \<Longrightarrow> PGNUM (ent s r) \<noteq> q" and vac: "\<And>i. i < NU \<Longrightarrow> mem s q i = 0"
  shows "vm_ok s (insert q P) xs"
proof -
  have pd: "pdes s (insert q P) = pdes s P" using vac by (auto simp: pdes_def)
  have e0: "ent s (q, i, j) = 0" if "i < NU" for i j using vac [OF that] by (simp add: ent_def)
  have us: "usos s (insert q P) f = usos s P f" for f using e0 by (auto simp: usos_def ranuras_def)
  have en: "r \<in> ranuras P" if "r \<in> ranuras (insert q P)" "ent s r \<noteq> 0" for r
    using that e0 by (cases r) (auto simp: ranuras_def)
  show ?thesis unfolding vm_ok_def pd us using vm_okD [OF ok] q no en by blast
qed

lemma ust_hijo_mem:
  "mem (nucleo ust_hijo) = mem (poke (1, 957) (page2pa 1 OR PTE_P OR PTE_U) (kst_una 954 1021))"
  "npages (nucleo ust_hijo) = 6" "pages (nucleo ust_hijo) = pages (kst_una 954 1021)"
  "page_free_list (nucleo ust_hijo) = Some 3"
  by (simp_all add: ust_hijo_def poke_def kst_una_sel(1,2))

lemma ust_hijo_dir:
  "mem (nucleo ust_hijo) 1 i = (if i = 957 then page2pa 1 OR PTE_P OR PTE_U else if i = 954 then pde_de 5 else 0)"
  "mem (nucleo ust_hijo) 0 i = 0"
  by (simp_all add: ust_hijo_mem mem_poke kst_una_sel(3))

lemma ust_hijo_ent:
  assumes "d < NU" and "j < 1024"
  shows "ent (nucleo ust_hijo) (1, d, j) = (if d = 954 \<and> j = 1021 then page2pa 4 OR PTE_P OR PTE_W OR PTE_U else 0)"
proof -
  have v: "vm_ok (kst_una 954 1021) {1} [3, 2]" by (rule vm_una) (simp add: NU_val)
  have "NU \<le> 957" "(1, d, j) \<in> ranuras {1}" using assms by (simp_all add: NU_val ranuras_def)
  from vm_alta(2) [OF v singletonI this, where v = "page2pa 1 OR PTE_P OR PTE_U"]
  have "ent (poke (1, 957) (page2pa 1 OR PTE_P OR PTE_U) (kst_una 954 1021)) (1, d, j) = ent (kst_una 954 1021) (1, d, j)"
    by blast
  moreover have "ent (nucleo ust_hijo) = ent (poke (1, 957) (page2pa 1 OR PTE_P OR PTE_U) (kst_una 954 1021))"
    by (rule solo_mem(1)) (rule ust_hijo_mem(1))
  ultimately show ?thesis using kst_una_ent [of 954 1021 d j] by metis
qed

lemma ust_hijo_vm: "vm_ok (nucleo ust_hijo) {1, 0} [3, 2]"
proof -
  let ?s = "nucleo ust_hijo" and ?k = "poke (1, 957) (page2pa 1 OR PTE_P OR PTE_U) (kst_una 954 1021)"
  have v: "vm_ok (kst_una 954 1021) {1} [3, 2]" by (rule vm_una) (simp add: NU_val)
  have "vm_ok ?k {1} [3, 2]" by (rule vm_alta(1) [OF v]) (simp_all add: NU_val)
  moreover have "npages ?s = npages ?k" "pages ?s = pages ?k" "page_free_list ?s = page_free_list ?k"
    by (simp_all add: ust_hijo_def)
  ultimately have u: "vm_ok ?s {1} [3, 2]" using vm_cong [OF ust_hijo_mem(1)] by simp
  have pd: "pdes ?s {1} = {(1, 954)}"
    by (auto simp: pdes_def ust_hijo_dir NU_val simp del: One_nat_def split: if_splits)
  have te: "tabla_en ?s (1, 954) = 5" by (simp add: tabla_en_def ust_hijo_dir del: One_nat_def)
  have no: "PGNUM (ent ?s r) \<noteq> 0" if "r \<in> ranuras {1}" "ent ?s r \<noteq> 0" for r
    using that ust_hijo_ent entrada_4 by (cases r) (auto simp: ranuras_def simp del: One_nat_def split: if_splits)
  have "vm_ok ?s (insert 0 {1}) [3, 2]"
    by (rule vm_otro [OF u]) (use no in \<open>simp_all add: ust_hijo_mem(2) ust_hijo_dir pd te del: One_nat_def\<close>)
  then show ?thesis by (simp add: insert_commute)
qed

lemma ust_hijo_pag:
  "n < NU * 1024 \<Longrightarrow> ent_pag (nucleo ust_hijo) 1 n = (if n = 977917 then page2pa 4 OR PTE_P OR PTE_W OR PTE_U else 0)"
proof -
  assume n: "n < NU * 1024"
  have "n div 1024 = 954 \<and> n mod 1024 = 1021 \<longleftrightarrow> n = 977917" using ranura_k [of 954 1021 n] by auto
  moreover have "n div 1024 < NU" "n mod 1024 < 1024" using n by (simp_all add: less_mult_imp_div_less)
  ultimately show ?thesis unfolding ent_pag_def using ust_hijo_ent by simp
qed

lemma veces_una:
  assumes "\<And>n. n < k \<Longrightarrow> n \<noteq> a \<Longrightarrow> ent_pag s pd n = 0"
  shows "veces s pd k f \<le> 1"
proof -
  let ?xs = "filter (\<lambda>n. ent_pag s pd n \<noteq> 0 \<and> PGNUM (ent_pag s pd n) = f) [0..<k]"
  have "veces s pd k f = card (set ?xs)" unfolding veces_def by (rule distinct_card [symmetric]) simp
  also have "\<dots> \<le> card {a}" using assms by (intro card_mono) auto
  finally show ?thesis by simp
qed

lemma ust_hijo_copiable: "copiable (nucleo ust_hijo) {1, 0} 1 0 [3, 2]"
proof -
  let ?s = "nucleo ust_hijo"
  have "PDX UVPT = 957" by (simp add: PDX_div mapa)
  then have au: "autoref ?s 1" by (simp add: autoref_def ust_hijo_dir del: One_nat_def)
  have ab: "mem ?s 1 i = 0 \<or> abierta ?s 1 i" if "i < NU" for i
    using that pde_de_abierta [of 5] by (simp add: abierta_def ust_hijo_dir NU_val del: One_nat_def)
  have "{i. i < NU \<and> (mem ?s 1 i \<noteq> 0 \<or> i = PDX exstk)} = {954}"
    by (auto simp: ust_hijo_dir XSTACK_val NU_val simp del: One_nat_def split: if_splits)
  then have car: "card {i. i < NU \<and> (mem ?s 1 i \<noteq> 0 \<or> i = PDX exstk)} + 1 \<le> length [3 :: nat, 2]" by simp
  have ref: "unat (pp_ref (pages ?s ! PGNUM (ent_pag ?s 1 n))) + 2 * veces ?s 1 (NU * 1024) (PGNUM (ent_pag ?s 1 n)) < 65536"
    if n: "n < NU * 1024" "ent_pag ?s 1 n \<noteq> 0" for n
  proof -
    have "n = 977917" using n ust_hijo_pag [OF n(1)] by (simp split: if_splits)
    then have "PGNUM (ent_pag ?s 1 n) = 4" using ust_hijo_pag [OF n(1)] entrada_4 by simp
    moreover have "veces ?s 1 (NU * 1024) 4 \<le> 1" by (rule veces_una [of _ 977917]) (simp add: ust_hijo_pag del: One_nat_def)
    ultimately show ?thesis by (simp add: ust_hijo_mem kst_una_sel(4) del: One_nat_def)
  qed
  show ?thesis unfolding copiable_def using ust_hijo_vm au ab ust_hijo_dir(2) car ref by blast
qed

lemma ust_hijo_familia: "familia ust_hijo {1, 0} 0 1 0x1001 1 0"
proof -
  let ?s = "nucleo ust_hijo"
  have sel: "curenv ?s = Some 0" "cr3 ?s = 1" "length (envs ?s) = 1024"
    by (simp_all add: ust_hijo_def poke_def kst_una_def kst_ej_def)
  have e: "envs ?s ! 0 = env_ej\<lparr>env_id := 0x1000, env_status := ENV_RUNNING, env_pgdir := Some 1,
      env_pgfault_upcall := 0xEEBFD000\<rparr>"
    "envs ?s ! 1 = env_ej\<lparr>env_id := 0x1001, env_parent_id := 0x1000, env_status := ENV_NOT_RUNNABLE, env_pgdir := Some 0\<rparr>"
    by (simp_all add: ust_hijo_def)
  have "ENVX 0x1001 = 1" by (simp add: ENVX_def)
  then have "nombra ?s 0x1001 1" by (simp add: nombra_def envid2env_def sel e Let_def del: One_nat_def)
  moreover have "tf_cs (registros ust_hijo) AND 3 = 3" by (simp add: ust_hijo_def tf_ej_def)
  ultimately show ?thesis by (simp add: familia_def corriendo_def sel e del: One_nat_def)
qed

lemma hijo_pte_4:
  "hijo_pte (page2pa 4 OR PTE_P OR PTE_W OR PTE_U) = entrada_pte 4 (PTE_P OR PTE_U OR PTE_COW)"
  "padre_pte (page2pa 4 OR PTE_P OR PTE_W OR PTE_U) = entrada_pte 4 (PTE_P OR PTE_U OR PTE_COW)"
  by (simp_all add: hijo_pte_def padre_pte_def del_usuario_def escribible_def permiso_dup_def page2pa_4 permisos
      PTE_COW_def PGNUM_eq entrada_pte_def)


end
