(* ===== verification/Kern_Spin.thy ===== *)
theory Kern_Spin
  imports Kern_Mmu
begin

text \<open>
  The big kernel lock (\<open>sched/kern/spinlock.c\<close>, with \<open>DEBUG_SPINLOCK\<close>, as the header sets it). The processors
  run \<open>spin_lock\<close> and \<open>spin_unlock\<close> on one lock, one access to its memory at a time, in any order. What
  each access sees is the last value written: the code orders the accesses that matter by \<open>xchg\<close>.
\<close>

section \<open>The lock\<close>

text \<open>\<open>lk_cpu\<close> is the index in \<open>cpus\<close> of the processor pointed to.\<close>

record spinlock =
  locked :: "32 word"
  lk_name :: string
  lk_cpu :: "nat option"
  lk_pcs :: "32 word list"

definition spin_initlock :: "string \<Rightarrow> spinlock \<Rightarrow> spinlock" where
  "spin_initlock name lk = lk\<lparr>locked := 0, lk_name := name, lk_cpu := None\<rparr>"

definition kernel_lock_ini :: spinlock where
  "kernel_lock_ini = \<lparr>locked = 0, lk_name = ''kernel_lock'', lk_cpu = None, lk_pcs = replicate 10 0\<rparr>"

text \<open>\<open>lee\<close> reads a word of the kernel's memory; \<open>n\<close> is how many of the ten places are left.\<close>

fun sigue_ebp :: "(32 word \<Rightarrow> 32 word) \<Rightarrow> nat \<Rightarrow> 32 word \<Rightarrow> 32 word list" where
  "sigue_ebp lee 0 ebp = []"
| "sigue_ebp lee (Suc n) ebp =
     (if ebp = 0 \<or> ebp < ULIM then replicate (Suc n) 0
      else lee (ebp + 4) # sigue_ebp lee n (lee ebp))"

definition get_caller_pcs :: "(32 word \<Rightarrow> 32 word) \<Rightarrow> 32 word \<Rightarrow> 32 word list" where
  "get_caller_pcs lee ebp = sigue_ebp lee 10 ebp"


section \<open>The two operations, access by access\<close>

text \<open>
  Where a processor is: outside, inside with the lock, or in a call. The argument of the calls that
  check \<open>holding\<close> is whether they were made inside. \<open>holding\<close> reads \<open>locked\<close> and then \<open>cpu\<close>.
\<close>

datatype punto =
    Fuera | Dentro
  | Adq_locked bool | Adq_cpu bool | Panico_lock bool
  | Gira | Pon_cpu | Pon_pcs
  | Sol_locked bool | Sol_cpu bool | Panico_unlock bool
  | Quita_pcs | Quita_cpu | Libera

text \<open>One access of \<open>spin_lock\<close> by processor \<open>i\<close>; \<open>pcs\<close> is what \<open>get_caller_pcs\<close> finds.\<close>

fun spin_lock :: "nat \<Rightarrow> 32 word list \<Rightarrow> punto \<Rightarrow> spinlock \<Rightarrow> (punto \<times> spinlock) option" where
  "spin_lock i pcs (Adq_locked d) lk = Some (if locked lk = 0 then Gira else Adq_cpu d, lk)"
| "spin_lock i pcs (Adq_cpu d) lk = Some (if lk_cpu lk = Some i then Panico_lock d else Gira, lk)"
| "spin_lock i pcs Gira lk = Some (if locked lk \<noteq> 0 then Gira else Pon_cpu, lk\<lparr>locked := 1\<rparr>)"
| "spin_lock i pcs Pon_cpu lk = Some (Pon_pcs, lk\<lparr>lk_cpu := Some i\<rparr>)"
| "spin_lock i pcs Pon_pcs lk = Some (Dentro, lk\<lparr>lk_pcs := pcs\<rparr>)"
| "spin_lock i pcs _ lk = None"

fun spin_unlock :: "nat \<Rightarrow> punto \<Rightarrow> spinlock \<Rightarrow> (punto \<times> spinlock) option" where
  "spin_unlock i (Sol_locked d) lk = Some (if locked lk = 0 then Panico_unlock d else Sol_cpu d, lk)"
| "spin_unlock i (Sol_cpu d) lk = Some (if lk_cpu lk = Some i then Quita_pcs else Panico_unlock d, lk)"
| "spin_unlock i Quita_pcs lk = Some (Quita_cpu, lk\<lparr>lk_pcs := (lk_pcs lk)[0 := 0]\<rparr>)"
| "spin_unlock i Quita_cpu lk = Some (Libera, lk\<lparr>lk_cpu := None\<rparr>)"
| "spin_unlock i Libera lk = Some (Fuera, lk\<lparr>locked := 0\<rparr>)"
| "spin_unlock i _ lk = None"


section \<open>The processors together\<close>

text \<open>
  Nothing is asked of the callers: a processor outside may release and one inside may acquire. A
  processor that panics stays where it is.
\<close>

record multi =
  cerrojo :: spinlock
  en :: "nat \<Rightarrow> punto"

inductive paso :: "multi \<Rightarrow> multi \<Rightarrow> bool" where
  pide: "en m i = Fuera \<or> en m i = Dentro \<Longrightarrow> paso m (m\<lparr>en := (en m)(i := Adq_locked (en m i = Dentro))\<rparr>)"
| suelta: "en m i = Fuera \<or> en m i = Dentro \<Longrightarrow> paso m (m\<lparr>en := (en m)(i := Sol_locked (en m i = Dentro))\<rparr>)"
| adquiere: "spin_lock i (get_caller_pcs lee ebp) (en m i) (cerrojo m) = Some (p, lk) \<Longrightarrow>
    paso m (m\<lparr>cerrojo := lk, en := (en m)(i := p)\<rparr>)"
| libera: "spin_unlock i (en m i) (cerrojo m) = Some (p, lk) \<Longrightarrow>
    paso m (m\<lparr>cerrojo := lk, en := (en m)(i := p)\<rparr>)"

definition arranque :: multi where
  "arranque = \<lparr>cerrojo = kernel_lock_ini, en = (\<lambda>_. Fuera)\<rparr>"

inductive alcanza :: "multi \<Rightarrow> bool" where
  inicio: "alcanza arranque"
| avanza: "alcanza m \<Longrightarrow> paso m n \<Longrightarrow> alcanza n"


section \<open>The invariant\<close>

text \<open>Who has the lock, and whose name is on it.\<close>

fun tiene :: "punto \<Rightarrow> bool" where
  "tiene Dentro = True"
| "tiene (Adq_locked d) = d"
| "tiene (Adq_cpu d) = d"
| "tiene (Panico_lock d) = d"
| "tiene Pon_cpu = True"
| "tiene Pon_pcs = True"
| "tiene (Sol_locked d) = d"
| "tiene (Sol_cpu d) = d"
| "tiene Quita_pcs = True"
| "tiene Quita_cpu = True"
| "tiene Libera = True"
| "tiene _ = False"

definition firma :: "punto \<Rightarrow> bool" where
  "firma p \<longleftrightarrow> tiene p \<and> p \<noteq> Pon_cpu \<and> p \<noteq> Libera"

definition cerrojo_ok :: "multi \<Rightarrow> bool" where
  "cerrojo_ok m \<longleftrightarrow>
     (\<forall>i j. tiene (en m i) \<and> tiene (en m j) \<longrightarrow> i = j) \<and>
     (locked (cerrojo m) \<noteq> 0 \<longleftrightarrow> (\<exists>i. tiene (en m i))) \<and>
     (\<forall>i. lk_cpu (cerrojo m) = Some i \<longleftrightarrow> firma (en m i)) \<and>
     (\<forall>i. en m i \<noteq> Panico_lock False \<and> en m i \<noteq> Panico_unlock True) \<and> 
     locked (cerrojo m) \<in> {0, 1} \<and> length (lk_pcs (cerrojo m)) = 10"

text \<open>
  The lock is decided by who has it. \<open>cambia\<close> says what one processor's move must respect.
\<close>

lemma cerrojo_okD:
  assumes "cerrojo_ok m"
  shows "tiene (en m i) \<Longrightarrow> tiene (en m j) \<Longrightarrow> i = j"
    and "locked (cerrojo m) = 0 \<Longrightarrow> \<not> tiene (en m i)"
    and "tiene (en m i) \<Longrightarrow> locked (cerrojo m) = 1"
    and "lk_cpu (cerrojo m) = Some i \<longleftrightarrow> firma (en m i)"
  using assms unfolding cerrojo_ok_def by auto

lemma length_pcs: "length (sigue_ebp lee n ebp) = n"
  by (induction n arbitrary: ebp) auto

text \<open>A move of \<open>i\<close> that changes neither who has the lock nor whose name is on it.\<close>

lemma cerrojo_ok_igual:
  assumes "cerrojo_ok m" and "tiene p = tiene (en m i)" and "firma p = firma (en m i)"
    and "locked lk = locked (cerrojo m)" and "lk_cpu lk = lk_cpu (cerrojo m)" and "length (lk_pcs lk) = 10"
    and "p \<noteq> Panico_lock False" and "p \<noteq> Panico_unlock True"
  shows "cerrojo_ok (m\<lparr>cerrojo := lk, en := (en m)(i := p)\<rparr>)"
  using assms unfolding cerrojo_ok_def by auto

text \<open>A move of the one that has the lock and keeps it.\<close>

lemma cerrojo_ok_dueno:
  assumes "cerrojo_ok m" and "tiene (en m i)" and "tiene p" and "locked lk = 1"
    and "lk_cpu lk = (if firma p then Some i else None)" and "length (lk_pcs lk) = 10"
    and "p \<noteq> Panico_unlock True"
  shows "cerrojo_ok (m\<lparr>cerrojo := lk, en := (en m)(i := p)\<rparr>)"
proof -
  have "\<not> tiene (en m j)" if "j \<noteq> i" for j using cerrojo_okD(1) [OF assms(1,2)] that by blast
  moreover have "en m j \<noteq> Panico_lock False \<and> en m j \<noteq> Panico_unlock True" for j
    using assms(1) unfolding cerrojo_ok_def by blast
  ultimately show ?thesis using assms(3-7) unfolding cerrojo_ok_def by (auto simp: firma_def)
qed

lemma cerrojo_ok_pide:
  assumes "cerrojo_ok m" and "tiene p = tiene (en m i)" and "firma p = firma (en m i)"
    and "p \<noteq> Panico_lock False" and "p \<noteq> Panico_unlock True"
  shows "cerrojo_ok (m\<lparr>en := (en m)(i := p)\<rparr>)"
  using assms unfolding cerrojo_ok_def by auto

lemma spin_lock_ok:
  assumes "cerrojo_ok m" and "spin_lock i (get_caller_pcs lee ebp) (en m i) (cerrojo m) = Some (p, lk)"
  shows "cerrojo_ok (m\<lparr>cerrojo := lk, en := (en m)(i := p)\<rparr>)"
proof (cases "en m i")
  case (Adq_locked d)
  then show ?thesis using assms cerrojo_okD(2) [OF assms(1), of i]
    by (intro cerrojo_ok_igual [OF assms(1)]) (auto simp: firma_def cerrojo_ok_def split: if_splits)
next
  case (Adq_cpu d)
  then show ?thesis using assms cerrojo_okD(4) [OF assms(1), of i]
    by (intro cerrojo_ok_igual [OF assms(1)]) (auto simp: firma_def cerrojo_ok_def split: if_splits)
next
  case Gira
  then have g: "p = (if locked (cerrojo m) \<noteq> 0 then Gira else Pon_cpu)" "lk = (cerrojo m)\<lparr>locked := 1\<rparr>"
    using assms(2) by auto
  show ?thesis
  proof (cases "locked (cerrojo m) = 0")
    case True
    then have "\<not> tiene (en m j)" for j using cerrojo_okD(2) [OF assms(1)] by blast
    then show ?thesis using assms(1) True unfolding g cerrojo_ok_def by (auto simp: firma_def)
  next
    case False
    then show ?thesis using assms(1) Gira unfolding g
      by (intro cerrojo_ok_igual) (auto simp: firma_def cerrojo_ok_def)
  qed
next
  case Pon_cpu
  then show ?thesis using assms cerrojo_okD(3) [OF assms(1), of i]
    by (intro cerrojo_ok_dueno [OF assms(1)]) (auto simp: firma_def cerrojo_ok_def)
next
  case Pon_pcs
  then show ?thesis using assms
    by (intro cerrojo_ok_igual [OF assms(1)]) (auto simp: firma_def get_caller_pcs_def length_pcs)
qed (use assms in auto)

lemma spin_unlock_ok:
  assumes "cerrojo_ok m" and "spin_unlock i (en m i) (cerrojo m) = Some (p, lk)"
  shows "cerrojo_ok (m\<lparr>cerrojo := lk, en := (en m)(i := p)\<rparr>)"
proof (cases "en m i")
  case (Sol_locked d)
  then show ?thesis using assms cerrojo_okD(2) [OF assms(1), of i]
    by (intro cerrojo_ok_igual [OF assms(1)]) (auto simp: firma_def cerrojo_ok_def split: if_splits)
next
  case (Sol_cpu d)
  then show ?thesis using assms cerrojo_okD(4) [OF assms(1), of i]
    by (intro cerrojo_ok_igual [OF assms(1)]) (auto simp: firma_def cerrojo_ok_def split: if_splits)
next
  case Quita_pcs
  then show ?thesis using assms
    by (intro cerrojo_ok_igual [OF assms(1)]) (auto simp: firma_def cerrojo_ok_def)
next
  case Quita_cpu
  then show ?thesis using assms cerrojo_okD(3) [OF assms(1), of i]
    by (intro cerrojo_ok_dueno [OF assms(1)]) (auto simp: firma_def cerrojo_ok_def)
next
  case Libera
  then have g: "p = Fuera" "lk = (cerrojo m)\<lparr>locked := 0\<rparr>" using assms(2) by auto
  have no: "\<not> tiene (en m j)" if "j \<noteq> i" for j
    using cerrojo_okD(1) [OF assms(1), of i j] that Libera by auto
  then have "lk_cpu (cerrojo m) \<noteq> Some j" for j
    using cerrojo_okD(4) [OF assms(1), of j] Libera by (cases "j = i") (auto simp: firma_def)
  then have sin: "lk_cpu (cerrojo m) = None" by (cases "lk_cpu (cerrojo m)") auto
  have "\<not> tiene (((en m)(i := Fuera)) j)" for j using no by (cases "j = i") auto
  moreover have "((en m)(i := Fuera)) j \<noteq> Panico_lock False \<and> ((en m)(i := Fuera)) j \<noteq> Panico_unlock True" for j
    using assms(1) unfolding cerrojo_ok_def by simp
  moreover have "length (lk_pcs (cerrojo m)) = 10" using assms(1) unfolding cerrojo_ok_def by blast
  ultimately show ?thesis unfolding cerrojo_ok_def g by (simp add: sin firma_def)
qed (use assms in auto)

lemma paso_ok: "paso m n \<Longrightarrow> cerrojo_ok m \<Longrightarrow> cerrojo_ok n"
proof (induction rule: paso.induct)
  case (pide m i)
  then show ?case by (intro cerrojo_ok_pide) (auto simp: firma_def)
next
  case (suelta m i)
  then show ?case by (intro cerrojo_ok_pide) (auto simp: firma_def)
next
  case (adquiere i lee ebp m p lk)
  then show ?case by (intro spin_lock_ok)
next
  case (libera i m p lk)
  then show ?case by (intro spin_unlock_ok)
qed

lemma alcanza_ok: "alcanza m \<Longrightarrow> cerrojo_ok m"
proof (induction rule: alcanza.induct)
  case inicio
  show ?case by (simp add: cerrojo_ok_def arranque_def kernel_lock_ini_def firma_def)
qed (rule paso_ok)


section \<open>Mutual exclusion\<close>


text \<open>Processor 0 takes the lock, 1 waits for it, and 0 asks for it again.\<close>

definition lk_de :: "nat \<Rightarrow> spinlock" where
  "lk_de i = \<lparr>locked = 1, lk_name = ''kernel_lock'', lk_cpu = Some i, lk_pcs = replicate 10 0\<rparr>"

definition dos_en :: "punto \<Rightarrow> punto \<Rightarrow> nat \<Rightarrow> punto" where
  "dos_en p q = (\<lambda>_. Fuera)(0 := p, 1 := q)"

lemma dos_en_upd: "(dos_en p q)(0 := p') = dos_en p' q" "(dos_en p q)(Suc 0 := q') = dos_en p q'"
  "dos_en p q 0 = p" "dos_en p q (Suc 0) = q"
  by (auto simp: dos_en_def fun_eq_iff)

lemma paso_lock:
  assumes "alcanza \<lparr>cerrojo = lk, en = e\<rparr>" and "spin_lock i (replicate 10 0) (e i) lk = Some (p, lk')"
  shows "alcanza \<lparr>cerrojo = lk', en = e(i := p)\<rparr>"
proof (rule avanza [OF assms(1)])
  have "get_caller_pcs (\<lambda>_. 0) 0 = replicate 10 0" by (simp add: get_caller_pcs_def numeral_eq_Suc)
  with assms(2) show "paso \<lparr>cerrojo = lk, en = e\<rparr> \<lparr>cerrojo = lk', en = e(i := p)\<rparr>"
    using adquiere [of i "\<lambda>_. 0" 0 "\<lparr>cerrojo = lk, en = e\<rparr>" p lk'] by simp
qed

lemma paso_pide:
  assumes "alcanza \<lparr>cerrojo = lk, en = e\<rparr>" and "e i = Fuera \<or> e i = Dentro"
  shows "alcanza \<lparr>cerrojo = lk, en = e(i := Adq_locked (e i = Dentro))\<rparr>"
  using avanza [OF assms(1) pide [of "\<lparr>cerrojo = lk, en = e\<rparr>" i]] assms(2) by simp


end
