(* ===== verification/Kern_Monitor.thy ===== *)
theory Kern_Monitor
  imports Kern_Trap Printfmt "HOL-Library.Signed_Division"
begin

text \<open>
  The monitor of the kernel (\<^verbatim>\<open>sched/kern/monitor.c\<close>), the line editor it reads commands with
  (\<^verbatim>\<open>sched/lib/readline.c\<close>) and the printing of a trap frame (\<^verbatim>\<open>sched/kern/trap.c\<close>). They read and
  write the console of \<open>Kern_Console\<close>; what waits for input that never comes does not end, and is
  \<^term>\<open>None\<close>, as is a fault. The static buffer of the editor is a string of \<open>BUFLEN_linea\<close> bytes, and a pointer
  into it is an offset.
\<close>

section \<open>Printing (kern/printf.c) and reading (kern/console.c)\<close>

text \<open>A byte printed by \<open>%s\<close> is a signed \<open>char\<close>.\<close>

definition cputchar :: "char \<Rightarrow> consola \<Rightarrow> consola" where
  "cputchar ch = cons_putc (scast (of_char ch :: 8 word))"

definition cprintf :: "string \<Rightarrow> va_list \<Rightarrow> consola \<Rightarrow> consola option" where
  "cprintf fmt ap k = map_option fst (vcprintf_kernel cputchar fmt ap k)"

text \<open>Lines printed one after another.\<close>

fun imprime :: "(string \<times> va_list) list \<Rightarrow> consola \<Rightarrow> consola option" where
  "imprime [] k = Some k"
| "imprime ((fmt, ap) # ls) k = Option.bind (cprintf fmt ap k) (imprime ls)"

partial_function (option) getchar :: "consola \<Rightarrow> (int \<times> consola) option" where
  "getchar k = (let r = cons_getc k in if fst r = 0 then getchar (snd r) else Some r)"

definition nl :: string where "nl = [CHR 0x0A]"


section \<open>readline\<close>

definition BUFLEN_linea :: nat where "BUFLEN_linea = 1024"

text \<open>
  The loop, with \<open>i\<close> bytes in \<open>b\<close>. The answer says whether the pointer is not null; the console always
  echoes (\<open>iscons\<close> is 1).
\<close>

partial_function (option) readline_bucle :: "nat \<Rightarrow> string \<Rightarrow> consola \<Rightarrow> (bool \<times> string \<times> consola) option" where
  "readline_bucle i b k = Option.bind (getchar k) (\<lambda>r.
     let c = fst r; k = snd r
     in if c < 0 then
          Option.bind (cprintf (''read error: %e'' @ nl) [Entero (word_of_int c)] k) (\<lambda>k. Some (False, b, k))
        else if (c = 8 \<or> c = 0x7f) \<and> i > 0 then readline_bucle (i - 1) b (cons_putc 8 k)
        else if c \<ge> 0x20 \<and> i < BUFLEN_linea - 1 then
          readline_bucle (i + 1) (b[i := char_of c]) (cons_putc (word_of_int c) k)
        else if c = 10 \<or> c = 13 then Some (True, b[i := NUL], cons_putc 10 k)
        else readline_bucle i b k)"

definition readline :: "string \<Rightarrow> string \<Rightarrow> consola \<Rightarrow> (bool \<times> string \<times> consola) option" where
  "readline prompt b k = Option.bind (cprintf ''%s'' [Cadena (Some prompt)] k) (readline_bucle 0 b)"


section \<open>Trap frames\<close>

definition print_regs :: "push_regs \<Rightarrow> consola \<Rightarrow> consola option" where
  "print_regs r = imprime [
     (''  edi  0x%08x'' @ nl, [Entero (reg_edi r)]), (''  esi  0x%08x'' @ nl, [Entero (reg_esi r)]),
     (''  ebp  0x%08x'' @ nl, [Entero (reg_ebp r)]), (''  oesp 0x%08x'' @ nl, [Entero (reg_oesp r)]),
     (''  ebx  0x%08x'' @ nl, [Entero (reg_ebx r)]), (''  edx  0x%08x'' @ nl, [Entero (reg_edx r)]),
     (''  ecx  0x%08x'' @ nl, [Entero (reg_ecx r)]), (''  eax  0x%08x'' @ nl, [Entero (reg_eax r)])]"

text \<open>\<open>dir\<close> is the address of the frame, \<open>ultima\<close> tells if it is \<open>last_tf\<close>, \<open>cr2\<close> is the register.\<close>

definition print_trapframe :: "32 word \<Rightarrow> bool \<Rightarrow> 32 word \<Rightarrow> nat \<Rightarrow> trapframe \<Rightarrow> consola \<Rightarrow> consola option" where
  "print_trapframe dir ultima cr2 cpu tf k =
     Option.bind (cprintf (''TRAP frame at %p from CPU %d'' @ nl) [Entero dir, Entero (of_nat cpu)] k) (\<lambda>k.
     Option.bind (print_regs (tf_regs tf) k) (imprime (
       [(''  es   0x----%04x'' @ nl, [Entero (ucast (tf_es tf))]),
        (''  ds   0x----%04x'' @ nl, [Entero (ucast (tf_ds tf))]),
        (''  trap 0x%08x %s'' @ nl, [Entero (tf_trapno tf), Cadena (Some (trapname (tf_trapno tf)))])] @
       (if ultima \<and> tf_trapno tf = T_PGFLT then [(''  cr2  0x%08x'' @ nl, [Entero cr2])] else []) @
       [(''  err  0x%08x'', [Entero (tf_err tf)])] @
       (if tf_trapno tf = T_PGFLT
        then [('' [%s, %s, %s]'' @ nl,
               [Cadena (Some (if tf_err tf AND 4 \<noteq> 0 then ''user'' else ''kernel'')),
                Cadena (Some (if tf_err tf AND 2 \<noteq> 0 then ''write'' else ''read'')),
                Cadena (Some (if tf_err tf AND 1 \<noteq> 0 then ''protection'' else ''not-present''))])]
        else [(nl, [])]) @
       [(''  eip  0x%08x'' @ nl, [Entero (tf_eip tf)]), (''  cs   0x----%04x'' @ nl, [Entero (ucast (tf_cs tf))]),
        (''  flag 0x%08x'' @ nl, [Entero (tf_eflags tf)])] @
       (if tf_cs tf AND 3 \<noteq> 0
        then [(''  esp  0x%08x'' @ nl, [Entero (tf_esp tf)]), (''  ss   0x----%04x'' @ nl, [Entero (ucast (tf_ss tf))])]
        else []))))"


section \<open>Commands\<close>

datatype mon_fun = Mon_help | Mon_kerninfo

record command =
  cmd_name :: string
  cmd_desc :: string
  cmd_func :: mon_fun

definition commands :: "command list" where
  "commands = [\<lparr>cmd_name = ''help'', cmd_desc = ''Display this list of commands'', cmd_func = Mon_help\<rparr>,
     \<lparr>cmd_name = ''kerninfo'', cmd_desc = ''Display information about the kernel'', cmd_func = Mon_kerninfo\<rparr>]"

text \<open>The symbols of the linker.\<close>

record simbolos =
  sym_start :: "32 word"
  sym_entry :: "32 word"
  sym_etext :: "32 word"
  sym_edata :: "32 word"
  sym_end :: "32 word"

definition mon_help :: "consola \<Rightarrow> (int \<times> consola) option" where
  "mon_help k = map_option (Pair 0) (imprime
     (map (\<lambda>c. (''%s - %s'' @ nl, [Cadena (Some (cmd_name c)), Cadena (Some (cmd_desc c))])) commands) k)"

definition mon_kerninfo :: "simbolos \<Rightarrow> consola \<Rightarrow> (int \<times> consola) option" where
  "mon_kerninfo m k = map_option (Pair 0) (imprime
     [(''Special kernel symbols:'' @ nl, []),
      (''  _start                  %08x (phys)'' @ nl, [Entero (sym_start m)]),
      (''  entry  %08x (virt)  %08x (phys)'' @ nl, [Entero (sym_entry m), Entero (sym_entry m - KERNBASE)]),
      (''  etext  %08x (virt)  %08x (phys)'' @ nl, [Entero (sym_etext m), Entero (sym_etext m - KERNBASE)]),
      (''  edata  %08x (virt)  %08x (phys)'' @ nl, [Entero (sym_edata m), Entero (sym_edata m - KERNBASE)]),
      (''  end    %08x (virt)  %08x (phys)'' @ nl, [Entero (sym_end m), Entero (sym_end m - KERNBASE)]),
      (''Kernel executable memory footprint: %dKB'' @ nl,
       [Entero (word_of_int (sint (ROUNDUP (sym_end m - sym_entry m) 1024) sdiv 1024))])] k)"

definition mon_backtrace :: "consola \<Rightarrow> int \<times> consola" where "mon_backtrace k = (0, k)"

fun llama :: "mon_fun \<Rightarrow> simbolos \<Rightarrow> consola \<Rightarrow> (int \<times> consola) option" where
  "llama Mon_help m k = mon_help k"
| "llama Mon_kerninfo m k = mon_kerninfo m k"


section \<open>The interpreter\<close>

definition WHITESPACE :: string where "WHITESPACE = [CHR 0x09, CHR 0x0D, CHR 0x0A, CHR 0x20]"
definition MAXARGS_mon :: nat where "MAXARGS_mon = 16"

definition blanco :: "char \<Rightarrow> bool" where "blanco c \<longleftrightarrow> strchr (WHITESPACE @ [NUL]) c \<noteq> Some None"

text \<open>Gobbling whitespace and scanning an argument, from the offset \<open>p\<close>; running off the buffer is a fault.\<close>

function traga :: "nat \<Rightarrow> string \<Rightarrow> (nat \<times> string) option" where
  "traga p b =
     (if p \<ge> length b then None
      else if b ! p \<noteq> NUL \<and> blanco (b ! p) then traga (p + 1) (b[p := NUL]) else Some (p, b))"
  by pat_completeness auto
termination by (relation "measure (\<lambda>(p, b). length b - p)") auto

function salta_arg :: "nat \<Rightarrow> string \<Rightarrow> nat option" where
  "salta_arg p b =
     (if p \<ge> length b then None
      else if b ! p \<noteq> NUL \<and> \<not> blanco (b ! p) then salta_arg (p + 1) b else Some p)"
  by pat_completeness auto
termination by (relation "measure (\<lambda>(p, b). length b - p)") auto

declare traga.simps [simp del] salta_arg.simps [simp del]

text \<open>
  The loop that fills \<open>argv\<close>, with offsets: at most one turn more than the \<open>MAXARGS_mon\<close> slots. The last
  slot is for the null pointer. \<^term>\<open>None\<close> inside is the exit with too many arguments.
\<close>

fun trocea :: "nat \<Rightarrow> nat list \<Rightarrow> nat \<Rightarrow> string \<Rightarrow> (nat list option \<times> string) option" where
  "trocea 0 argv p b = None"
| "trocea (Suc n) argv p b = Option.bind (traga p b) (\<lambda>(p, b).
     if b ! p = NUL then Some (Some argv, b)
     else if length argv = MAXARGS_mon - 1 then Some (None, b)
     else Option.bind (salta_arg p b) (\<lambda>q. trocea n (argv @ [p]) q b))"

fun busca_orden :: "simbolos \<Rightarrow> command list \<Rightarrow> string \<Rightarrow> consola \<Rightarrow> (int \<times> consola) option" where
  "busca_orden m [] arg k =
     map_option (Pair 0) (cprintf (''Unknown command '' @ [CHR 0x27] @ ''%s'' @ [CHR 0x27] @ nl) [Cadena (Some (takeWhile (\<lambda>c. c \<noteq> NUL) arg))] k)"
| "busca_orden m (c # cs) arg k =
     (case strcmp arg (cmd_name c @ [NUL]) of
        None \<Rightarrow> None
      | Some d \<Rightarrow> if d = 0 then llama (cmd_func c) m k else busca_orden m cs arg k)"

definition runcmd :: "simbolos \<Rightarrow> string \<Rightarrow> consola \<Rightarrow> (int \<times> string \<times> consola) option" where
  "runcmd m b k = Option.bind (trocea MAXARGS_mon [] 0 b) (\<lambda>(argv, b).
     map_option (\<lambda>(r, k). (r, b, k))
       (case argv of
          None \<Rightarrow> map_option (Pair 0) (cprintf (''Too many arguments (max %d)'' @ nl) [Entero (of_nat MAXARGS_mon)] k)
        | Some argv \<Rightarrow> if argv = [] then Some (0, k) else busca_orden m commands (drop (argv ! 0) b) k))"

text \<open>\<open>imprime_tf\<close> prints the frame, if there is one.\<close>

partial_function (option) monitor_bucle :: "simbolos \<Rightarrow> string \<Rightarrow> consola \<Rightarrow> (string \<times> consola) option" where
  "monitor_bucle m b k = Option.bind (readline ''K> '' b k) (\<lambda>r.
     if fst r then
       Option.bind (runcmd m (fst (snd r)) (snd (snd r))) (\<lambda>q.
         if fst q < 0 then Some (snd q) else monitor_bucle m (fst (snd q)) (snd (snd q)))
     else monitor_bucle m (fst (snd r)) (snd (snd r)))"

definition monitor :: "simbolos \<Rightarrow> (consola \<Rightarrow> consola option) option \<Rightarrow> string \<Rightarrow> consola \<Rightarrow> (string \<times> consola) option" where
  "monitor m imprime_tf b k =
     Option.bind (imprime [(''Welcome to the JOS kernel monitor!'' @ nl, []),
                           (''Type '' @ [CHR 0x27] @ ''help'' @ [CHR 0x27] @ '' for a list of commands.'' @ nl, [])] k) (\<lambda>k.
     Option.bind (case imprime_tf of None \<Rightarrow> Some k | Some f \<Rightarrow> f k) (monitor_bucle m b))"

end
