(* ===== verification/Kern_Monitor_Contrato.thy ===== *)
theory Kern_Monitor_Contrato
  imports Kern_Monitor Printfmt_Props
begin

text \<open>
  What the line editor leaves in its buffer for a sequence of keys, what the interpreter makes of a line,
  and that the monitor is never left.
\<close>

section \<open>Output does not touch the input\<close>

definition con_salida :: "consola \<Rightarrow> consola \<Rightarrow> consola" where
  "con_salida q k = k\<lparr>crt_buf := crt_buf q, crt_pos := crt_pos q, cursor := cursor q,
     serial_out := serial_out q, lpt_out := lpt_out q\<rparr>"

lemma desplaza_salida:
  "k' = con_salida k' k \<Longrightarrow> desplaza k' = con_salida (desplaza k') k"
  by (cases k, cases k') (auto simp: con_salida_def desplaza_def Let_def)

lemma salida_trans: "k' = con_salida k' k \<Longrightarrow> k'' = con_salida k'' k' \<Longrightarrow> k'' = con_salida k'' k"
  by (cases k, cases k', cases k'') (auto simp: con_salida_def)

lemma serial_lpt_salida: "lpt_putc c (serial_putc c k) = con_salida (lpt_putc c (serial_putc c k)) k"
  by (cases k) (simp add: con_salida_def lpt_putc_def serial_putc_def)

lemma cga_salida_simple:
  assumes "c AND 0xff \<noteq> 9"
  shows "cga_putc c k = con_salida (cga_putc c k) k"
proof -
  have n: "(if c AND NOT 0xFF = 0 then c OR 0x0700 else c) AND 0xff \<noteq> 9" using assms atributo_bajo by metis
  show ?thesis
    unfolding cga_putc.simps Let_def if_not_P [OF n]
    by (rule desplaza_salida, cases k) (simp add: con_salida_def)
qed

lemma cons_salida_simple: "c AND 0xff \<noteq> 9 \<Longrightarrow> cons_putc c k = con_salida (cons_putc c k) k"
  unfolding cons_putc.simps by (rule salida_trans [OF serial_lpt_salida cga_salida_simple])

lemma cga_putc_salida: "cga_putc c k = con_salida (cga_putc c k) k"
proof (cases "c AND 0xff = 9")
  case True
  have n: "(if c AND NOT 0xFF = 0 then c OR 0x0700 else c) AND 0xff = 9" using True atributo_bajo by metis
  have e: "cons_putc 0x20 k = con_salida (cons_putc 0x20 k) k" for k by (rule cons_salida_simple) simp
  have cinco: "cons_putc 0x20 (cons_putc 0x20 (cons_putc 0x20 (cons_putc 0x20 (cons_putc 0x20 k)))) =
      con_salida (cons_putc 0x20 (cons_putc 0x20 (cons_putc 0x20 (cons_putc 0x20 (cons_putc 0x20 k))))) k"
    by (rule salida_trans [OF salida_trans [OF salida_trans [OF salida_trans [OF e e] e] e] e])
  show ?thesis unfolding cga_putc.simps Let_def n by simp (rule desplaza_salida [OF cinco])
qed (rule cga_salida_simple)

lemma cons_putc_salida: "cons_putc c k = con_salida (cons_putc c k) k"
  unfolding cons_putc.simps by (rule salida_trans [OF serial_lpt_salida cga_putc_salida])

lemma serial_salida: "serial_proc_data (con_salida q k) = apsnd (con_salida q) (serial_proc_data k)"
  by (cases k) (simp add: serial_proc_data_def con_salida_def Let_def split: list.split)

lemma kbd_salida: "kbd_proc_data (con_salida q k) = apsnd (con_salida q) (kbd_proc_data k)"
  by (cases k) (simp add: kbd_proc_data_def tecla_def con_salida_def Let_def split: list.split prod.split)

lemma guarda_salida: "guarda_car c (con_salida q k) = con_salida q (guarda_car c k)"
  by (cases k) (simp add: guarda_car_def con_salida_def Let_def)

lemma cons_intr_salida:
  assumes "\<And>k. d (con_salida q k) = apsnd (con_salida q) (d k)"
  shows "cons_intr n d (con_salida q k) = con_salida q (cons_intr n d k)"
  using assms by (induction n arbitrary: k) (auto simp: guarda_salida split: prod.splits)

lemma salida_sel [simp]:
  "serial_in (con_salida q k) = serial_in k" "kbd_in (con_salida q k) = kbd_in k"
  "serial_exists (con_salida q k) = serial_exists k" "cons_buf (con_salida q k) = cons_buf k"
  "cons_rpos (con_salida q k) = cons_rpos k" "cons_wpos (con_salida q k) = cons_wpos k"
  by (simp_all add: con_salida_def)

lemma salida_rpos: "(con_salida q k)\<lparr>cons_rpos := n\<rparr> = con_salida q (k\<lparr>cons_rpos := n\<rparr>)"
  by (cases k) (simp add: con_salida_def)

lemma kbd_intr_salida: "kbd_intr (con_salida q k) = con_salida q (kbd_intr k)"
  unfolding kbd_intr_def salida_sel by (rule cons_intr_salida [where d = kbd_proc_data, OF kbd_salida])

lemma serial_intr_salida: "serial_intr (con_salida q k) = con_salida q (serial_intr k)"
  unfolding serial_intr_def salida_sel using cons_intr_salida [where d = serial_proc_data, OF serial_salida] by simp

lemma cons_getc_salida: "cons_getc (con_salida q k) = apsnd (con_salida q) (cons_getc k)"
  by (simp add: cons_getc_def serial_intr_salida kbd_intr_salida salida_rpos Let_def)


section \<open>The keys\<close>

lemma getchar_salida:
  assumes "getchar k = Some r"
  shows "getchar (con_salida q k) = Some (apsnd (con_salida q) r)"
proof (rule getchar.raw_induct [OF _ assms, of "\<lambda>k r. getchar (con_salida q k) = Some (apsnd (con_salida q) r)"])
  fix g k r
  assume ih: "\<And>k r. g k = Some r \<Longrightarrow> getchar (con_salida q k) = Some (apsnd (con_salida q) r)"
    and e: "(let r = cons_getc k in if fst r = 0 then g (snd r) else Some r) = Some r"
  show "getchar (con_salida q k) = Some (apsnd (con_salida q) r)"
    using e ih by (subst getchar.simps) (auto simp: cons_getc_salida Let_def split: if_splits)
qed

lemma cons_getc_rango: "0 \<le> fst (cons_getc k) \<and> fst (cons_getc k) < 256"
proof -
  have "uint (w :: 8 word) < 256" for w using uint_lt2p [of w] by simp
  then show ?thesis by (simp add: cons_getc_def Let_def)
qed

lemma getchar_rango:
  assumes "getchar k = Some r"
  shows "0 < fst r \<and> fst r < 256"
proof (rule getchar.raw_induct [OF _ assms, of "\<lambda>k r. 0 < fst r \<and> fst r < 256"])
  fix g k r
  assume ih: "\<And>k r. g k = Some r \<Longrightarrow> 0 < fst r \<and> fst r < 256"
    and e: "(let r = cons_getc k in if fst r = 0 then g (snd r) else Some r) = Some r"
  show "0 < fst r \<and> fst r < 256"
    using e ih cons_getc_rango [of k] by (auto simp: Let_def split: if_splits)
qed

text \<open>The console gives the keys \<open>cs\<close>, one \<open>getchar\<close> after another.\<close>

fun entrega :: "int list \<Rightarrow> consola \<Rightarrow> bool" where
  "entrega [] k \<longleftrightarrow> True"
| "entrega (c # cs) k \<longleftrightarrow> (\<exists>k'. getchar k = Some (c, k') \<and> entrega cs k')"

lemma entrega_salida: "entrega cs k \<Longrightarrow> entrega cs (con_salida q k)"
proof (induction cs arbitrary: k)
  case (Cons c cs)
  then obtain k' where "getchar k = Some (c, k')" "entrega cs k'" by auto
  with Cons.IH show ?case using getchar_salida [of k "(c, k')" q] by auto
qed simp

lemma entrega_cons_putc: "entrega cs k \<Longrightarrow> entrega cs (cons_putc c k)"
  using entrega_salida [of cs k "cons_putc c k"] cons_putc_salida [of c k] by simp


section \<open>The line\<close>

text \<open>What a key does to the line.\<close>

definition edita :: "string \<Rightarrow> int \<Rightarrow> string" where
  "edita l c =
     (if (c = 8 \<or> c = 0x7f) \<and> l \<noteq> [] then butlast l
      else if c \<ge> 0x20 \<and> length l < BUFLEN_linea - 1 then l @ [char_of c] else l)"

definition cstr :: "nat \<Rightarrow> string \<Rightarrow> string" where
  "cstr p b = takeWhile (\<lambda>c. c \<noteq> NUL) (drop p b)"

lemma cstr_take:
  assumes "NUL \<notin> set (take i b)" and "i < length b"
  shows "cstr 0 (b[i := NUL]) = take i b"
proof -
  have "b[i := NUL] = take i b @ NUL # drop (Suc i) b" by (rule upd_conv_take_nth_drop [OF assms(2)])
  then show ?thesis using assms(1) by (simp add: cstr_def takeWhile_append2 takeWhile_tail) (metis takeWhile_eq_all_conv takeWhile_tail)
qed

lemma char_of_nz: "0 < c \<Longrightarrow> c < 256 \<Longrightarrow> char_of (c :: int) \<noteq> NUL"
proof
  assume c: "0 < c" "c < 256" and "char_of c = NUL"
  then have "of_char (char_of c) = (0 :: int)" by simp
  moreover have "of_char (char_of c) = c mod 256" by simp
  ultimately show False using c by simp
qed

lemma readline_bucle_edita:
  assumes "entrega (cs @ [c]) k" and "c = 10 \<or> c = 13" and "10 \<notin> set cs" and "13 \<notin> set cs"
    and "length b = BUFLEN_linea" and "i < BUFLEN_linea" and "NUL \<notin> set (take i b)"
  shows "\<exists>b' k'. readline_bucle i b k = Some (True, b', k') \<and> length b' = BUFLEN_linea \<and>
    cstr 0 b' = foldl edita (take i b) cs"
  using assms
proof (induction cs arbitrary: i b k)
  case Nil
  then obtain k' where k': "getchar k = Some (c, k')" by auto
  have "readline_bucle i b k = Some (True, b[i := NUL], cons_putc 10 k')"
    using Nil.prems(2) by (subst readline_bucle.simps) (auto simp: k' Let_def)
  then show ?case using Nil.prems cstr_take by simp
next
  case (Cons d cs)
  then obtain k' where k': "getchar k = Some (d, k')" "entrega (cs @ [c]) k'" by auto
  have d: "0 < d" "d < 256" "d \<noteq> 10" "d \<noteq> 13" using getchar_rango [OF k'(1)] Cons.prems(3,4) by auto
  have len: "length (take i b) = i" using Cons.prems(5,6) by simp
  note IH = Cons.IH [OF _ Cons.prems(2) _ _ _ _]
  consider (atras) "d = 8 \<or> d = 0x7f" "i > 0" | (mas) "\<not> ((d = 8 \<or> d = 0x7f) \<and> i > 0)" "d \<ge> 0x20" "i < BUFLEN_linea - 1"
    | (nada) "\<not> ((d = 8 \<or> d = 0x7f) \<and> i > 0)" "\<not> (d \<ge> 0x20 \<and> i < BUFLEN_linea - 1)" by linarith
  then show ?case
  proof cases
    case atras
    have "readline_bucle i b k = readline_bucle (i - 1) b (cons_putc 8 k')"
      using atras d by (subst readline_bucle.simps) (auto simp: k' Let_def)
    moreover have "take i b \<noteq> []" using len atras(2) by auto
    then have "edita (take i b) d = take (i - 1) b"
      using atras(1) by (simp add: edita_def butlast_take Cons.prems(5) less_imp_le [OF Cons.prems(6)])
    moreover have "NUL \<notin> set (take (i - 1) b)" using Cons.prems(7) set_take_subset_set_take [of "i - 1" i b] by auto
    ultimately show ?thesis
      using IH [OF entrega_cons_putc [OF k'(2)], of b "i - 1" 8] Cons.prems by simp
  next
    case mas
    have e: "readline_bucle i b k = readline_bucle (i + 1) (b[i := char_of d]) (cons_putc (word_of_int d) k')"
      using mas d by (subst readline_bucle.simps) (auto simp: k' Let_def)
    have t: "take (i + 1) (b[i := char_of d]) = take i b @ [char_of d]"
      using Cons.prems(5,6) by (simp add: take_Suc_conv_app_nth)
    have "i = 0 \<longleftrightarrow> take i b = []" using len by auto
    then have "edita (take i b) d = take (i + 1) (b[i := char_of d])" unfolding t using mas len by (auto simp: edita_def)
    moreover have "NUL \<notin> set (take (i + 1) (b[i := char_of d]))"
      unfolding t using Cons.prems(7) char_of_nz [OF d(1,2)] by auto
    ultimately show ?thesis
      using IH [OF entrega_cons_putc [OF k'(2)], of "b[i := char_of d]" "i + 1" "word_of_int d"] e mas Cons.prems by simp
  next
    case nada
    have e: "readline_bucle i b k = readline_bucle i b k'"
      using nada d by (subst readline_bucle.simps) (auto simp: k' Let_def)
    have "i = 0 \<longleftrightarrow> take i b = []" using len by auto
    then have "edita (take i b) d = take i b" using nada len by (auto simp: edita_def)
    then show ?thesis using IH [OF k'(2), of b i] e Cons.prems by simp
  qed
qed


lemma cprintf_fold: "cprintf fmt ap k = map_option (\<lambda>(out, ap). fold cputchar out k) (salida fmt ap)"
proof -
  have "fold (putch_kernel cputchar) out (k, n) = (fold cputchar out k, n + length out)" for out n
    by (induction out arbitrary: k n) (simp_all add: putch_kernel_def)
  then show ?thesis
    by (simp add: cprintf_def vcprintf_kernel_def vprintfmt_fold option.map_comp comp_def case_prod_unfold)
qed

lemma emite_todo: "emite junta False p (- 1) w s = (w - int (length p), s @ p)"
  by (induction p arbitrary: w s) simp_all

lemma salida_s: "salida ''%s'' [Cadena (Some p)] = Some (p, [])"
proof -
  have r: "reswitch formato_inicial ''s'' [Cadena (Some p)] = Some (formato_inicial, CHR ''s'', [], [Cadena (Some p)])"
    by (simp add: reswitch.simps es_digito_def less_eq_char_def)
  show ?thesis
    by (rule salida_simple [OF r])
      (simp add: conversion_def va_str_def conv_s_def formato_inicial_def emite_todo)
qed

lemma entrega_fold: "entrega cs k \<Longrightarrow> entrega cs (fold cputchar out k)"
  by (induction out arbitrary: k) (simp_all add: cputchar_def entrega_cons_putc)

lemma edita_corta: "length l < BUFLEN_linea \<Longrightarrow> length (foldl edita l cs) < BUFLEN_linea"
proof (induction cs arbitrary: l)
  case (Cons c cs)
  have "length (edita l c) < BUFLEN_linea" using Cons.prems by (auto simp: edita_def)
  then show ?case by (simp add: Cons.IH)
qed simp

text \<open>
  C37: when the console gives the keys cs and then a newline or a carriage return, readline returns its buffer
  with the line that results from typing cs into an empty one: backspace and DEL take the last character away,
  a printable key is added while it fits, any other is ignored; the line and its terminator fit in the buffer.
\<close>

theorem readline_edita:
  assumes "entrega (cs @ [c]) k" and "c = 10 \<or> c = 13" and "10 \<notin> set cs" and "13 \<notin> set cs"
    and "length b = BUFLEN_linea"
  shows "\<exists>b' k'. readline prompt b k = Some (True, b', k') \<and> length b' = BUFLEN_linea \<and>
    cstr 0 b' = foldl edita [] cs \<and> length (cstr 0 b') < BUFLEN_linea"
proof -
  have "\<exists>b' k'. readline_bucle 0 b (fold cputchar prompt k) = Some (True, b', k') \<and> length b' = BUFLEN_linea \<and>
      cstr 0 b' = foldl edita (take 0 b) cs"
    by (rule readline_bucle_edita [OF entrega_fold [OF assms(1)] assms(2-5)]) (simp_all add: BUFLEN_linea_def)
  then show ?thesis
    using edita_corta [of "[]" cs] by (auto simp: readline_def cprintf_fold salida_s BUFLEN_linea_def)
qed

definition cons_linea :: consola where
  "cons_linea = \<lparr>cons_buf = [104, 105, 127, 13] @ replicate 508 0, cons_rpos = 0, cons_wpos = 4, serial_exists = False,
     serial_in = [], kbd_in = [], kbd_shift = 0, reinicia = False, crt_buf = (\<lambda>_. 0), crt_pos = 0, cursor = 0,
     serial_out = [], lpt_out = []\<rparr>"

theorem readline_edita_witness:
  "\<exists>b k. readline ''K> '' (replicate 1024 NUL) cons_linea = Some (True, b, k) \<and> cstr 0 b = ''h''"
proof -
  have e: "entrega ([104, 105, 127] @ [13]) cons_linea"
    by (simp add: cons_linea_def getchar.simps cons_getc_def serial_intr_def kbd_intr_def kbd_proc_data_def CONSBUFSIZE_def Let_def)
  have "foldl edita [] [104, 105, 127] = ''h''" by (simp add: edita_def BUFLEN_linea_def char_of_def)
  then show ?thesis using readline_edita [OF e, of "replicate 1024 NUL" "''K> ''"] by (auto simp: BUFLEN_linea_def)
qed


section \<open>The words of a line\<close>

function palabras :: "string \<Rightarrow> string list" where
  "palabras t = (case dropWhile blanco t of [] \<Rightarrow> []
     | c # u \<Rightarrow> takeWhile (\<lambda>c. \<not> blanco c) (c # u) # palabras (dropWhile (\<lambda>c. \<not> blanco c) (c # u)))"
  by pat_completeness auto
termination
proof (relation "measure length")
  fix t c u
  assume "dropWhile blanco t = c # u"
  then have "\<not> blanco c" "length (c # u) \<le> length t" using hd_dropWhile [of blanco t] length_dropWhile_le [of blanco t] by auto
  then show "(dropWhile (\<lambda>c. \<not> blanco c) (c # u), t) \<in> measure length"
    using length_dropWhile_le [of "\<lambda>c. \<not> blanco c" u] by simp
qed simp

declare palabras.simps [simp del]

lemma blanco_NUL [simp]: "\<not> blanco NUL"
  by (simp add: blanco_def WHITESPACE_def)

lemma palabras_de:
  assumes "\<forall>c\<in>set ws. blanco c" and "\<forall>c\<in>set w. \<not> blanco c" and "w \<noteq> []" and "u = [] \<or> blanco (hd u)"
  shows "palabras (ws @ w @ u) = w # palabras u"
proof -
  have d: "dropWhile blanco (ws @ w @ u) = w @ u" using assms(1-3) by (cases w) (simp_all add: dropWhile_append2)
  have "takeWhile (\<lambda>c. \<not> blanco c) (w @ u) = w" "dropWhile (\<lambda>c. \<not> blanco c) (w @ u) = u"
    using assms(2,4) by (cases u; simp add: takeWhile_append2 dropWhile_append2)+
  then show ?thesis using d assms(3) by (subst palabras.simps) (cases "w @ u"; simp)
qed

lemma palabras_vacia: "\<forall>c\<in>set ws. blanco c \<Longrightarrow> palabras ws = []"
proof -
  assume "\<forall>c\<in>set ws. blanco c"
  then have e: "dropWhile blanco ws = []" by simp
  show ?thesis unfolding palabras.simps [of ws] e by simp
qed

text \<open>A line is blanks, a word and the rest.\<close>

lemma parte_linea:
  obtains ws w u where "t = ws @ w @ u" "\<forall>c\<in>set ws. blanco c" "\<forall>c\<in>set w. \<not> blanco c" "u = [] \<or> blanco (hd u)"
    "w = [] \<longrightarrow> u = []"
proof
  let ?v = "dropWhile blanco t"
  show "t = takeWhile blanco t @ takeWhile (\<lambda>c. \<not> blanco c) ?v @ dropWhile (\<lambda>c. \<not> blanco c) ?v" by simp
  show "\<forall>c\<in>set (takeWhile blanco t). blanco c" "\<forall>c\<in>set (takeWhile (\<lambda>c. \<not> blanco c) ?v). \<not> blanco c"
    by (auto dest: set_takeWhileD)
  show "dropWhile (\<lambda>c. \<not> blanco c) ?v = [] \<or> blanco (hd (dropWhile (\<lambda>c. \<not> blanco c) ?v))"
    using hd_dropWhile [of "\<lambda>c. \<not> blanco c" ?v] by blast
  show "takeWhile (\<lambda>c. \<not> blanco c) ?v = [] \<longrightarrow> dropWhile (\<lambda>c. \<not> blanco c) ?v = []"
  proof (cases ?v)
    case Nil
    show ?thesis unfolding Nil by simp
  next
    case (Cons c v)
    then have "\<not> blanco c" using hd_dropWhile [of blanco t] by simp
    with Cons show ?thesis by simp
  qed
qed

lemma traga_ok:
  assumes "\<forall>c\<in>set ws. blanco c" and "r \<noteq> []" and "\<not> blanco (hd r)"
  shows "traga (length xs) (xs @ ws @ r) = Some (length xs + length ws, xs @ replicate (length ws) NUL @ r)"
  using assms(1)
proof (induction ws arbitrary: xs)
  case Nil
  then show ?case using assms(2,3) by (subst traga.simps) (auto simp: nth_append hd_conv_nth)
next
  case (Cons c ws)
  then have c: "blanco c" "c \<noteq> NUL" by auto
  have "traga (length xs) (xs @ (c # ws) @ r) = traga (length (xs @ [NUL])) ((xs @ [NUL]) @ ws @ r)"
    using c by (subst traga.simps) (simp add: nth_append list_update_append)
  also have "\<dots> = Some (length (xs @ [NUL]) + length ws, (xs @ [NUL]) @ replicate (length ws) NUL @ r)"
    using Cons by (intro Cons.IH) simp
  finally show ?case by simp
qed

lemma salta_arg_ok:
  assumes "\<forall>c\<in>set w. \<not> blanco c" and "NUL \<notin> set w" and "r \<noteq> []" and "hd r = NUL \<or> blanco (hd r)"
  shows "salta_arg (length xs) (xs @ w @ r) = Some (length xs + length w)"
  using assms(1,2)
proof (induction w arbitrary: xs)
  case Nil
  then show ?case using assms(3,4) by (subst salta_arg.simps) (auto simp: nth_append hd_conv_nth)
next
  case (Cons c w)
  have "salta_arg (length xs) (xs @ (c # w) @ r) = salta_arg (length (xs @ [c])) ((xs @ [c]) @ w @ r)"
    using Cons.prems by (subst salta_arg.simps) (auto simp: nth_append)
  also have "\<dots> = Some (length (xs @ [c]) + length w)" using Cons by (intro Cons.IH) simp_all
  finally show ?case by simp
qed


lemma cstr_palabra: "NUL \<notin> set w \<Longrightarrow> hd r = NUL \<Longrightarrow> r \<noteq> [] \<Longrightarrow> cstr (length xs) (xs @ w @ r) = w"
  by (cases r) (simp_all add: cstr_def takeWhile_append2 takeWhile_tail, metis append.right_neutral takeWhile_append2 takeWhile_eq_Nil_iff list.sel(1) list.discI)

text \<open>
  The loop over the rest \<open>t\<close> of a line: the offsets it adds are of strings, in the buffer it leaves, that are
  the words of \<open>t\<close>; a blank at the start, or the end of the line, is the terminator of the word before.
\<close>

lemma trocea_ok:
  assumes "NUL \<notin> set t" and "length argv + n = MAXARGS_mon" and "n \<noteq> 0"
  shows "\<exists>ps r. trocea n argv (length xs) (xs @ t @ NUL # zs) =
      Some (if length argv + length (palabras t) < MAXARGS_mon then Some (argv @ ps) else None, xs @ r) \<and>
    length r = length t + 1 + length zs \<and> (t = [] \<or> blanco (hd t) \<longrightarrow> hd r = NUL) \<and>
    (length argv + length (palabras t) < MAXARGS_mon \<longrightarrow> map (\<lambda>p. cstr p (xs @ r)) ps = palabras t \<and>
       (\<forall>p\<in>set ps. NUL \<in> set (drop p (xs @ r))))"
  using assms
proof (induction n arbitrary: argv xs t)
  case (Suc n)
  obtain ws w u where t: "t = ws @ w @ u" "\<forall>c\<in>set ws. blanco c" "\<forall>c\<in>set w. \<not> blanco c" "u = [] \<or> blanco (hd u)"
    "w = [] \<longrightarrow> u = []" by (rule parte_linea)
  let ?q = "length xs + length ws" and ?ys = "xs @ replicate (length ws) NUL"
  have nul: "NUL \<notin> set w" "NUL \<notin> set u" using Suc.prems(1) t(1) by auto
  have hd_ws: "t = [] \<or> blanco (hd t) \<Longrightarrow> w \<noteq> [] \<Longrightarrow> ws \<noteq> []" using t(1,3) by (cases w) auto
  have tr: "traga (length xs) (xs @ t @ NUL # zs) = Some (?q, ?ys @ w @ u @ NUL # zs)"
    using traga_ok [OF t(2), of "w @ u @ NUL # zs" xs] t(3,5) by (cases w) (auto simp: t(1))
  show ?case
  proof (cases "w = []")
    case True
    then have p: "palabras t = []" using t(2,5) palabras_vacia unfolding t(1) by simp
    have "trocea (Suc n) argv (length xs) (xs @ t @ NUL # zs) = Some (Some argv, xs @ replicate (length ws) NUL @ NUL # zs)"
      using tr True t(5) by (simp add: nth_append)
    moreover have "hd (replicate (length ws) NUL @ NUL # zs) = NUL" by (cases ws) simp_all
    ultimately show ?thesis using True t(1,5) p Suc.prems(2)
      by (intro exI [of _ "[]"] exI [of _ "replicate (length ws) NUL @ NUL # zs"]) simp
  next
    case False
    have p: "palabras t = w # palabras u" unfolding t(1) by (rule palabras_de [OF t(2,3) False t(4)])
    have nz: "(?ys @ w @ u @ NUL # zs) ! ?q \<noteq> NUL" using False nul(1) by (cases w) (auto simp: nth_append)
    show ?thesis
    proof (cases "length argv = MAXARGS_mon - 1")
      case True
      have "trocea (Suc n) argv (length xs) (xs @ t @ NUL # zs) = Some (None, xs @ replicate (length ws) NUL @ w @ u @ NUL # zs)"
        using tr nz True by simp
      moreover have "\<not> length argv + length (palabras t) < MAXARGS_mon" using p True by (simp add: MAXARGS_mon_def)
      moreover have "t = [] \<or> blanco (hd t) \<longrightarrow> hd (replicate (length ws) NUL @ w @ u @ NUL # zs) = NUL"
        using hd_ws False by (cases ws) auto
      ultimately show ?thesis using t(1)
        by (intro exI [of _ "[]"] exI [of _ "replicate (length ws) NUL @ w @ u @ NUL # zs"]) simp
    next
      case lejos: False
      have sa: "salta_arg ?q (?ys @ w @ u @ NUL # zs) = Some (length (?ys @ w))"
        using salta_arg_ok [OF t(3) nul(1), of "u @ NUL # zs" ?ys] t(4) by (cases u) auto
      have n: "n \<noteq> 0" "length (argv @ [?q]) + n = MAXARGS_mon" using Suc.prems(2) lejos by (auto simp: MAXARGS_mon_def)
      obtain ps r where R: "trocea n (argv @ [?q]) (length (?ys @ w)) ((?ys @ w) @ u @ NUL # zs) =
          Some (if length (argv @ [?q]) + length (palabras u) < MAXARGS_mon then Some ((argv @ [?q]) @ ps) else None, (?ys @ w) @ r)"
        "length r = length u + 1 + length zs" "hd r = NUL"
        "length (argv @ [?q]) + length (palabras u) < MAXARGS_mon \<longrightarrow> map (\<lambda>p. cstr p ((?ys @ w) @ r)) ps = palabras u \<and>
          (\<forall>p\<in>set ps. NUL \<in> set (drop p ((?ys @ w) @ r)))"
        using Suc.IH [OF nul(2) n(2,1), of "?ys @ w"] t(4) by blast
      have "r \<noteq> []" using R(2) by auto
      then have c: "cstr ?q (?ys @ w @ r) = w" "NUL \<in> set (drop ?q (?ys @ w @ r))"
        using cstr_palabra [OF nul(1) R(3), of ?ys] R(3) hd_in_set [of r] by simp_all
      have "trocea (Suc n) argv (length xs) (xs @ t @ NUL # zs) =
          trocea n (argv @ [?q]) (length (?ys @ w)) ((?ys @ w) @ u @ NUL # zs)"
        using tr nz lejos sa by simp
      moreover have "t = [] \<or> blanco (hd t) \<longrightarrow> hd (replicate (length ws) NUL @ w @ r) = NUL"
        using hd_ws False by (cases ws) auto
      ultimately show ?thesis using R t(1) p c
        by (intro exI [of _ "?q # ps"] exI [of _ "replicate (length ws) NUL @ w @ r"]) simp
    qed
  qed
qed simp

lemma of_char_cero: "(of_char c :: int) = 0 \<longleftrightarrow> c = NUL"
proof
  assume "(of_char c :: int) = 0"
  then have "char_of (of_char c :: int) = NUL" by (simp add: char_of_def)
  then show "c = NUL" by simp
qed simp

lemma strcmp_cstr:
  assumes "NUL \<notin> set n"
  shows "NUL \<in> set a \<Longrightarrow> \<exists>d. strcmp a (n @ [NUL]) = Some d \<and> (d = 0 \<longleftrightarrow> takeWhile (\<lambda>c. c \<noteq> NUL) a = n)"
  using assms
proof (induction n arbitrary: a)
  case Nil
  then show ?case by (cases a) (auto simp: byte_diff_def of_char_cero)
next
  case (Cons c n)
  then show ?case by (cases a) (auto simp: byte_diff_def)
qed


text \<open>The message of \<open>busca_orden\<close> and the commands, for the first word.\<close>

definition orden :: "simbolos \<Rightarrow> string list \<Rightarrow> consola \<Rightarrow> consola option" where
  "orden m ws k =
     (if length ws \<ge> MAXARGS_mon then cprintf (''Too many arguments (max %d)'' @ nl) [Entero (of_nat MAXARGS_mon)] k
      else if ws = [] then Some k
      else if hd ws = ''help'' then map_option snd (mon_help k)
      else if hd ws = ''kerninfo'' then map_option snd (mon_kerninfo m k)
      else cprintf (''Unknown command '' @ [CHR 0x27] @ ''%s'' @ [CHR 0x27] @ nl) [Cadena (Some (hd ws))] k)"

lemma busca_orden_ok:
  assumes "NUL \<in> set a" and "takeWhile (\<lambda>c. c \<noteq> NUL) a = w" and "length (w # ws) < MAXARGS_mon"
  shows "busca_orden m commands a k = map_option (Pair 0) (orden m (w # ws) k)"
proof -
  obtain d where d: "strcmp a (''help'' @ [NUL]) = Some d" "d = 0 \<longleftrightarrow> w = ''help''"
    using strcmp_cstr [of "''help''" a] assms(1,2) by auto
  obtain e where e: "strcmp a (''kerninfo'' @ [NUL]) = Some e" "e = 0 \<longleftrightarrow> w = ''kerninfo''"
    using strcmp_cstr [of "''kerninfo''" a] assms(1,2) by auto
  have cero: "map_option (Pair 0) (map_option snd (mon_help k)) = mon_help k"
    "map_option (Pair 0) (map_option snd (mon_kerninfo m k)) = mon_kerninfo m k"
    by (simp_all add: mon_help_def mon_kerninfo_def option.map_comp comp_def)
  have z: "\<not> length (w # ws) \<ge> MAXARGS_mon" "w # ws \<noteq> []" using assms(3) by simp_all
  show ?thesis
    unfolding orden_def if_not_P [OF z(1)] if_not_P [OF z(2)] list.sel commands_def
    using d e assms(2) by (simp add: cero)
qed

lemma runcmd_ok:
  assumes "NUL \<in> set b"
  shows "\<exists>b'. length b' = length b \<and>
    runcmd m b k = map_option (\<lambda>k. (0, b', k)) (orden m (palabras (cstr 0 b)) k)"
proof -
  let ?t = "cstr 0 b" and ?ws = "palabras (cstr 0 b)"
  obtain zs where b: "b = ?t @ NUL # zs"
  proof -
    have "dropWhile (\<lambda>c. c \<noteq> NUL) b \<noteq> []" using assms by auto
    then obtain zs where "dropWhile (\<lambda>c. c \<noteq> NUL) b = NUL # zs"
      using hd_dropWhile [of "\<lambda>c. c \<noteq> NUL" b] by (cases "dropWhile (\<lambda>c. c \<noteq> NUL) b") auto
    then show thesis using that takeWhile_dropWhile_id [of "\<lambda>c. c \<noteq> NUL" b] unfolding cstr_def drop_0 by metis
  qed
  have nt: "NUL \<notin> set ?t" by (auto simp: cstr_def dest: set_takeWhileD)
  have arg: "length [] + MAXARGS_mon = MAXARGS_mon" "MAXARGS_mon \<noteq> 0" by (simp_all add: MAXARGS_mon_def)
  from trocea_ok [OF nt arg, of "[]" zs] obtain ps r where T0:
    "trocea MAXARGS_mon [] 0 (?t @ NUL # zs) = Some (if length ?ws < MAXARGS_mon then Some ps else None, r)"
    "length r = length ?t + 1 + length zs"
    "length ?ws < MAXARGS_mon \<longrightarrow> map (\<lambda>p. cstr p r) ps = ?ws \<and> (\<forall>p\<in>set ps. NUL \<in> set (drop p r))"
    unfolding append_Nil list.size(3) add_0 by blast
  have T: "trocea MAXARGS_mon [] 0 b = Some (if length ?ws < MAXARGS_mon then Some ps else None, r)" "length r = length b"
    using T0(2) arg_cong [OF b, of length] by (simp_all add: T0(1) [folded b])
  show ?thesis
  proof (cases "length ?ws < MAXARGS_mon")
    case False
    have "runcmd m b k = map_option (\<lambda>k. (0, r, k)) (orden m ?ws k)"
      using False T(1) by (simp add: runcmd_def orden_def option.map_comp comp_def)
    then show ?thesis using T(2) by blast
  next
    case True
    have "runcmd m b k = map_option (\<lambda>k. (0, r, k)) (orden m ?ws k)"
    proof (cases ?ws)
      case Nil
      then show ?thesis using True T T0(3) by (simp add: runcmd_def orden_def)
    next
      case (Cons w ws)
      then obtain p qs where ps: "ps = p # qs" "cstr p r = w" using True T0(3) by (cases ps) auto
      then have "NUL \<in> set (drop p r)" using True T0(3) by simp
      then show ?thesis
        using busca_orden_ok [of "drop p r" w ws m k] ps Cons True T(1)
        by (simp add: runcmd_def cstr_def option.map_comp comp_def)
    qed
    then show ?thesis using T(2) by blast
  qed
qed




section \<open>The loop\<close>

text \<open>Whenever \<open>readline\<close> returns its buffer, it holds a terminated line.\<close>

definition linea_ok :: "nat \<Rightarrow> string \<Rightarrow> bool \<times> string \<times> consola \<Rightarrow> bool" where
  "linea_ok i b r \<longleftrightarrow> (length b = BUFLEN_linea \<and> i < BUFLEN_linea \<longrightarrow>
     length (fst (snd r)) = BUFLEN_linea \<and> (fst r \<longrightarrow> NUL \<in> set (fst (snd r))))"

lemma readline_bucle_ok:
  assumes "readline_bucle i b k = Some r"
  shows "linea_ok i b r"
proof (rule readline_bucle.raw_induct [OF _ assms, of "\<lambda>i b k. linea_ok i b"])
  fix g i b k r
  assume ih: "\<And>i b k r. g i b k = Some r \<Longrightarrow> linea_ok i b r"
    and e: "Option.bind (getchar k) (\<lambda>r.
     let c = fst r; k = snd r
     in if c < 0 then
          Option.bind (cprintf (''read error: %e'' @ nl) [Entero (word_of_int c)] k) (\<lambda>k. Some (False, b, k))
        else if (c = 8 \<or> c = 0x7f) \<and> i > 0 then g (i - 1) b (cons_putc 8 k)
        else if c \<ge> 0x20 \<and> i < BUFLEN_linea - 1 then
          g (i + 1) (b[i := char_of c]) (cons_putc (word_of_int c) k)
        else if c = 10 \<or> c = 13 then Some (True, b[i := NUL], cons_putc 10 k)
        else g i b k) = Some r"
  then show "linea_ok i b r"
    by (auto simp: Let_def linea_ok_def set_update_memI bind_eq_Some_conv split: if_splits dest!: ih)
qed

lemma readline_ok:
  assumes "readline p b k = Some r" and "length b = BUFLEN_linea"
  shows "length (fst (snd r)) = BUFLEN_linea" and "fst r \<Longrightarrow> NUL \<in> set (fst (snd r))"
  using assms readline_bucle_ok [of 0 b _ r]
  by (auto simp: readline_def linea_ok_def bind_eq_Some_conv BUFLEN_linea_def)

lemma monitor_sigue:
  assumes "monitor_bucle m b k = Some r"
  shows "length b \<noteq> BUFLEN_linea"
proof (rule monitor_bucle.raw_induct [OF _ assms, of "\<lambda>m b k r. length b \<noteq> BUFLEN_linea"])
  fix g m b k r
  assume ih: "\<And>m b k r. g m b k = Some r \<Longrightarrow> length b \<noteq> BUFLEN_linea"
    and e: "Option.bind (readline ''K> '' b k) (\<lambda>r.
     if fst r then
       Option.bind (runcmd m (fst (snd r)) (snd (snd r))) (\<lambda>q.
         if fst q < 0 then Some (snd q) else g m (fst (snd q)) (snd (snd q)))
     else g m (fst (snd r)) (snd (snd r))) = Some r"
  show "length b \<noteq> BUFLEN_linea"
  proof
    assume b: "length b = BUFLEN_linea"
    from e obtain q where q: "readline ''K> '' b k = Some q" by (auto simp: bind_eq_Some_conv)
    note R = readline_ok [OF q b]
    show False
    proof (cases "fst q")
      case True
      obtain b' where "length b' = BUFLEN_linea" "runcmd m (fst (snd q)) (snd (snd q)) =
          map_option (\<lambda>k. (0, b', k)) (orden m (palabras (cstr 0 (fst (snd q)))) (snd (snd q)))"
        using runcmd_ok [OF R(2) [OF True], of m "snd (snd q)"] R(1) by auto
      then show False using e q True by (auto simp: bind_eq_Some_conv dest: ih)
    next
      case False
      then show False using e q R(1) by (auto simp: bind_eq_Some_conv dest: ih)
    qed
  qed
qed

text \<open>
  Once in the monitor the kernel never leaves it: its loop returns for no sequence of keys, since no command
  answers a negative number.
\<close>

theorem monitor_no_vuelve:
  assumes "length b = BUFLEN_linea"
  shows "monitor m imprime_tf b k = None"
proof -
  have "monitor_bucle m b k = None" for k using monitor_sigue [of m b k] assms by (cases "monitor_bucle m b k") auto
  then show ?thesis by (auto simp: monitor_def split: option.split bind_splits)
qed

end
