(* ===== verification/Kern_Mp.thy ===== *)
theory Kern_Mp
  imports Kern_Trap
begin

text \<open>
  The multiprocessor tables (\<^verbatim>\<open>sched/kern/mpconfig.c\<close>, \<^verbatim>\<open>sched/kern/cpu.h\<close>): the search for the floating pointer,
  the checks of the configuration table and the loop over its entries. The tables are bytes of physical
  memory. The switch out of PIC mode is the list of what is written to the ports.
\<close>

section \<open>Physical memory as bytes\<close>

definition byte_fis :: "kst \<Rightarrow> nat \<Rightarrow> 8 word" where
  "byte_fis s a = byte_de (a mod 4) (mem s (a div 4096) (a mod 4096 div 4))"

definition bytes_fis :: "kst \<Rightarrow> nat \<Rightarrow> nat \<Rightarrow> 8 word list" where
  "bytes_fis s a n = map (\<lambda>i. byte_fis s (a + i)) [0..<n]"

definition fis16 :: "kst \<Rightarrow> nat \<Rightarrow> 16 word" where
  "fis16 s a = ucast (byte_fis s a) OR push_bit 8 (ucast (byte_fis s (a + 1)))"

definition fis32 :: "kst \<Rightarrow> nat \<Rightarrow> 32 word" where
  "fis32 s a = ucast (fis16 s a) OR push_bit 16 (ucast (fis16 s (a + 2)))"

text \<open>\<open>KADDR\<close> of an address that is not that of a page.\<close>

definition kaddr_byte :: "nat \<Rightarrow> nat kern" where
  "kaddr_byte pa s = (if pa div 4096 \<ge> npages s then Inl (Panico ''KADDR called with invalid pa'') else Inr (pa, s))"


section \<open>The search\<close>

definition sum_mp :: "kst \<Rightarrow> nat \<Rightarrow> nat \<Rightarrow> 8 word" where
  "sum_mp s addr len = word_of_int (fold (\<lambda>b acc. acc + uint b) (bytes_fis s addr len) 0)"

text \<open>The structures \<open>mp\<close> and \<open>mpconf\<close> are named by their addresses; \<open>_MP_\<close> and \<open>PCMP\<close> are the signatures.\<close>

definition firma :: "string \<Rightarrow> 8 word list" where "firma = map of_char"

definition mpsearch1 :: "nat \<Rightarrow> nat \<Rightarrow> nat option kern" where
  "mpsearch1 a len s =
     and_then (kaddr_byte a s) (\<lambda>(mp, s).
     and_then (kaddr_byte (a + len) s) (\<lambda>(hasta, s).
       Inr (find (\<lambda>mp. bytes_fis s mp 4 = firma ''_MP_'' \<and> sum_mp s mp 16 = 0)
              (map (\<lambda>k. mp + 16 * k) [0..<(hasta - mp + 15) div 16]), s)))"

definition mpsearch :: "nat option kern" where
  "mpsearch s =
     and_then (kaddr_byte 0x400 s) (\<lambda>(bda, s).
       let ebda = unat (fis16 s (bda + 0x0E)); ult = mpsearch1 0xF0000 0x10000
       in if ebda \<noteq> 0 then
            and_then (mpsearch1 (ebda * 16) 1024 s) (\<lambda>(mp, s). if mp \<noteq> None then Inr (mp, s) else ult s)
          else
            let p = word_of_nat (unat (fis16 s (bda + 0x13)) * 1024) - (1024 :: 32 word)
            in and_then (mpsearch1 (unat p) 1024 s) (\<lambda>(mp, s). if mp \<noteq> None then Inr (mp, s) else ult s))"

text \<open>The answer is the table and the floating pointer; the messages of the failures are not part of the state.\<close>

definition mpconfig :: "(nat \<times> nat) option kern" where
  "mpconfig s =
     and_then (mpsearch s) (\<lambda>(mp, s).
       case mp of
         None \<Rightarrow> Inr (None, s)
       | Some mp \<Rightarrow>
           if fis32 s (mp + 4) = 0 \<or> byte_fis s (mp + 11) \<noteq> 0 then Inr (None, s)
           else
             and_then (kaddr_byte (unat (fis32 s (mp + 4))) s) (\<lambda>(conf, s).
               let lon = unat (fis16 s (conf + 4)); version = byte_fis s (conf + 6)
               in if bytes_fis s conf 4 \<noteq> firma ''PCMP'' then Inr (None, s)
                  else if sum_mp s conf lon \<noteq> 0 then Inr (None, s)
                  else if version \<noteq> 1 \<and> version \<noteq> 4 then Inr (None, s)
                  else if sum_mp s (conf + lon) (unat (fis16 s (conf + 40))) + byte_fis s (conf + 42) \<noteq> 0
                       then Inr (None, s)
                  else Inr (Some (conf, mp), s)))"


section \<open>The processors\<close>

definition NCPU :: nat where "NCPU = 8"
definition MPPROC :: "8 word" where "MPPROC = 0"
definition MPBUS :: "8 word" where "MPBUS = 1"
definition MPIOAPIC :: "8 word" where "MPIOAPIC = 2"
definition MPIOINTR :: "8 word" where "MPIOINTR = 3"
definition MPLINTR :: "8 word" where "MPLINTR = 4"
definition MPPROC_BOOT :: "8 word" where "MPPROC_BOOT = 2"

record cpu_info =
  cpu_id :: "8 word"
  estado_cpu :: cpu_estado

text \<open>The globals of the module; \<open>bootcpu\<close> is an index into \<open>cpus\<close>, which may be one past its end.\<close>

record mpst =
  cpus :: "cpu_info list"
  bootcpu :: nat
  ismp :: bool
  ncpu :: nat
  lapicaddr :: "32 word"
  salidas :: "(nat \<times> 8 word) list"

definition mp_procesador :: "8 word \<Rightarrow> mpst \<Rightarrow> mpst" where
  "mp_procesador flags m =
     (let m = (if flags AND MPPROC_BOOT \<noteq> 0 then m\<lparr>bootcpu := ncpu m\<rparr> else m)
      in if ncpu m < NCPU
         then m\<lparr>cpus := (cpus m)[ncpu m := (cpus m ! ncpu m)\<lparr>cpu_id := of_nat (ncpu m)\<rparr>], ncpu := ncpu m + 1\<rparr>
         else m)"

text \<open>The loop, with \<open>n\<close> entries left at \<open>p\<close>.\<close>

fun mp_entradas :: "kst \<Rightarrow> nat \<Rightarrow> nat \<Rightarrow> mpst \<Rightarrow> mpst" where
  "mp_entradas s 0 p m = m"
| "mp_entradas s (Suc n) p m =
     (if byte_fis s p = MPPROC then mp_entradas s n (p + 20) (mp_procesador (byte_fis s (p + 3)) m)
      else if byte_fis s p \<in> {MPBUS, MPIOAPIC, MPIOINTR, MPLINTR} then mp_entradas s n (p + 8) m
      else m\<lparr>ismp := False\<rparr>)"

text \<open>\<open>inb\<close> is what the port answers. Writing through \<open>bootcpu\<close> past the end of \<open>cpus\<close> is undefined.\<close>

definition mp_init :: "(nat \<Rightarrow> 8 word) \<Rightarrow> mpst \<Rightarrow> mpst kern" where
  "mp_init inb m s =
     (let m = m\<lparr>bootcpu := 0\<rparr>
      in and_then (mpconfig s) (\<lambda>(conf, s).
           case conf of
             None \<Rightarrow> Inr (m, s)
           | Some (conf, mp) \<Rightarrow>
               let m = m\<lparr>ismp := True, lapicaddr := fis32 s (conf + 36)\<rparr>;
                   m = mp_entradas s (unat (fis16 s (conf + 34))) (conf + 44) m
               in if bootcpu m \<ge> NCPU then Inl Indefinido
                  else
                    let m = m\<lparr>cpus := (cpus m)[bootcpu m := (cpus m ! bootcpu m)\<lparr>estado_cpu := CPU_STARTED\<rparr>]\<rparr>
                    in if \<not> ismp m then Inr (m\<lparr>ncpu := 1, lapicaddr := 0\<rparr>, s)
                       else if byte_fis s (mp + 12) \<noteq> 0
                       then Inr (m\<lparr>salidas := salidas m @ [(0x22, 0x70), (0x23, inb 0x23 OR 1)]\<rparr>, s)
                       else Inr (m, s)))"

end
