(* ===== verification/Kern_Mp_Contrato.thy ===== *)
theory Kern_Mp_Contrato
  imports Kern_Mp Kern_Mem_Contrato
begin

text \<open>
  What \<open>mp_init\<close> makes of a configuration table: the entries as a list, the processors it counts, and the
  table on which it writes outside its array.
\<close>

datatype entrada_mp = Procesador "8 word" | Otra | Desconocida

text \<open>The entries from \<open>p\<close> on, up to the first of an unknown type.\<close>

fun entradas_de :: "kst \<Rightarrow> nat \<Rightarrow> nat \<Rightarrow> entrada_mp list" where
  "entradas_de s 0 p = []"
| "entradas_de s (Suc n) p =
     (if byte_fis s p = MPPROC then Procesador (byte_fis s (p + 3)) # entradas_de s n (p + 20)
      else if byte_fis s p \<in> {MPBUS, MPIOAPIC, MPIOINTR, MPLINTR} then Otra # entradas_de s n (p + 8)
      else [Desconocida])"

text \<open>The flags of the processors, and the place of the last one that is the boot processor.\<close>

fun procesadores :: "entrada_mp list \<Rightarrow> 8 word list" where
  "procesadores [] = []"
| "procesadores (Procesador f # es) = f # procesadores es"
| "procesadores (_ # es) = procesadores es"

fun arranque :: "nat \<Rightarrow> nat \<Rightarrow> 8 word list \<Rightarrow> nat" where
  "arranque b i [] = b"
| "arranque b i (f # fs) = arranque (if f AND MPPROC_BOOT \<noteq> 0 then i else b) (i + 1) fs"

lemma mp_entradas_fold:
  "mp_entradas s n p m =
     (let m' = fold mp_procesador (procesadores (entradas_de s n p)) m
      in if Desconocida \<in> set (entradas_de s n p) then m'\<lparr>ismp := False\<rparr> else m')"
  by (induction n arbitrary: p m) (simp_all add: Let_def)

lemma mp_procesador_sel [simp]:
  "bootcpu (mp_procesador f m) = (if f AND MPPROC_BOOT \<noteq> 0 then ncpu m else bootcpu m)"
  "ncpu (mp_procesador f m) = min NCPU (ncpu m + 1)" if "ncpu m \<le> NCPU"
  using that by (simp_all add: mp_procesador_def Let_def min_def)

lemma mp_procesador_otros [simp]:
  "ismp (mp_procesador f m) = ismp m" "lapicaddr (mp_procesador f m) = lapicaddr m" "salidas (mp_procesador f m) = salidas m"
  "length (cpus (mp_procesador f m)) = length (cpus m)"
  by (simp_all add: mp_procesador_def Let_def)

lemma fold_procesador_otros [simp]:
  "ismp (fold mp_procesador fs m) = ismp m" "lapicaddr (fold mp_procesador fs m) = lapicaddr m"
  "salidas (fold mp_procesador fs m) = salidas m" "length (cpus (fold mp_procesador fs m)) = length (cpus m)"
  by (induction fs arbitrary: m) simp_all

lemma arranque_min: "min NCPU (arranque (min NCPU b) i fs) = min NCPU (arranque b i fs)"
  by (induction fs arbitrary: b i) simp_all

lemma fold_procesador:
  assumes "ncpu m = min NCPU i"
  shows "ncpu (fold mp_procesador fs m) = min NCPU (i + length fs) \<and>
    min NCPU (bootcpu (fold mp_procesador fs m)) = min NCPU (arranque (bootcpu m) i fs)"
  using assms
proof (induction fs arbitrary: i m)
  case (Cons f fs)
  have c: "ncpu m \<le> NCPU" using Cons.prems by simp
  have n: "ncpu (mp_procesador f m) = min NCPU (i + 1)" using Cons.prems c by (auto simp: min_def)
  have "min NCPU (arranque (bootcpu (mp_procesador f m)) (i + 1) fs) =
      min NCPU (arranque (min NCPU (bootcpu (mp_procesador f m))) (i + 1) fs)" by (rule arranque_min [symmetric])
  also have "min NCPU (bootcpu (mp_procesador f m)) = min NCPU (if f AND MPPROC_BOOT \<noteq> 0 then i else bootcpu m)"
    using c Cons.prems by simp
  also have "min NCPU (arranque (min NCPU (if f AND MPPROC_BOOT \<noteq> 0 then i else bootcpu m)) (i + 1) fs) =
      min NCPU (arranque (if f AND MPPROC_BOOT \<noteq> 0 then i else bootcpu m) (i + 1) fs)" by (rule arranque_min)
  finally show ?case using Cons.IH [OF n] by simp
qed simp

text \<open>The identifiers of the processors counted so far; nothing else of \<open>cpus\<close> changes.\<close>

lemma fold_procesador_cpus:
  assumes "ncpu m \<le> NCPU" and "length (cpus m) = NCPU" and "j < NCPU"
  shows "cpus (fold mp_procesador fs m) ! j =
    (if ncpu m \<le> j \<and> j < min NCPU (ncpu m + length fs) then (cpus m ! j)\<lparr>cpu_id := of_nat j\<rparr> else cpus m ! j)"
  using assms
proof (induction fs arbitrary: m)
  case (Cons f fs)
  have l: "length (cpus (mp_procesador f m)) = NCPU" "ncpu (mp_procesador f m) \<le> NCPU" using Cons.prems by simp_all
  have e: "cpus (mp_procesador f m) ! j = (if ncpu m = j then (cpus m ! j)\<lparr>cpu_id := of_nat j\<rparr> else cpus m ! j)"
    using Cons.prems by (auto simp: mp_procesador_def Let_def nth_list_update)
  show ?case using Cons.IH [OF l(2,1) Cons.prems(3)] e Cons.prems by auto
qed auto

text \<open>
  C39: when the tables pass the checks, mp_init counts the processors of the table up to the eight there is room
  for, numbers them in order, and marks as started the last one flagged as the boot processor (the first, if
  none is); an entry of an unknown type undoes the count and disables the local APIC. If the boot processor is
  the ninth or a later one, mp_init writes past the end of cpus.
\<close>

theorem mp_init_cuenta:
  assumes conf: "mpconfig s = Inr (Some (conf, mp), s)" and m: "ncpu m = 0" "length (cpus m) = NCPU"
    and es: "es = entradas_de s (unat (fis16 s (conf + 34))) (conf + 44)"
    and b: "b = arranque 0 0 (procesadores es)"
  shows "if b \<ge> NCPU then mp_init inb m s = Inl Indefinido
    else \<exists>m'. mp_init inb m s = Inr (m', s) \<and> bootcpu m' = b \<and> length (cpus m') = NCPU \<and>
      ismp m' = (Desconocida \<notin> set es) \<and>
      ncpu m' = (if Desconocida \<in> set es then 1 else min NCPU (length (procesadores es))) \<and>
      lapicaddr m' = (if Desconocida \<in> set es then 0 else fis32 s (conf + 36)) \<and>
      (\<forall>j<NCPU. cpus m' ! j =
         \<lparr>cpu_id = (if j < length (procesadores es) then of_nat j else cpu_id (cpus m ! j)),
          estado_cpu = (if j = b then CPU_STARTED else estado_cpu (cpus m ! j))\<rparr>)"
proof -
  let ?m = "m\<lparr>bootcpu := 0, ismp := True, lapicaddr := fis32 s (conf + 36)\<rparr>"
  let ?f = "fold mp_procesador (procesadores es) ?m"
  let ?u = "mp_entradas s (unat (fis16 s (conf + 34))) (conf + 44) ?m"
  have u: "?u = (if Desconocida \<in> set es then ?f\<lparr>ismp := False\<rparr> else ?f)"
    unfolding mp_entradas_fold es Let_def by simp
  have c: "ncpu ?m = min NCPU 0" using m(1) by simp
  have f: "ncpu ?f = min NCPU (length (procesadores es))" "min NCPU (bootcpu ?f) = min NCPU b"
    using fold_procesador [OF c, of "procesadores es"] b by simp_all
  have cpus: "cpus ?f ! j = (if j < length (procesadores es) then (cpus m ! j)\<lparr>cpu_id := of_nat j\<rparr> else cpus m ! j)"
    if "j < NCPU" for j
    using fold_procesador_cpus [of ?m j "procesadores es"] m that by auto
  have bu: "bootcpu ?u = bootcpu ?f" by (simp add: u)
  show ?thesis
  proof (cases "b \<ge> NCPU")
    case True
    then have "bootcpu ?f \<ge> NCPU" using f(2) by linarith
    then show ?thesis using True conf bu by (simp add: mp_init_def Let_def)
  next
    case False
    then have bf: "bootcpu ?f = b" using f(2) by linarith
    have nb: "\<not> bootcpu ?u \<ge> NCPU" using False bf bu by simp
    have len: "length (cpus ?u) = NCPU" using m(2) by (simp add: u)
    have cp: "((cpus ?u)[b := (cpus ?u ! b)\<lparr>estado_cpu := CPU_STARTED\<rparr>]) ! j =
         \<lparr>cpu_id = (if j < length (procesadores es) then of_nat j else cpu_id (cpus m ! j)),
          estado_cpu = (if j = b then CPU_STARTED else estado_cpu (cpus m ! j))\<rparr>" if "j < NCPU" for j
    proof -
      have "cpus ?u = cpus ?f" by (simp add: u)
      then have "cpus ?u ! j = (if j < length (procesadores es) then (cpus m ! j)\<lparr>cpu_id := of_nat j\<rparr> else cpus m ! j)"
        using cpus [OF that] by simp
      then show ?thesis using len that False by (cases "cpus m ! j", cases "j = b") simp_all
    qed
    have r: "mp_init inb m s =
        (let m = ?u\<lparr>cpus := (cpus ?u)[b := (cpus ?u ! b)\<lparr>estado_cpu := CPU_STARTED\<rparr>]\<rparr>
         in if \<not> ismp m then Inr (m\<lparr>ncpu := 1, lapicaddr := 0\<rparr>, s)
            else if byte_fis s (mp + 12) \<noteq> 0
            then Inr (m\<lparr>salidas := salidas m @ [(0x22, 0x70), (0x23, inb 0x23 OR 1)]\<rparr>, s) else Inr (m, s))"
      using conf nb bf bu by (simp add: mp_init_def Let_def)
    define v where "v = ?u\<lparr>cpus := (cpus ?u)[b := (cpus ?u ! b)\<lparr>estado_cpu := CPU_STARTED\<rparr>]\<rparr>"
    have v: "bootcpu v = b" "length (cpus v) = NCPU" "ismp v = (Desconocida \<notin> set es)" "ncpu v = min NCPU (length (procesadores es))"
      "lapicaddr v = fis32 s (conf + 36)"
      "\<forall>j<NCPU. cpus v ! j = \<lparr>cpu_id = (if j < length (procesadores es) then of_nat j else cpu_id (cpus m ! j)),
          estado_cpu = (if j = b then CPU_STARTED else estado_cpu (cpus m ! j))\<rparr>"
      using bu bf len f(1) cp by (simp_all add: v_def) (simp_all add: u)
    define w where "w = (if Desconocida \<in> set es then v\<lparr>ncpu := 1, lapicaddr := 0\<rparr>
      else if byte_fis s (mp + 12) \<noteq> 0 then v\<lparr>salidas := salidas v @ [(0x22, 0x70), (0x23, inb 0x23 OR 1)]\<rparr> else v)"
    have "mp_init inb m s = Inr (w, s)"
      unfolding r v_def [symmetric] Let_def v(3) w_def by simp
    moreover have "bootcpu w = b" "length (cpus w) = NCPU" "ismp w = (Desconocida \<notin> set es)"
      "ncpu w = (if Desconocida \<in> set es then 1 else min NCPU (length (procesadores es)))"
      "lapicaddr w = (if Desconocida \<in> set es then 0 else fis32 s (conf + 36))" "cpus w = cpus v"
      using v by (simp_all add: w_def)
    ultimately show ?thesis using False v(6) by (simp only: if_not_P not_le [symmetric]) auto
  qed
qed

text \<open>
  Two processors, the first one the boot processor: the floating pointer is at the start of the EBDA, at
  0x9FC00, and the table at 0x1000.
\<close>

definition kst_mp :: kst where
  "kst_mp = kst_ej\<lparr>npages := 256, mem := (\<lambda>f i.
     if f = 0 \<and> i = 259 then 0x9FC00000
     else if f = 159 then (if i = 768 then 0x5F504D5F else if i = 769 then 0x1000 else if i = 770 then 0x00900401 else 0)
     else if f = 1 then (if i = 0 then 0x504D4350 else if i = 1 then 0x93040054 else if i = 8 then 0x00020000
       else if i = 9 then 0xFEE00000 else if i = 11 then 0x03000000 else if i = 16 then 0x01000100 else 0)
     else 0)\<rparr>"

definition mpst_0 :: mpst where
  "mpst_0 = \<lparr>cpus = replicate 8 \<lparr>cpu_id = 0, estado_cpu = CPU_UNUSED\<rparr>, bootcpu = 0, ismp = False, ncpu = 0,
     lapicaddr = 0, salidas = []\<rparr>"

lemma kst_mp_byte:
  "byte_fis kst_mp a = byte_de (a mod 4) (let f = a div 4096; i = a mod 4096 div 4 in
     if f = 0 \<and> i = 259 then 0x9FC00000
     else if f = 159 then (if i = 768 then 0x5F504D5F else if i = 769 then 0x1000 else if i = 770 then 0x00900401 else 0)
     else if f = 1 then (if i = 0 then 0x504D4350 else if i = 1 then 0x93040054 else if i = 8 then 0x00020000
       else if i = 9 then 0xFEE00000 else if i = 11 then 0x03000000 else if i = 16 then 0x01000100 else 0)
     else 0)" "npages kst_mp = 256"
  by (simp_all add: byte_fis_def kst_mp_def Let_def)

lemma kst_mp_sumas: "sum_mp kst_mp 0x9FC00 16 = 0" "sum_mp kst_mp 0x1000 84 = 0" "sum_mp kst_mp 0x1054 0 = 0"
  by (simp_all add: sum_mp_def bytes_fis_def kst_mp_byte byte_de_def Let_def upt_rec)

lemma kst_mp_firmas: "bytes_fis kst_mp 0x9FC00 4 = firma ''_MP_''" "bytes_fis kst_mp 0x1000 4 = firma ''PCMP''"
  by (simp_all add: firma_def bytes_fis_def kst_mp_byte byte_de_def Let_def upt_rec)

lemma kst_mp_campos:
  "fis16 kst_mp 0x40E = 0x9FC0" "fis32 kst_mp 0x9FC04 = 0x1000" "byte_fis kst_mp 0x9FC0B = 0" "byte_fis kst_mp 0x9FC0C = 0"
  "fis16 kst_mp 0x1004 = 84" "byte_fis kst_mp 0x1006 = 4" "fis16 kst_mp 0x1028 = 0" "byte_fis kst_mp 0x102A = 0"
  "fis16 kst_mp 0x1022 = 2" "fis32 kst_mp 0x1024 = 0xFEE00000"
  by (simp_all add: fis32_def fis16_def kst_mp_byte byte_de_def Let_def)

lemma kst_mp_config: "mpconfig kst_mp = Inr (Some (0x1000, 0x9FC00), kst_mp)"
proof -
  have l: "[0..<64 :: nat] = 0 # [1..<64]" by (simp add: upt_conv_Cons)
  have "mpsearch1 0x9FC00 1024 kst_mp = Inr (Some 0x9FC00, kst_mp)"
    by (simp add: mpsearch1_def kaddr_byte_def kst_mp_byte(2) l kst_mp_sumas kst_mp_firmas del: upt_Suc)
  then have "mpsearch kst_mp = Inr (Some 0x9FC00, kst_mp)"
    by (simp add: mpsearch_def kaddr_byte_def kst_mp_byte(2) kst_mp_campos Let_def)
  then show ?thesis
    by (simp add: mpconfig_def kaddr_byte_def kst_mp_byte(2) kst_mp_campos kst_mp_firmas kst_mp_sumas Let_def)
qed

theorem mp_init_cuenta_witness:
  "\<exists>m. mp_init (\<lambda>_. 0) mpst_0 kst_mp = Inr (m, kst_mp) \<and> ncpu m = 2 \<and> bootcpu m = 0 \<and> lapicaddr m = 0xFEE00000 \<and>
     cpus m ! 1 = \<lparr>cpu_id = 1, estado_cpu = CPU_UNUSED\<rparr>"
proof -
  have "entradas_de kst_mp (Suc (Suc 0)) 0x102C = [Procesador 3, Procesador 1]"
    by (simp add: kst_mp_byte byte_de_def Let_def MPPROC_def)
  then have es: "entradas_de kst_mp 2 0x102C = [Procesador 3, Procesador 1]" by (simp only: numeral_2_eq_2)
  have b: "arranque 0 0 [3, 1] = 0" by (simp add: MPPROC_BOOT_def)
  have m: "ncpu mpst_0 = 0" "length (cpus mpst_0) = NCPU" by (simp_all add: mpst_0_def NCPU_def)
  have e: "[Procesador 3, Procesador 1] = entradas_de kst_mp (unat (fis16 kst_mp (0x1000 + 34))) (0x1000 + 44)"
    using es by (simp add: kst_mp_campos)
  have r: "cpus mpst_0 ! 1 = \<lparr>cpu_id = 0, estado_cpu = CPU_UNUSED\<rparr>" by (simp add: mpst_0_def)
  show ?thesis
    using mp_init_cuenta [OF kst_mp_config m e refl, of "\<lambda>_. 0"] b r by (auto simp: NCPU_def kst_mp_campos simp del: One_nat_def)
qed

end
