(* ===== verification/Kern_Carga.thy ===== *)
theory Kern_Carga
  imports Kern_Trap
begin

text \<open>
  Loading a program (\<^verbatim>\<open>load_icode\<close> and \<^verbatim>\<open>env_create\<close> of \<^verbatim>\<open>sched/kern/env.c\<close>, \<^verbatim>\<open>sched/inc/elf.h\<close>). The image is
  the list of its bytes; reading past its end is reading outside the object. The kernel writes to the
  program's memory through the program's own page tables, as it does when it builds an exception frame.
\<close>

section \<open>The image (inc/elf.h)\<close>

text \<open>Little-endian fields.\<close>

definition le16 :: "8 word list \<Rightarrow> nat \<Rightarrow> 16 word option" where
  "le16 b i = (if i + 2 \<le> length b then Some (ucast (b ! i) OR push_bit 8 (ucast (b ! (i + 1)))) else None)"

definition le32 :: "8 word list \<Rightarrow> nat \<Rightarrow> 32 word option" where
  "le32 b i =
     (if i + 4 \<le> length b
      then Some (ucast (b ! i) OR push_bit 8 (ucast (b ! (i + 1))) OR push_bit 16 (ucast (b ! (i + 2))) OR
                 push_bit 24 (ucast (b ! (i + 3))))
      else None)"

definition ELF_MAGIC :: "32 word" where "ELF_MAGIC = 0x464C457F"
definition ELF_PROG_LOAD :: "32 word" where "ELF_PROG_LOAD = 1"

text \<open>The fields of \<open>struct Elf\<close> the kernel looks at, and \<open>struct Proghdr\<close>.\<close>

record elf =
  e_magic :: "32 word"
  e_entry :: "32 word"
  e_phoff :: "32 word"
  e_phnum :: "16 word"

record proghdr =
  p_type :: "32 word"
  p_offset :: "32 word"
  p_va :: "32 word"
  p_pa :: "32 word"
  p_filesz :: "32 word"
  p_memsz :: "32 word"
  p_flags :: "32 word"
  p_align :: "32 word"

definition lee_elf :: "8 word list \<Rightarrow> elf option" where
  "lee_elf b =
     (case (le32 b 0, le32 b 24, le32 b 28, le16 b 44) of
        (Some m, Some e, Some o', Some n) \<Rightarrow> Some \<lparr>e_magic = m, e_entry = e, e_phoff = o', e_phnum = n\<rparr>
      | _ \<Rightarrow> None)"

definition lee_ph :: "8 word list \<Rightarrow> nat \<Rightarrow> proghdr option" where
  "lee_ph b i =
     (case map (\<lambda>k. le32 b (i + 4 * k)) [0..<8] of
        [Some t, Some o', Some v, Some p, Some f, Some m, Some fl, Some a] \<Rightarrow>
          Some \<lparr>p_type = t, p_offset = o', p_va = v, p_pa = p, p_filesz = f, p_memsz = m, p_flags = fl, p_align = a\<rparr>
      | _ \<Rightarrow> None)"


section \<open>load_icode and env_create (kern/env.c)\<close>

text \<open>One turn of the loop over the program headers: \<open>region_alloc\<close>, \<open>memset\<close> and \<open>memcpy\<close>.\<close>

definition carga_segmento :: "nat \<Rightarrow> 8 word list \<Rightarrow> proghdr \<Rightarrow> unit kern" where
  "carga_segmento e binary ph s =
     (if p_type ph \<noteq> ELF_PROG_LOAD then Inr ((), s)
      else
        and_then (region_alloc e (p_va ph) (p_memsz ph) s) (\<lambda>(_, s).
        and_then (escribe_bytes (p_va ph) (replicate (unat (p_memsz ph)) 0) s) (\<lambda>(_, s).
          if unat (p_offset ph) + unat (p_filesz ph) > length binary then Inl Indefinido
          else escribe_bytes (p_va ph) (take (unat (p_filesz ph)) (drop (unat (p_offset ph)) binary)) s)))"

definition carga_segmentos :: "nat \<Rightarrow> 8 word list \<Rightarrow> elf \<Rightarrow> unit kern" where
  "carga_segmentos e binary h s =
     recorre (\<lambda>i s. case lee_ph binary (unat (e_phoff h) + 32 * i) of
                      None \<Rightarrow> Inl Indefinido
                    | Some ph \<Rightarrow> carga_segmento e binary ph s) [0..<unat (e_phnum h)] s"

definition load_icode :: "nat \<Rightarrow> 8 word list \<Rightarrow> unit kern" where
  "load_icode e binary s =
     (case lee_elf binary of
        None \<Rightarrow> Inl Indefinido
      | Some h \<Rightarrow>
          if e_magic h \<noteq> ELF_MAGIC then Inl (Panico ''load_icode: not an elf file'')
          else
            and_then (env_load_pgdir e s) (\<lambda>(_, s).
            and_then (carga_segmentos e binary h s) (\<lambda>(_, s).
            and_then (region_alloc e (USTACKTOP - PGSIZE) PGSIZE s) (\<lambda>(_, s).
              let s = upd_env e (\<lambda>v. v\<lparr>env_tf := (env_tf v)\<lparr>tf_eip := e_entry h\<rparr>\<rparr>) s
              in Inr ((), s\<lparr>cr3 := kern_pgdir s\<rparr>)))))"

definition env_create :: "8 word list \<Rightarrow> nat \<Rightarrow> unit kern" where
  "env_create binary tipo s =
     and_then (env_alloc 0 s) (\<lambda>((err, env), s).
       if err < 0 then Inl (Panico ''env_create'')
       else case env of
              None \<Rightarrow> Inl Indefinido
            | Some e \<Rightarrow>
                and_then (load_icode e binary s) (\<lambda>(_, s).
                  Inr ((), upd_env e (env_type_update (\<lambda>_. tipo)) s)))"

end
