(* ===== verification/Kern_Carga_Contrato.thy ===== *)
theory Kern_Carga_Contrato
  imports Kern_Carga Kern_Fork_Contrato
begin

text \<open>
  Loading a program. \<open>propio\<close> says that an address space shares no frame, neither inside nor with another
  space, that its directory entries and pages are all the user's and writable; \<open>crece\<close> says what mapping and
  filling new pages leaves as it was.
\<close>

section \<open>New pages\<close>

definition propio :: "kst \<Rightarrow> nat set \<Rightarrow> nat \<Rightarrow> bool" where
  "propio s P pd \<longleftrightarrow>
     (\<forall>n<NU * 1024. ent_pag s pd n \<noteq> 0 \<longrightarrow> ent_pag s pd n AND PUW = PUW \<and>
        (\<forall>r\<in>ranuras P. ent s r \<noteq> 0 \<and> PGNUM (ent s r) = PGNUM (ent_pag s pd n) \<longrightarrow> r = (pd, n div 1024, n mod 1024))) \<and>
     (\<forall>i<NU. mem s pd i = 0 \<or> abierta s pd i)"

definition ranuras_de :: "nat \<Rightarrow> nat set \<Rightarrow> (nat \<times> nat \<times> nat) set" where
  "ranuras_de pd K = (\<lambda>n. (pd, n div 1024, n mod 1024)) ` K"

definition crece :: "kst \<Rightarrow> nat set \<Rightarrow> nat \<Rightarrow> nat set \<Rightarrow> kst \<Rightarrow> bool" where
  "crece s P pd K t \<longleftrightarrow> solo_vm s t \<and> (\<forall>n\<in>K. ent_pag t pd n \<noteq> 0) \<and>
     (\<forall>r\<in>ranuras P - ranuras_de pd K. ent t r = ent s r \<and>
        (ent s r \<noteq> 0 \<longrightarrow> mem t (PGNUM (ent s r)) = mem s (PGNUM (ent s r))))"

lemma ranura_k_unica:
  "(p, i, j) \<in> ranuras P \<Longrightarrow> (p, i, j) \<in> ranuras_de pd K \<longleftrightarrow> p = pd \<and> i * 1024 + j \<in> K"
proof -
  assume "(p, i, j) \<in> ranuras P"
  then have "i = n div 1024 \<and> j = n mod 1024 \<longleftrightarrow> i * 1024 + j = n" for n
    using ranura_k [of i j n] by (simp add: ranuras_def)
  then show ?thesis by (auto simp: ranuras_de_def)
qed

lemma crece_vacio: "crece s P pd {} s"
  by (simp add: crece_def)

lemma crece_trans:
  assumes "crece s P pd K t" and "crece t P pd L u" and "K \<subseteq> {..<NU * 1024}" and "pd \<in> P"
  shows "crece s P pd (K \<union> L) u"
proof -
  have "ent_pag u pd n \<noteq> 0" if n: "n \<in> K" for n
  proof (cases "n \<in> L")
    case False
    have k: "n < NU * 1024" using n assms(3) by auto
    have "(pd, n div 1024, n mod 1024) \<in> ranuras P" using pagina_k(4) [OF k, of pd P] assms(4) by blast
    moreover have "(pd, n div 1024, n mod 1024) \<notin> ranuras_de pd L"
      using False ranura_k_unica [OF calculation, of pd L] by simp
    ultimately show ?thesis using assms(1,2) n by (simp add: crece_def ent_pag_def)
  qed (use assms(2) in \<open>simp add: crece_def\<close>)
  moreover have "ent u r = ent s r \<and> (ent s r \<noteq> 0 \<longrightarrow> mem u (PGNUM (ent s r)) = mem s (PGNUM (ent s r)))"
    if r: "r \<in> ranuras P - ranuras_de pd (K \<union> L)" for r
  proof -
    have d: "r \<in> ranuras P - ranuras_de pd K" "r \<in> ranuras P - ranuras_de pd L" using r by (auto simp: ranuras_de_def)
    have "ent t r = ent s r" "ent s r \<noteq> 0 \<longrightarrow> mem t (PGNUM (ent s r)) = mem s (PGNUM (ent s r))"
      using assms(1) d(1) unfolding crece_def by blast+
    moreover have "ent u r = ent t r" "ent t r \<noteq> 0 \<longrightarrow> mem u (PGNUM (ent t r)) = mem t (PGNUM (ent t r))"
      using assms(2) d(2) unfolding crece_def by blast+
    ultimately show ?thesis by simp
  qed
  moreover have "solo_vm s u" using assms(1,2) solo_vm_trans unfolding crece_def by blast
  ultimately show ?thesis using assms(2) unfolding crece_def by blast
qed

text \<open>The first frame of the free list taken without clearing it.\<close>

lemma tomada_ok:
  assumes ok: "vm_ok s P (x # xs)"
  shows "page_alloc False s = Inr (Some x, sin_primera x s)" and "vm_ok (sin_primera x s) P xs"
    and "datos (sin_primera x s) P xs x" and "pp_ref (pages (sin_primera x s) ! x) = 0"
    and "ent (sin_primera x s) = ent s"
    and "datos s P (x # xs) g \<Longrightarrow> datos (sin_primera x s) P xs g"
proof -
  note D = vm_okD [OF ok]
  note L = libres_okD [OF D(1)]
  let ?u = "sin_primera x s"
  have x: "x < npages s" "x \<notin> P" "x \<notin> tabla_en s ` pdes s P" "x \<notin> set xs" "pp_ref (pages s ! x) = 0"
    using D(3,4) L by auto
  show "page_alloc False s = Inr (Some x, ?u)" using page_alloc_primera [OF D(1)] by simp
  have m: "mem ?u = mem s" by simp
  show ent: "ent ?u = ent s" by (rule solo_mem(1)) (rule m)
  have pds: "pdes ?u P = pdes s P" "tabla_en ?u = tabla_en s" by (rule solo_mem(2,3) [OF m])+
  have us: "usos ?u P f = usos s P f" for f using ent by (simp add: usos_def)
  have pg: "pp_ref (pages ?u ! f) = pp_ref (pages s ! f)" for f
    by (cases "f = x") (simp_all add: sin_primera_def upd_page_def nth_upd)
  show "pp_ref (pages ?u ! x) = 0" using x(5) pg by simp
  show "datos ?u P xs x" using x by (simp add: datos_def pds)
  show "datos s P (x # xs) g \<Longrightarrow> datos ?u P xs g" by (simp add: datos_def pds)
  show "vm_ok ?u P xs"
    unfolding vm_ok_def pds us pg ent using libres_sin_primera [OF D(1)] D(2-7) by auto
qed


section \<open>region\_alloc\<close>

abbreviation PUWe :: "nat \<Rightarrow> 32 word" where "PUWe x \<equiv> entrada_pte x (PTE_U OR PTE_W)"

lemma PUWe_val:
  assumes "x < 2 ^ 20"
  shows "PGNUM (PUWe x) = x" "PUWe x AND PUW = PUW"
proof -
  have e: "PUWe x = page2pa x OR PUW" unfolding entrada_pte_def by (rule bit_word_eqI) (auto simp: bit_simps)
  show "PGNUM (PUWe x) = x" unfolding e by (rule PGNUM_entrada [OF assms PUW_simps(3)])
  show "PUWe x AND PUW = PUW" unfolding e by (rule bit_word_eqI) (auto simp: bit_simps)
qed

definition region_pagina :: "nat \<Rightarrow> 32 word \<Rightarrow> unit kern" where
  "region_pagina e va s =
     and_then (page_alloc False s) (\<lambda>(p, s).
       case p of
         None \<Rightarrow> Inl (Panico ''region_alloc: could not alloc page'')
       | Some p \<Rightarrow>
           and_then (con_pgdir e (\<lambda>pd. page_insert pd p va (PTE_U OR PTE_W)) s) (\<lambda>(r, s).
             if r \<noteq> 0 then Inl (Panico ''region_alloc: page_insert falied'')
             else Inr ((), s)))"

lemma region_pagina_ok:
  assumes ok: "vm_ok s P (x # xs)" and pr: "propio s P pd" and pd: "pd \<in> P" "env_pgdir (envs s ! e) = Some pd"
    and k: "k < NU * 1024" and nueva: "ent_pag s pd k = 0" and cabe: "xs \<noteq> []"
  shows "\<exists>t ys. region_pagina e (push_bit 12 (of_nat k)) s = Inr ((), t) \<and> vm_ok t P ys \<and> propio t P pd \<and>
    crece s P pd {k} t \<and> length xs \<le> length ys + 1"
proof -
  let ?va = "push_bit 12 (of_nat k) :: 32 word" and ?r = "(pd, k div 1024, k mod 1024)"
  let ?u = "sin_primera x s"
  define t where "t = insertada pd x ?va (PTE_U OR PTE_W) xs ?u"
  note T = tomada_ok [OF ok] and K = pagina_k [OF k]
  have x: "x < 2 ^ 20" using libres_okD(3,7) [OF vm_okD(1) [OF ok]] by (auto dest: order_less_le_trans)
  have va: "PDX ?va < NU" using va_ok_buena(2) [OF K(1)] .
  have rP: "?r \<in> ranuras P" using K(4) pd(1) by blast
  have cb: "mem ?u pd (PDX ?va) \<noteq> 0 \<or> xs \<noteq> []" and rf: "unat (pp_ref (pages ?u ! x)) < 65535" and bj: "bajos (PTE_U OR PTE_W)"
    using cabe T(4) by (simp_all add: permisos bajos_def)
  note I = insertada_ok [OF T(2) pd(1) va cb T(3) rf, where perm = "PTE_U OR PTE_W", folded t_def]
  have en: "ent t r = (if r = ?r then PUWe x else ent s r)" if "r \<in> ranuras P" for r
    using I(3) [OF that] by (simp add: K(3) T(5))
  have dt: "mem t pd i = mem s pd i \<or> mem t pd i = pde_de (hd xs)" for i using I(5) [OF pd(1), of i] by simp
  have sv: "solo_vm s t" unfolding t_def by (meson solo_vm_insertada solo_vm_pasos solo_vm_trans)
  have nf: "PGNUM (ent s r) \<noteq> x" if "r \<in> ranuras P" "ent s r \<noteq> 0" for r
    using datos_ent [OF ok that] by (auto simp: datos_def)
  have "envs ?u = envs s" by (simp add: sin_primera_def upd_page_def)
  then have "region_pagina e ?va s = Inr ((), t)"
    using T(1) I(1) pd(2) by (simp add: region_pagina_def con_pgdir_def)
  moreover have "vm_ok t P (libres_insertada pd x ?va xs ?u)" by (rule I(2) [OF bj])
  moreover have "length xs \<le> length (libres_insertada pd x ?va xs ?u) + 1"
    using libres_insertada_largo [of xs ?u pd ?va x] by (simp split: if_splits)
  moreover have "crece s P pd {k} t"
  proof -
    have "ent_pag t pd k \<noteq> 0" using en [OF rP] by (simp add: ent_pag_def)
    moreover have "ent t r = ent s r \<and> (ent s r \<noteq> 0 \<longrightarrow> mem t (PGNUM (ent s r)) = mem s (PGNUM (ent s r)))"
      if r: "r \<in> ranuras P - ranuras_de pd {k}" for r
    proof -
      have "r \<noteq> ?r" using r by (simp add: ranuras_de_def)
      moreover have "mem t (PGNUM (ent s r)) = mem s (PGNUM (ent s r))" if "ent s r \<noteq> 0"
        using I(4) [OF T(6) [OF datos_ent [OF ok _ that]]] r by simp
      ultimately show ?thesis using en r by simp
    qed
    ultimately show ?thesis using sv by (simp add: crece_def)
  qed
  moreover have "propio t P pd"
  proof -
    have "ent_pag t pd n AND PUW = PUW \<and> (\<forall>r\<in>ranuras P. ent t r \<noteq> 0 \<and> PGNUM (ent t r) = PGNUM (ent_pag t pd n) \<longrightarrow>
        r = (pd, n div 1024, n mod 1024))" if n: "n < NU * 1024" "ent_pag t pd n \<noteq> 0" for n
    proof -
      have nP: "(pd, n div 1024, n mod 1024) \<in> ranuras P" using pagina_k(4) [OF n(1)] pd(1) by blast
      show ?thesis
      proof (cases "(pd, n div 1024, n mod 1024) = ?r")
        case True
        then have e: "ent_pag t pd n = PUWe x" using en [OF rP] by (simp add: ent_pag_def)
        have "r = ?r" if r: "r \<in> ranuras P" "ent t r \<noteq> 0 \<and> PGNUM (ent t r) = x" for r
          using en [OF r(1)] nf [OF r(1)] r(2) by (cases "r = ?r") simp_all
        then show ?thesis unfolding e True by (simp add: PUWe_val [OF x])
      next
        case False
        have e: "ent_pag t pd n = ent_pag s pd n" unfolding ent_pag_def en [OF nP] using False by (rule if_not_P)
        have z: "ent_pag s pd n \<noteq> 0" using n e by simp
        then have z': "PGNUM (ent_pag s pd n) \<noteq> x" using nf [OF nP] by (simp add: ent_pag_def)
        then have "ent_pag s pd n AND PUW = PUW"
          "\<forall>r\<in>ranuras P. ent s r \<noteq> 0 \<and> PGNUM (ent s r) = PGNUM (ent_pag s pd n) \<longrightarrow> r = (pd, n div 1024, n mod 1024)"
          using pr n(1) z unfolding propio_def by blast+
        moreover have "ent t r = ent s r" if "r \<in> ranuras P" "PGNUM (ent t r) = PGNUM (ent_pag s pd n)" for r
          using en [OF that(1)] that(2) z' PUWe_val(1) [OF x] by (cases "r = ?r") simp_all
        ultimately show ?thesis unfolding e by metis
      qed
    qed
    moreover have "mem t pd i = 0 \<or> abierta t pd i" if "i < NU" for i
      using dt [of i] pr that pde_de_abierta [of "hd xs"] unfolding propio_def abierta_def by metis
    ultimately show ?thesis unfolding propio_def by blast
  qed
  ultimately show ?thesis by blast
qed

text \<open>The loop, over pages that are not mapped: a frame for each, and one more for each table it may need.\<close>

lemma crece_ent:
  assumes "crece s P pd K t" and "pd \<in> P" and "k < NU * 1024" and "k \<notin> K"
  shows "ent_pag t pd k = ent_pag s pd k"
    and "ent_pag s pd k \<noteq> 0 \<Longrightarrow> mem t (PGNUM (ent_pag s pd k)) = mem s (PGNUM (ent_pag s pd k))"
proof -
  have "(pd, k div 1024, k mod 1024) \<in> ranuras P" using pagina_k(4) [OF assms(3), of pd P] assms(2) by blast
  moreover have "(pd, k div 1024, k mod 1024) \<notin> ranuras_de pd K"
    using assms(4) ranura_k_unica [OF calculation, of pd K] by simp
  ultimately show "ent_pag t pd k = ent_pag s pd k"
    and "ent_pag s pd k \<noteq> 0 \<Longrightarrow> mem t (PGNUM (ent_pag s pd k)) = mem s (PGNUM (ent_pag s pd k))"
    using assms(1) by (simp_all add: crece_def ent_pag_def)
qed

lemma region_bucle_ok:
  assumes "vm_ok s P xs" and "propio s P pd" and "pd \<in> P" and "env_pgdir (envs s ! e) = Some pd"
    and "b \<le> NU * 1024" and "\<forall>k\<in>{a..<b}. ent_pag s pd k = 0" and "2 * (b - a) \<le> length xs"
  shows "\<exists>t ys. recorre (region_pagina e) (map (\<lambda>k. push_bit 12 (of_nat k)) [a..<b]) s = Inr ((), t) \<and>
    vm_ok t P ys \<and> propio t P pd \<and> crece s P pd {a..<b} t \<and> length xs \<le> length ys + 2 * (b - a)"
  using assms
proof (induction "b - a" arbitrary: a s xs)
  case 0
  then have "[a..<b] = []" "{a..<b} = {}" by simp_all
  then show ?case using 0 crece_vacio by auto
next
  case (Suc n)
  then have ab: "a < b" "n = b - Suc a" by simp_all
  then obtain x y zs where xs: "xs = x # y # zs" using Suc.prems(7) by (cases xs; cases "tl xs") auto
  have k: "a < NU * 1024" "ent_pag s pd a = 0" using ab Suc.prems(5,6) by simp_all
  obtain t ys where t: "region_pagina e (push_bit 12 (of_nat a)) s = Inr ((), t)" "vm_ok t P ys" "propio t P pd"
    "crece s P pd {a} t" "length (y # zs) \<le> length ys + 1"
    using region_pagina_ok [OF Suc.prems(1) [unfolded xs] Suc.prems(2-4) k] by blast
  have "env_pgdir (envs t ! e) = Some pd" using t(4) Suc.prems(4) by (simp add: crece_def solo_vm_def)
  moreover have "\<forall>k\<in>{Suc a..<b}. ent_pag t pd k = 0"
    using crece_ent(1) [OF t(4) Suc.prems(3)] Suc.prems(5,6) by auto
  moreover have "2 * (b - Suc a) \<le> length ys" using Suc.prems(7) t(5) xs ab by simp
  ultimately obtain u zs' where
    u: "recorre (region_pagina e) (map (\<lambda>k. push_bit 12 (of_nat k)) [Suc a..<b]) t = Inr ((), u)" "vm_ok u P zs'"
       "propio u P pd" "crece t P pd {Suc a..<b} u" "length ys \<le> length zs' + 2 * (b - Suc a)"
    using Suc.hyps(1) [OF ab(2) t(2,3) Suc.prems(3) _ Suc.prems(5)] by blast
  have "crece s P pd ({a} \<union> {Suc a..<b}) u" using crece_trans [OF t(4) u(4) _ Suc.prems(3)] k by simp
  moreover have "{a} \<union> {Suc a..<b} = {a..<b}" using ab by auto
  moreover have "length xs \<le> length zs' + 2 * (b - a)" using u(5) t(5) xs ab by simp
  moreover have "recorre (region_pagina e) (map (\<lambda>k. push_bit 12 (of_nat k)) [a..<b]) s = Inr ((), u)"
    using t(1) u(1) ab by (simp add: upt_rec [of a])
  ultimately show ?case using u(2,3) by metis
qed

text \<open>The numbers of the pages that hold a range of addresses.\<close>

definition tramo :: "32 word \<Rightarrow> 32 word \<Rightarrow> nat set" where
  "tramo va len = {unat va div 4096..<(unat va + unat len + 4095) div 4096}"

lemma UTOP_nat: "unat UTOP = NU * 1024 * 4096"
  by (simp add: UTOP_val NU_val)

lemma region_alloc_ok:
  assumes "vm_ok s P xs" and "propio s P pd" and "pd \<in> P" and "env_pgdir (envs s ! e) = Some pd"
    and lim: "unat va + unat len \<le> unat UTOP" and "\<forall>k\<in>tramo va len. ent_pag s pd k = 0"
    and "2 * card (tramo va len) \<le> length xs"
  shows "\<exists>t ys. region_alloc e va len s = Inr ((), t) \<and> vm_ok t P ys \<and> propio t P pd \<and>
    crece s P pd (tramo va len) t \<and> length xs \<le> length ys + 2 * card (tramo va len)"
proof -
  let ?a = "unat va div 4096" and ?b = "(unat va + unat len + 4095) div 4096"
  have u: "unat (va + len) = unat va + unat len" using lim unat_add_lem [of va len] by (simp add: UTOP_val)
  have hi: "unat (ROUNDUP (va + len) PGSIZE) = ?b * 4096" using unat_ROUNDUP [of "va + len"] lim by (simp add: u UTOP_val)
  have b: "?b \<le> NU * 1024" using lim unfolding UTOP_nat by simp
  then have "\<not> ROUNDUP (va + len) PGSIZE > UTOP" unfolding word_less_nat_alt hi UTOP_nat by simp
  moreover have "paginas (ROUNDDOWN va PGSIZE) (ROUNDUP (va + len) PGSIZE) = map (\<lambda>k. push_bit 12 (of_nat k)) [?a..<?b]"
    using paginas_num [OF unat_ROUNDDOWN hi] by (simp add: push_bit_eq_mult)
  ultimately have "region_alloc e va len s = recorre (region_pagina e) (map (\<lambda>k. push_bit 12 (of_nat k)) [?a..<?b]) s"
    by (simp add: region_alloc_def region_pagina_def [abs_def])
  then show ?thesis
    using region_bucle_ok [OF assms(1-4) b, of ?a] assms(6,7) by (simp add: tramo_def)
qed


section \<open>Writing through the page tables\<close>

text \<open>The byte at an address of the space, and the frame of its page.\<close>

definition vista :: "kst \<Rightarrow> nat \<Rightarrow> nat \<Rightarrow> 8 word" where
  "vista s pd a = byte_mem s (PGNUM (ent_pag s pd (a div 4096))) (a mod 4096)"

lemma crece_vista:
  assumes "crece s P pd K t" and "pd \<in> P" and "a < NU * 1024 * 4096" and "a div 4096 \<notin> K"
    and "ent_pag s pd (a div 4096) \<noteq> 0"
  shows "vista t pd a = vista s pd a"
proof -
  have k: "a div 4096 < NU * 1024" using assms(3) by (simp add: less_mult_imp_div_less)
  show ?thesis using crece_ent [OF assms(1,2) k assms(4)] assms(5) by (simp add: vista_def byte_mem_def)
qed

lemma traduce_propio:
  assumes pr: "propio s P pd" and c: "cr3 s = pd" and a: "a < NU * 1024 * 4096" and nz: "ent_pag s pd (a div 4096) \<noteq> 0"
  shows "traduce s (of_nat a) = Some (PGNUM (ent_pag s pd (a div 4096)), a mod 4096)"
proof -
  let ?va = "of_nat a :: 32 word"
  have u: "unat ?va = a" using a by (simp add: unat_of_nat take_bit_eq_mod NU_val)
  have n: "PGNUM ?va = a div 4096" by (simp only: PGNUM_eq u)
  have k: "a div 4096 < NU * 1024" using a by (simp add: less_mult_imp_div_less)
  then have i: "a div 4096 div 1024 < NU" by (simp add: less_mult_imp_div_less)
  have e: "ent s (pd, PDX ?va, PTX ?va) = ent_pag s pd (a div 4096)" by (simp add: ent_pag_def PDX_PGNUM PTX_PGNUM n)
  have pw: "PUW = PTE_U OR (PTE_P OR PTE_W)" by (simp add: or.left_commute)
  have "ent_pag s pd (a div 4096) AND PUW = PUW" using pr k nz unfolding propio_def by blast
  then have w: "ent_pag s pd (a div 4096) AND (PTE_P OR PTE_W) = PTE_P OR PTE_W" unfolding pw by (rule bits_parte)
  have d: "mem s pd (PDX ?va) \<noteq> 0" using e nz by (auto simp: ent_def)
  then have "abierta s pd (PDX ?va)" using pr i by (auto simp: propio_def PDX_PGNUM n)
  then have "mem s pd (PDX ?va) AND (PTE_P OR PTE_W) = PTE_P OR PTE_W" unfolding abierta_def pw by (rule bits_parte)
  then show ?thesis using e w d c by (simp add: traduce_def Let_def ent_def and_FFF u)
qed

definition mismas :: "kst \<Rightarrow> nat set \<Rightarrow> kst \<Rightarrow> bool" where
  "mismas s P t \<longleftrightarrow> (\<forall>r\<in>ranuras P. ent t r = ent s r)"

lemma escribe_byte_ok:
  assumes ok: "vm_ok s P xs" and pr: "propio s P pd" and c: "cr3 s = pd" and pd: "pd \<in> P"
    and a: "a < NU * 1024 * 4096" and nz: "ent_pag s pd (a div 4096) \<noteq> 0"
  shows "\<exists>t. escribe_byte (of_nat a) b s = Inr ((), t) \<and> vm_ok t P xs \<and> propio t P pd \<and> mismas s P t \<and>
    crece s P pd {a div 4096} t \<and>
    (\<forall>x<NU * 1024 * 4096. ent_pag s pd (x div 4096) \<noteq> 0 \<longrightarrow> vista t pd x = (if x = a then b else vista s pd x))"
proof -
  let ?f = "PGNUM (ent_pag s pd (a div 4096))"
  define t where "t = poke (?f, a mod 4096 div 4) (pon_byte (a mod 4096 mod 4) b (mem s ?f (a mod 4096 div 4))) s"
  have k: "a div 4096 < NU * 1024" using a by (simp add: less_mult_imp_div_less)
  have rP: "(pd, a div 4096 div 1024, a div 4096 mod 1024) \<in> ranuras P" using pagina_k(4) [OF k] pd by blast
  have df: "datos s P xs ?f" using datos_ent [OF ok rP] nz by (simp add: ent_pag_def)
  have m: "mem t h = mem s h" if "h \<noteq> ?f" for h using that by (auto simp: t_def mem_poke)
  have sel: "npages t = npages s" "pages t = pages s" "page_free_list t = page_free_list s" by (simp_all add: t_def poke_def)
  note C = datos_cambia [OF ok df m sel]
  have en: "ent t r = ent s r" if "r \<in> ranuras P" for r using C(2) that by blast
  have ep: "ent_pag t pd n = ent_pag s pd n" if "n < NU * 1024" for n
    using en pagina_k(4) [OF that, of pd P] pd by (simp add: ent_pag_def)
  have uno: "r = (pd, a div 4096 div 1024, a div 4096 mod 1024)"
    if "r \<in> ranuras P" "ent s r \<noteq> 0" "PGNUM (ent s r) = ?f" for r
    using pr k nz that unfolding propio_def by blast
  have "escribe_byte (of_nat a) b s = Inr ((), t)" by (simp add: escribe_byte_def traduce_propio [OF pr c a nz] t_def)
  moreover have "vm_ok t P xs" by (rule C(1))
  moreover have "propio t P pd"
  proof -
    have "mem t pd = mem s pd" using df pd by (intro m) (auto simp: datos_def)
    then show ?thesis using pr en ep by (simp add: propio_def abierta_def)
  qed
  moreover have "mismas s P t" using en by (simp add: mismas_def)
  moreover have "crece s P pd {a div 4096} t"
  proof -
    have "mem t (PGNUM (ent s r)) = mem s (PGNUM (ent s r))"
      if "r \<in> ranuras P - ranuras_de pd {a div 4096}" "ent s r \<noteq> 0" for r
      using uno [of r] that by (intro m) (auto simp: ranuras_de_def)
    then show ?thesis using en ep [OF k] nz by (simp add: crece_def t_def)
  qed
  moreover have "vista t pd x = (if x = a then b else vista s pd x)"
    if x: "x < NU * 1024 * 4096" "ent_pag s pd (x div 4096) \<noteq> 0" for x
  proof -
    have kx: "x div 4096 < NU * 1024" using x(1) by (simp add: less_mult_imp_div_less)
    have "(pd, x div 4096 div 1024, x div 4096 mod 1024) \<in> ranuras P" using pagina_k(4) [OF kx] pd by blast
    from uno [OF this] x(2) have "PGNUM (ent_pag s pd (x div 4096)) = ?f \<longleftrightarrow> x div 4096 = a div 4096"
      by (auto simp: ent_pag_def) (metis div_mult_mod_eq)
    then have "PGNUM (ent_pag s pd (x div 4096)) = ?f \<and> x mod 4096 = a mod 4096 \<longleftrightarrow> x = a" by (metis div_mult_mod_eq)
    moreover have "byte_mem t g j = (if g = ?f \<and> j = a mod 4096 then b else byte_mem s g j)" for g j
      unfolding t_def by (rule byte_mem_poke)
    ultimately show ?thesis unfolding vista_def ep [OF kx] by simp
  qed
  ultimately show ?thesis by blast
qed

lemma escribe_bytes_ok:
  assumes "vm_ok s P xs" and "propio s P pd" and "cr3 s = pd" and "pd \<in> P"
    and "a + length bs \<le> NU * 1024 * 4096" and "K \<subseteq> {..<NU * 1024}" and "\<forall>k\<in>K. ent_pag s pd k \<noteq> 0"
    and "\<forall>x\<in>{a..<a + length bs}. x div 4096 \<in> K"
  shows "\<exists>t. escribe_bytes (of_nat a) bs s = Inr ((), t) \<and> vm_ok t P xs \<and> propio t P pd \<and> mismas s P t \<and>
    crece s P pd K t \<and>
    (\<forall>x<NU * 1024 * 4096. ent_pag s pd (x div 4096) \<noteq> 0 \<longrightarrow>
       vista t pd x = (if a \<le> x \<and> x < a + length bs then bs ! (x - a) else vista s pd x))"
  using assms
proof (induction bs arbitrary: a s)
  case Nil
  then show ?case by (auto simp: mismas_def crece_def)
next
  case (Cons b bs)
  have a: "a < NU * 1024 * 4096" "a div 4096 \<in> K" using Cons.prems(5,8) by auto
  obtain s1 where s1: "escribe_byte (of_nat a) b s = Inr ((), s1)" "vm_ok s1 P xs" "propio s1 P pd" "mismas s P s1"
    "crece s P pd {a div 4096} s1"
    "\<forall>x<NU * 1024 * 4096. ent_pag s pd (x div 4096) \<noteq> 0 \<longrightarrow> vista s1 pd x = (if x = a then b else vista s pd x)"
    using escribe_byte_ok [OF Cons.prems(1-4) a(1)] a(2) Cons.prems(7) by meson
  have ep: "ent_pag s1 pd k = ent_pag s pd k" if "k < NU * 1024" for k
    using s1(4) pagina_k(4) [OF that, of pd P] Cons.prems(4) by (simp add: mismas_def ent_pag_def)
  have "cr3 s1 = pd" using s1(5) Cons.prems(3) by (simp add: crece_def solo_vm_def)
  moreover have "Suc a + length bs \<le> NU * 1024 * 4096" "\<forall>x\<in>{Suc a..<Suc a + length bs}. x div 4096 \<in> K"
    using Cons.prems(5,8) by auto
  moreover have "\<forall>k\<in>K. ent_pag s1 pd k \<noteq> 0" using ep Cons.prems(6,7) by auto
  ultimately obtain t where t: "escribe_bytes (of_nat (Suc a)) bs s1 = Inr ((), t)" "vm_ok t P xs" "propio t P pd"
    "mismas s1 P t" "crece s1 P pd K t"
    "\<forall>x<NU * 1024 * 4096. ent_pag s1 pd (x div 4096) \<noteq> 0 \<longrightarrow>
       vista t pd x = (if Suc a \<le> x \<and> x < Suc a + length bs then bs ! (x - Suc a) else vista s1 pd x)"
    using Cons.IH [OF s1(2,3) _ Cons.prems(4) _ Cons.prems(6)] by blast
  have "escribe_bytes (of_nat a) (b # bs) s = Inr ((), t)" using s1(1) t(1) by (simp add: add.commute)
  moreover have "mismas s P t" using s1(4) t(4) by (simp add: mismas_def)
  moreover have "crece s P pd K t"
    using crece_trans [OF s1(5) t(5) _ Cons.prems(4)] a(2) Cons.prems(6) by (auto simp: insert_absorb)
  moreover have "vista t pd x = (if a \<le> x \<and> x < a + length (b # bs) then (b # bs) ! (x - a) else vista s pd x)"
    if x: "x < NU * 1024 * 4096" "ent_pag s pd (x div 4096) \<noteq> 0" for x
  proof -
    have "x div 4096 < NU * 1024" using x(1) by (simp add: less_mult_imp_div_less)
    then have "ent_pag s1 pd (x div 4096) \<noteq> 0" using ep x(2) by simp
    then show ?thesis using t(6) s1(6) x by (auto simp: nth_Cons')
  qed
  ultimately show ?case using t(2,3) by blast
qed


section \<open>Segments\<close>

definition seg_ok :: "8 word list \<Rightarrow> proghdr \<Rightarrow> bool" where
  "seg_ok binary ph \<longleftrightarrow> unat (p_va ph) + unat (p_memsz ph) \<le> unat UTOP \<and> p_filesz ph \<le> p_memsz ph \<and>
     unat (p_offset ph) + unat (p_filesz ph) \<le> length binary"

text \<open>What the program should find: its part of the file, then zeros.\<close>

definition cargado :: "kst \<Rightarrow> nat \<Rightarrow> 8 word list \<Rightarrow> proghdr \<Rightarrow> bool" where
  "cargado s pd binary ph \<longleftrightarrow> (\<forall>i<unat (p_memsz ph). vista s pd (unat (p_va ph) + i) =
     (if i < unat (p_filesz ph) then binary ! (unat (p_offset ph) + i) else 0))"

abbreviation paginas_ph :: "proghdr \<Rightarrow> nat set" where "paginas_ph ph \<equiv> tramo (p_va ph) (p_memsz ph)"

lemma tramo_UTOP:
  assumes "unat va + unat len \<le> unat UTOP"
  shows "tramo va len \<subseteq> {..<NU * 1024}" "i < unat len \<Longrightarrow> (unat va + i) div 4096 \<in> tramo va len"
proof -
  have "(unat va + unat len + 4095) div 4096 \<le> NU * 1024" using assms unfolding UTOP_nat by simp
  then show "tramo va len \<subseteq> {..<NU * 1024}" by (auto simp: tramo_def)
  show "(unat va + i) div 4096 \<in> tramo va len" if "i < unat len"
  proof -
    have "(unat va + i) div 4096 < (unat va + i + 4096) div 4096" by simp
    also have "\<dots> \<le> (unat va + unat len + 4095) div 4096" using that by (intro div_le_mono) simp
    finally show ?thesis by (simp add: tramo_def div_le_mono)
  qed
qed

lemma carga_segmento_ok:
  assumes ok: "vm_ok s P xs" and pr: "propio s P pd" and c: "cr3 s = pd" and pd: "pd \<in> P"
    and e: "env_pgdir (envs s ! e) = Some pd" and l: "p_type ph = ELF_PROG_LOAD" and sg: "seg_ok binary ph"
    and nueva: "\<forall>k\<in>paginas_ph ph. ent_pag s pd k = 0" and cabe: "2 * card (paginas_ph ph) \<le> length xs"
  shows "\<exists>t ys. carga_segmento e binary ph s = Inr ((), t) \<and> vm_ok t P ys \<and> propio t P pd \<and>
    crece s P pd (paginas_ph ph) t \<and> length xs \<le> length ys + 2 * card (paginas_ph ph) \<and> cargado t pd binary ph"
proof -
  let ?va = "unat (p_va ph)" and ?m = "unat (p_memsz ph)" and ?f = "unat (p_filesz ph)" and ?K = "paginas_ph ph"
  let ?bs = "take ?f (drop (unat (p_offset ph)) binary)"
  have S: "?va + ?m \<le> unat UTOP" "?f \<le> ?m" "unat (p_offset ph) + ?f \<le> length binary"
    using sg by (simp_all add: seg_ok_def word_le_nat_alt)
  note K = tramo_UTOP [OF S(1)]
  obtain s1 ys where s1: "region_alloc e (p_va ph) (p_memsz ph) s = Inr ((), s1)" "vm_ok s1 P ys" "propio s1 P pd"
    "crece s P pd ?K s1" "length xs \<le> length ys + 2 * card ?K"
    using region_alloc_ok [OF ok pr pd e S(1) nueva cabe] by blast
  have c1: "cr3 s1 = pd" "\<forall>k\<in>?K. ent_pag s1 pd k \<noteq> 0" using s1(4) c by (simp_all add: crece_def solo_vm_def)
  have en: "x div 4096 \<in> ?K" if "?va \<le> x" "x < ?va + ?m" for x using K(2) [of "x - ?va"] that by simp
  have lim: "?va + ?m \<le> NU * 1024 * 4096" using S(1) unfolding UTOP_nat .
  then obtain s2 where s2: "escribe_bytes (p_va ph) (replicate ?m 0) s1 = Inr ((), s2)" "vm_ok s2 P ys" "propio s2 P pd"
    "mismas s1 P s2" "crece s1 P pd ?K s2"
    "\<forall>x<NU * 1024 * 4096. ent_pag s1 pd (x div 4096) \<noteq> 0 \<longrightarrow> 
       vista s2 pd x = (if ?va \<le> x \<and> x < ?va + ?m then replicate ?m 0 ! (x - ?va) else vista s1 pd x)"
    using escribe_bytes_ok [OF s1(2,3) c1(1) pd _ K(1) c1(2), of ?va "replicate ?m 0"] en by auto
  have c2: "cr3 s2 = pd" "\<forall>k\<in>?K. ent_pag s2 pd k \<noteq> 0" using s2(5) c1 by (simp_all add: crece_def solo_vm_def)
  have lb: "length ?bs = ?f" using S(3) by simp
  have "?va + ?f \<le> NU * 1024 * 4096" "\<forall>x\<in>{?va..<?va + ?f}. x div 4096 \<in> ?K" using lim en S(2) by auto
  then obtain t where t: "escribe_bytes (p_va ph) ?bs s2 = Inr ((), t)" "vm_ok t P ys" "propio t P pd"
    "crece s2 P pd ?K t"
    "\<forall>x<NU * 1024 * 4096. ent_pag s2 pd (x div 4096) \<noteq> 0 \<longrightarrow>
       vista t pd x = (if ?va \<le> x \<and> x < ?va + ?f then ?bs ! (x - ?va) else vista s2 pd x)"
    using escribe_bytes_ok [OF s2(2,3) c2(1) pd _ K(1) c2(2), of ?va ?bs] unfolding lb by auto
  have "carga_segmento e binary ph s = Inr ((), t)" using s1(1) s2(1) t(1) l S(3) by (simp add: carga_segmento_def)
  moreover have "crece s P pd ?K t"
    using crece_trans [OF crece_trans [OF s1(4) s2(5) K(1) pd] t(4) _ pd] K(1) by simp
  moreover have "cargado t pd binary ph"
    unfolding cargado_def
  proof (intro allI impI)
    fix i
    assume i: "i < ?m"
    have x: "?va + i < NU * 1024 * 4096" "(?va + i) div 4096 \<in> ?K" using i lim K(2) by simp_all
    then show "vista t pd (?va + i) = (if i < ?f then binary ! (unat (p_offset ph) + i) else 0)"
      using t(5) s2(6) c1(2) c2(2) i S(3) by simp
  qed
  ultimately show ?thesis using t(2,3) s1(5) by blast
qed

definition cargables :: "proghdr list \<Rightarrow> proghdr list" where
  "cargables phs = [ph\<leftarrow>phs. p_type ph = ELF_PROG_LOAD]"

fun separados :: "nat set list \<Rightarrow> bool" where
  "separados [] \<longleftrightarrow> True"
| "separados (K # Ks) \<longleftrightarrow> (\<forall>L\<in>set Ks. K \<inter> L = {}) \<and> separados Ks"

abbreviation paginas_phs :: "proghdr list \<Rightarrow> nat set" where
  "paginas_phs phs \<equiv> \<Union> (paginas_ph ` set (cargables phs))"

abbreviation cuantas :: "proghdr list \<Rightarrow> nat" where
  "cuantas phs \<equiv> sum_list (map (\<lambda>ph. card (paginas_ph ph)) (cargables phs))"

lemma recorre_leidos:
  "map g is = map Some ps \<Longrightarrow>
   recorre (\<lambda>i s. case g i of None \<Rightarrow> Inl Indefinido | Some p \<Rightarrow> f p s) is s = recorre f ps s"
proof (induction "is" arbitrary: ps s)
  case (Cons i "is")
  then obtain p qs where "ps = p # qs" by (cases ps) auto
  then show ?case using Cons by (cases "f p s") auto
qed simp

text \<open>A segment that is in memory stays so while other pages are filled.\<close>

lemma cargado_crece:
  assumes "cargado s pd binary ph" and "crece s P pd K t" and "pd \<in> P" and "seg_ok binary ph"
    and "paginas_ph ph \<inter> K = {}" and "\<forall>k\<in>paginas_ph ph. ent_pag s pd k \<noteq> 0"
  shows "cargado t pd binary ph"
proof -
  have lim: "unat (p_va ph) + unat (p_memsz ph) \<le> unat UTOP" using assms(4) by (simp add: seg_ok_def)
  have "vista t pd (unat (p_va ph) + i) = vista s pd (unat (p_va ph) + i)" if i: "i < unat (p_memsz ph)" for i
    using tramo_UTOP(2) [OF lim i] assms(5,6) lim i unfolding UTOP_nat
    by (intro crece_vista [OF assms(2,3)]) auto
  then show ?thesis using assms(1) by (simp add: cargado_def)
qed

lemma segmentos_ok:
  assumes "vm_ok s P xs" and "propio s P pd" and "cr3 s = pd" and "pd \<in> P" and "env_pgdir (envs s ! e) = Some pd"
    and "\<forall>ph\<in>set (cargables phs). seg_ok binary ph" and "separados (map (\<lambda>ph. paginas_ph ph) (cargables phs))"
    and "\<forall>k\<in>paginas_phs phs. ent_pag s pd k = 0" and "2 * cuantas phs \<le> length xs"
  shows "\<exists>t ys. recorre (carga_segmento e binary) phs s = Inr ((), t) \<and> vm_ok t P ys \<and> propio t P pd \<and>
    crece s P pd (paginas_phs phs) t \<and> length xs \<le> length ys + 2 * cuantas phs \<and>
    (\<forall>ph\<in>set (cargables phs). cargado t pd binary ph)"
  using assms
proof (induction phs arbitrary: s xs)
  case Nil
  then show ?case by (auto simp: cargables_def crece_vacio)
next
  case (Cons ph phs)
  show ?case
  proof (cases "p_type ph = ELF_PROG_LOAD")
    case False
    then have "cargables (ph # phs) = cargables phs" "carga_segmento e binary ph s = Inr ((), s)"
      by (simp_all add: cargables_def carga_segmento_def)
    then show ?thesis using Cons by simp
  next
    case True
    then have c: "cargables (ph # phs) = ph # cargables phs" by (simp add: cargables_def)
    note H = Cons.prems [unfolded c]
    let ?K = "paginas_ph ph"
    have sg: "seg_ok binary ph" and cero: "\<forall>k\<in>?K. ent_pag s pd k = 0" and cabe: "2 * card ?K \<le> length xs"
      using H by simp_all
    obtain s1 ys where s1: "carga_segmento e binary ph s = Inr ((), s1)" "vm_ok s1 P ys" "propio s1 P pd"
      "crece s P pd ?K s1" "length xs \<le> length ys + 2 * card ?K" "cargado s1 pd binary ph"
      using carga_segmento_ok [OF H(1-5) True sg cero cabe] by blast
    have lim: "?K \<subseteq> {..<NU * 1024}" "paginas_phs phs \<subseteq> {..<NU * 1024}"
      using tramo_UTOP(1) H(6) by (simp_all add: seg_ok_def UN_subset_iff)
    have ap: "?K \<inter> paginas_phs phs = {}" using H(7) by auto
    have "ent_pag s1 pd k = 0" if "k \<in> paginas_phs phs" for k
      using crece_ent(1) [OF s1(4) H(4), of k] that lim(2) ap H(8) by auto
    moreover have "cr3 s1 = pd" "env_pgdir (envs s1 ! e) = Some pd" using s1(4) H(3,5) by (simp_all add: crece_def solo_vm_def)
    ultimately obtain t zs where t: "recorre (carga_segmento e binary) phs s1 = Inr ((), t)" "vm_ok t P zs" "propio t P pd"
      "crece s1 P pd (paginas_phs phs) t" "length ys \<le> length zs + 2 * cuantas phs"
      "\<forall>ph\<in>set (cargables phs). cargado t pd binary ph"
      using Cons.IH [OF s1(2,3) _ H(4)] H(6,7,9) s1(5) by auto
    have "\<forall>k\<in>?K. ent_pag s1 pd k \<noteq> 0" using s1(4) by (simp add: crece_def)
    then have "cargado t pd binary ph" by (rule cargado_crece [OF s1(6) t(4) H(4) sg ap])
    moreover have "crece s P pd (?K \<union> paginas_phs phs) t" by (rule crece_trans [OF s1(4) t(4) lim(1) H(4)])
    ultimately show ?thesis using s1(1,5) t unfolding c by auto
  qed
qed


section \<open>The whole program\<close>

abbreviation pila_u :: "nat set" where "pila_u \<equiv> tramo (USTACKTOP - PGSIZE) PGSIZE"

lemma pila_u_val: "pila_u = {977917}" "unat (USTACKTOP - PGSIZE) + unat PGSIZE \<le> unat UTOP"
  by (auto simp: tramo_def USTACKTOP_def UTOP_val PGSIZE_def)

definition cabeceras :: "8 word list \<Rightarrow> elf \<Rightarrow> proghdr list \<Rightarrow> bool" where
  "cabeceras binary h phs \<longleftrightarrow>
     map (\<lambda>i. lee_ph binary (unat (e_phoff h) + 32 * i)) [0..<unat (e_phnum h)] = map Some phs"

text \<open>An image the kernel can load in the space \<open>pd\<close>, which has nothing in it.\<close>

definition cargable :: "kst \<Rightarrow> nat \<Rightarrow> nat list \<Rightarrow> 8 word list \<Rightarrow> elf \<Rightarrow> proghdr list \<Rightarrow> bool" where
  "cargable s pd xs binary h phs \<longleftrightarrow> (\<forall>i<NU. mem s pd i = 0) \<and> lee_elf binary = Some h \<and> e_magic h = ELF_MAGIC \<and>
     cabeceras binary h phs \<and> (\<forall>ph\<in>set (cargables phs). seg_ok binary ph) \<and>
     separados (pila_u # map (\<lambda>ph. paginas_ph ph) (cargables phs)) \<and> 2 * (1 + cuantas phs) \<le> length xs"

lemma propio_vacio:
  assumes "\<forall>i<NU. mem s pd i = 0"
  shows "propio s P pd" "n < NU * 1024 \<Longrightarrow> ent_pag s pd n = 0"
proof -
  show e: "ent_pag s pd n = 0" if "n < NU * 1024" for n
    using assms that by (simp add: ent_pag_def ent_def less_mult_imp_div_less)
  then show "propio s P pd" using assms by (simp add: propio_def)
qed

text \<open>Segments and stack, before the last assignments.\<close>

lemma carga_todo:
  assumes ok: "vm_ok s P xs" and c: "cr3 s = pd" and pd: "pd \<in> P" and e: "env_pgdir (envs s ! e) = Some pd"
    and b: "cargable s pd xs binary h phs"
  shows "\<exists>s1 t ys. carga_segmentos e binary h s = Inr ((), s1) \<and>
    region_alloc e (USTACKTOP - PGSIZE) PGSIZE s1 = Inr ((), t) \<and> vm_ok t P ys \<and> propio t P pd \<and>
    crece s P pd (paginas_phs phs \<union> pila_u) t \<and> (\<forall>ph\<in>set (cargables phs). cargado t pd binary ph)"
proof -
  have B: "\<forall>i<NU. mem s pd i = 0" "cabeceras binary h phs" "\<forall>ph\<in>set (cargables phs). seg_ok binary ph"
    "separados (map (\<lambda>ph. paginas_ph ph) (cargables phs))" "2 * (1 + cuantas phs) \<le> length xs"
    "\<forall>ph\<in>set (cargables phs). paginas_ph ph \<inter> pila_u = {}"
    using b by (auto simp: cargable_def)
  note V = propio_vacio [OF B(1)]
  have lim: "paginas_phs phs \<subseteq> {..<NU * 1024}" using tramo_UTOP(1) B(3) by (simp add: seg_ok_def UN_subset_iff)
  then have "\<forall>k\<in>paginas_phs phs. ent_pag s pd k = 0" using V(2) by blast
  then obtain s1 ys where s1: "recorre (carga_segmento e binary) phs s = Inr ((), s1)" "vm_ok s1 P ys" "propio s1 P pd"
    "crece s P pd (paginas_phs phs) s1" "length xs \<le> length ys + 2 * cuantas phs"
    "\<forall>ph\<in>set (cargables phs). cargado s1 pd binary ph"
    using segmentos_ok [OF ok V(1) c pd e B(3,4)] B(5) by auto
  have "carga_segmentos e binary h s = Inr ((), s1)"
    unfolding carga_segmentos_def using recorre_leidos [OF B(2) [unfolded cabeceras_def]] s1(1) by simp
  moreover have "env_pgdir (envs s1 ! e) = Some pd" using s1(4) e by (simp add: crece_def solo_vm_def)
  moreover have "ent_pag s1 pd k = 0" if "k \<in> pila_u" for k
    using crece_ent(1) [OF s1(4) pd, of k] V(2) [of k] that B(6) pila_u_val(1) by (auto simp: NU_val)
  moreover have "2 * card pila_u \<le> length ys" using s1(5) B(5) unfolding pila_u_val(1) by simp
  ultimately obtain t zs where t: "region_alloc e (USTACKTOP - PGSIZE) PGSIZE s1 = Inr ((), t)" "vm_ok t P zs"
    "propio t P pd" "crece s1 P pd pila_u t"
    using region_alloc_ok [OF s1(2,3) pd _ pila_u_val(2)] by blast
  have "cargado t pd binary ph" if ph: "ph \<in> set (cargables phs)" for ph
    by (rule cargado_crece [OF _ t(4) pd]) (use ph s1(4,6) B(3,6) in \<open>auto simp: crece_def\<close>)
  then show ?thesis
    using crece_trans [OF s1(4) t(4) lim pd] \<open>carga_segmentos e binary h s = Inr ((), s1)\<close> t(1-3) by blast
qed

text \<open>
  C40: load_icode, on a well-formed image whose segments lie below UTOP, share no page and leave the stack's page
  free, and with two free frames for each page, leaves in the address space of the environment the bytes of
  every segment followed by zeros up to its size in memory, the stack, and nothing else, all of it writable by
  the program; it sets the entry point, keeps the invariant of the page tables and touches no other space nor
  any other environment.
\<close>

theorem load_icode_carga:
  assumes ok: "vm_ok s P xs" and pd: "pd \<in> P" and e: "e < length (envs s)" "env_pgdir (envs s ! e) = Some pd"
    and b: "cargable s pd xs binary h phs"
  shows "\<exists>t ys. load_icode e binary s = Inr ((), t) \<and> vm_ok t P ys \<and>
    (\<forall>ph\<in>set (cargables phs). cargado t pd binary ph) \<and>
    (\<forall>n<NU * 1024. if n \<in> paginas_phs phs \<union> pila_u then ent_pag t pd n AND PUW = PUW else ent_pag t pd n = 0) \<and>
    (\<forall>r\<in>ranuras (P - {pd}). ent t r = ent s r \<and>
       (ent s r \<noteq> 0 \<longrightarrow> mem t (PGNUM (ent s r)) = mem s (PGNUM (ent s r)))) \<and>
    envs t = (envs s)[e := (envs s ! e)\<lparr>env_tf := (env_tf (envs s ! e))\<lparr>tf_eip := e_entry h\<rparr>\<rparr>] \<and>
    cr3 t = kern_pgdir s"
proof -
  let ?s = "s\<lparr>cr3 := pd\<rparr>" and ?K = "paginas_phs phs \<union> pila_u"
  have m: "mem ?s = mem s" by simp
  have ent0: "ent ?s = ent s" by (rule solo_mem(1) [OF m])
  have ok': "vm_ok ?s P xs" using vm_cong [OF m] ok by simp
  have e': "env_pgdir (envs ?s ! e) = Some pd" "cr3 ?s = pd" using e(2) by simp_all
  have b': "cargable ?s pd xs binary h phs" using b by (simp add: cargable_def)
  obtain s1 u ys where c: "carga_segmentos e binary h ?s = Inr ((), s1)"
    "region_alloc e (USTACKTOP - PGSIZE) PGSIZE s1 = Inr ((), u)" "vm_ok u P ys" "propio u P pd"
    "crece ?s P pd ?K u" "\<forall>ph\<in>set (cargables phs). cargado u pd binary ph"
    using carga_todo [OF ok' e'(2) pd e'(1) b'] by blast
  define t where "t = upd_env e (\<lambda>v. v\<lparr>env_tf := (env_tf v)\<lparr>tf_eip := e_entry h\<rparr>\<rparr>) u\<lparr>cr3 := kern_pgdir u\<rparr>"
  have mt: "mem t = mem u" by (simp add: t_def upd_env_def)
  have ent: "ent t = ent u" by (rule solo_mem(1) [OF mt])
  have sv: "envs u = envs s" "kern_pgdir u = kern_pgdir s" using c(5) by (simp_all add: crece_def solo_vm_def)
  have h: "lee_elf binary = Some h" "e_magic h = ELF_MAGIC" "\<forall>i<NU. mem s pd i = 0" using b by (simp_all add: cargable_def)
  have "load_icode e binary s = Inr ((), t)"
    using c(1,2) h e(2) by (simp add: load_icode_def env_load_pgdir_def t_def Let_def upd_env_def)
  moreover have "vm_ok t P ys" using vm_cong [OF mt] c(3) by (simp add: t_def upd_env_def)
  moreover have "\<forall>ph\<in>set (cargables phs). cargado t pd binary ph"
    using c(6) by (simp add: cargado_def vista_def byte_mem_def ent_pag_def ent mt)
  moreover have "if n \<in> ?K then ent_pag t pd n AND PUW = PUW else ent_pag t pd n = 0" if n: "n < NU * 1024" for n
  proof (cases "n \<in> ?K")
    case True
    then have "ent_pag u pd n \<noteq> 0" using c(5) by (simp add: crece_def)
    then show ?thesis using True c(4) n unfolding propio_def by (simp add: ent_pag_def ent)
  next
    case False
    then show ?thesis
      using crece_ent(1) [OF c(5) pd n] propio_vacio(2) [OF h(3) n] by (simp add: ent_pag_def ent ent0)
  qed
  moreover have "ent t r = ent s r \<and> (ent s r \<noteq> 0 \<longrightarrow> mem t (PGNUM (ent s r)) = mem s (PGNUM (ent s r)))"
    if "r \<in> ranuras (P - {pd})" for r
  proof -
    have "r \<in> ranuras P - ranuras_de pd ?K" using that by (auto simp: ranuras_def ranuras_de_def)
    then show ?thesis using c(5) by (simp add: crece_def ent ent0 mt)
  qed
  moreover have "envs t = (envs s)[e := (envs s ! e)\<lparr>env_tf := (env_tf (envs s ! e))\<lparr>tf_eip := e_entry h\<rparr>\<rparr>]"
    using e(1) by (simp add: t_def upd_env_def sv list_eq_iff_nth_eq nth_upd)
  moreover have "cr3 t = kern_pgdir s" by (simp add: t_def sv)
  ultimately show ?thesis by blast
qed

definition elf_ej :: "8 word list" where
  "elf_ej =
    [0x7F, 0x45, 0x4C, 0x46, 0, 0, 0, 0, 0, 0, 0, 0, 0, 0, 0, 0, 0, 0, 0, 0, 0, 0, 0, 0, 0x20, 0,
     0x80, 0, 52, 0, 0, 0, 0, 0, 0, 0, 0, 0, 0, 0, 0, 0, 0, 0, 1, 0, 0, 0, 0, 0, 0, 0,
     1, 0, 0, 0, 84, 0, 0, 0, 32, 0, 128, 0, 0, 0, 0, 0, 3, 0, 0, 0, 6, 0, 0, 0, 7, 0,
     0, 0, 0, 16, 0, 0, 0x11, 0x22, 0x33]"

definition kst_carga :: kst where
  "kst_carga = kst_ej\<lparr>page_free_list := Some 2,
     pages := [\<lparr>pp_link = None, pp_ref = 1\<rparr>, \<lparr>pp_link = None, pp_ref = 1\<rparr>, \<lparr>pp_link = Some 3, pp_ref = 0\<rparr>,
               \<lparr>pp_link = Some 4, pp_ref = 0\<rparr>, \<lparr>pp_link = Some 5, pp_ref = 0\<rparr>, \<lparr>pp_link = None, pp_ref = 0\<rparr>]\<rparr>"

theorem load_icode_carga_witness:
  "\<exists>t. load_icode 0 elf_ej kst_carga = Inr ((), t) \<and> map (\<lambda>i. vista t 1 (0x800020 + i)) [0..<6] = [0x11, 0x22, 0x33, 0, 0, 0] \<and>
     ent_pag t 1 0x800 AND PUW = PUW \<and> ent_pag t 1 0x801 = 0 \<and> tf_eip (env_tf (envs t ! 0)) = 0x800020"
proof -
  let ?h = "\<lparr>e_magic = ELF_MAGIC, e_entry = 0x800020, e_phoff = 52, e_phnum = 1\<rparr>"
  let ?ph = "\<lparr>p_type = ELF_PROG_LOAD, p_offset = 84, p_va = 0x800020, p_pa = 0, p_filesz = 3, p_memsz = 6, p_flags = 7, p_align = 4096\<rparr>"
  have h: "lee_elf elf_ej = Some ?h" by (simp add: lee_elf_def le32_def le16_def elf_ej_def ELF_MAGIC_def)
  have "lee_ph elf_ej 52 = Some ?ph" by (simp add: lee_ph_def le32_def elf_ej_def ELF_PROG_LOAD_def upt_rec)
  then have cb: "cabeceras elf_ej ?h [?ph]" by (simp add: cabeceras_def)
  have cg: "cargables [?ph] = [?ph]" by (simp add: cargables_def)
  have tr: "tramo 0x800020 6 = {0x800}" by (auto simp: tramo_def)
  have sel: "npages kst_carga = 6" "mem kst_carga = (\<lambda>_ _. 0)" "env_pgdir (envs kst_carga ! 0) = Some 1" "0 < length (envs kst_carga)"
    by (simp_all add: kst_carga_def kst_ej_def)
  have seis: "(\<forall>i<6. P i) \<longleftrightarrow> P 0 \<and> P 1 \<and> P 2 \<and> P 3 \<and> P 4 \<and> P (5::nat)" for P
    by (simp add: numeral_eq_Suc All_less_Suc conj_ac)
  have "libres_ok kst_carga [2, 3, 4, 5]" by (simp add: libres_ok_def seis sel(1)) (simp add: kst_carga_def)
  then have vm: "vm_ok kst_carga {1} [2, 3, 4, 5]" by (rule vm_vacia) (simp_all add: sel)
  have b: "cargable kst_carga 1 [2, 3, 4, 5] elf_ej ?h [?ph]"
    using h cb by (simp add: cargable_def cg tr sel pila_u_val(1) seg_ok_def UTOP_val elf_ej_def)
  obtain t where t: "load_icode 0 elf_ej kst_carga = Inr ((), t)" "cargado t 1 elf_ej ?ph"
    "\<forall>n<NU * 1024. if n = 977917 \<or> n = 0x800 then ent_pag t 1 n AND PUW = PUW else ent_pag t 1 n = 0"
    "envs t = (envs kst_carga)[0 := (envs kst_carga ! 0)\<lparr>env_tf := (env_tf (envs kst_carga ! 0))\<lparr>tf_eip := 0x800020\<rparr>\<rparr>]"
    using load_icode_carga [OF vm singletonI sel(4,3) b] by (auto simp: cg tr pila_u_val(1) simp del: One_nat_def)
  have "vista t 1 (0x800020 + i) = (if i < 3 then elf_ej ! (84 + i) else 0)" if "i < 6" for i
    using t(2) that by (simp add: cargado_def)
  then have "map (\<lambda>i. vista t 1 (0x800020 + i)) [0..<6] = map (\<lambda>i. if i < 3 then elf_ej ! (84 + i) else 0) [0..<6]" by simp
  also have "\<dots> = [0x11, 0x22, 0x33, 0, 0, 0]" by (simp add: upt_rec elf_ej_def)
  finally have "map (\<lambda>i. vista t 1 (0x800020 + i)) [0..<6] = [0x11, 0x22, 0x33, 0, 0, 0]" .
  moreover have "if n = 977917 \<or> n = 0x800 then ent_pag t 1 n AND PUW = PUW else ent_pag t 1 n = 0" if "n < NU * 1024" for n
    using t(3) that by blast
  from this [of 2048] this [of 2049] have "ent_pag t 1 0x800 AND PUW = PUW" "ent_pag t 1 0x801 = 0" by (simp_all add: NU_val)
  moreover have "tf_eip (env_tf (envs t ! 0)) = 0x800020" using t(4) sel(4) by simp
  ultimately show ?thesis by - (rule exI [of _ t], intro conjI; (assumption | rule t(1)))
qed

end
