(* ===== verification/Spec2Isabelle.thy ===== *)
theory Spec2Isabelle
  imports Fisop_Contrato Shell_Contrato Primes Xargs Lib_Contrato
    Kern_Mem_Contrato Kern_Sched_Contrato Kern_Syscall_Contrato Kern_Console_Contrato
    Kern_Debug_Contrato Kern_Fork Kern_Spin Kern_Monitor_Contrato Kern_Mp_Contrato Kern_Carga_Contrato
begin

text \<open>
  The repository holds four programs: \<open>fisopfs\<close>, a file system served through FUSE from memory and saved
  to a file; \<open>shell\<close>, a command interpreter; \<open>fork\<close>, two exercises on processes (\<open>primes\<close>, \<open>xargs\<close>);
  and \<open>sched\<close>, the JOS kernel with the schedulers, system calls and libraries of the course. The
  development models each in its own group of theories over a common \<open>Prelude\<close>.

  \<^bold>\<open>fisopfs\<close> (\<open>fisopfs/fisopfs.c\<close>, \<open>fisopfs.h\<close>).
  \<^item> \<open>Fisop_Inode\<close>: the inodes as a heap of records, path lookup (\<open>buscar_inode\<close>, \<open>buscar_padre\<close>), creation,
    linking and removal, \<open>liberar_inode\<close>.
  \<^item> \<open>Fisop_Persist\<close>: the disk file as bytes, \<open>guardar_fs\<close>, \<open>cargar_fs\<close> and the node by node forms.
  \<^item> \<open>Fisop_Ops\<close>: one definition per FUSE operation. A branch of C that is an error number is a value; a
    branch that is undefined behaviour (an overflow, a use of a null pointer) is a crash.
  \<^item> \<open>Fisop_Vista\<close>, \<open>Fisop_Props\<close>: the abstract file system, a map from paths to directories and bytes, and the
    well-formedness of the tree; \<open>Fisop_Contrato\<close>: every operation refines the abstract one, saving and
    loading are inverse, and the inputs on which the code misbehaves.

  \<^bold>\<open>shell\<close> (\<open>shell/*.c\<close>).
  \<^item> \<open>Shell_Parse\<close>: \<open>get_token\<close>, \<open>parse_exec\<close>, \<open>parse_line\<close> and the commands as a datatype.
  \<^item> \<open>Shell_Exec\<close>: \<open>exec_cmd\<close>, redirections and pipelines over explicit descriptor tables, \<open>run_cmd\<close>, the
    builtins, the status of the last command and the main loop, whose fuel is the length of the input.
  \<^item> \<open>Shell_Props\<close>, \<open>Shell_Contrato\<close>: parsing against a summary of the words of a command, the descriptors every
    process of a pipeline ends with, termination.

  \<^bold>\<open>fork\<close> (\<open>fork/*.c\<close>).
  \<^item> \<open>Primes\<close>: the processes of the sieve as a step relation on a network of pipes; every interleaving
    prints the primes in order and stops.
  \<^item> \<open>Xargs\<close>: the groups of arguments and the release of their array.

  \<^bold>\<open>sched, libraries\<close> (\<open>sched/lib\<close>).
  \<^item> \<open>Jos_String\<close>: \<open>string.c\<close>, memory as a function from addresses to bytes.
  \<^item> \<open>Printfmt\<close>, \<open>Printfmt_Props\<close>: \<open>printfmt.c\<close> over an arbitrary sink, and its three sinks.
  \<^item> \<open>Lib_Contrato\<close>: copies, bounded copies, the round trip of \<open>%d\<close> through \<open>strtol\<close>, truncated and buffered
    output.

  \<^bold>\<open>sched, kernel\<close> (\<open>sched/kern\<close>, \<open>sched/inc\<close>).
  \<^item> \<open>Kern_Console\<close>: \<open>console.c\<close>, the input ring, the keyboard decoder and the output devices.
  \<^item> \<open>Kern_Mmu\<close>: address arithmetic on 32-bit words, the structures of the kernel as records, and its whole
    state \<open>kst\<close>. An operation maps a state to a value and a state, or to the way in which control left
    the kernel (\<open>fin_kern\<close>): a panic, undefined behaviour, the run of an environment, a halted processor.
  \<^item> \<open>Kern_Pmap\<close>: \<open>pmap.c\<close>, the page allocator, two-level page tables and the check of user memory.
    \<open>Kern_Lista\<close> has the free list as an abstract list of frames, under the locale \<open>reserva\<close>; \<open>Kern_Vm\<close> has
    the invariant of address spaces \<open>vm_ok\<close> and what each operation does to their entries;
    \<open>Kern_Mem_Contrato\<close> states the contracts.
  \<^item> \<open>Kern_Env\<close>: \<open>env.c\<close>; \<open>Kern_Sched\<close>: \<open>sched.c\<close>, both schedulers. \<open>Kern_Turnos\<close> has the locale \<open>turnos\<close>, a
    scheduler with a rank that decreases until an environment is chosen; \<open>Kern_Sched_Contrato\<close> interprets
    it twice and shows that neither scheduler starves an environment.
  \<^item> \<open>Kern_Syscall\<close>: \<open>syscall.c\<close>, every handler and the dispatcher. \<open>Kern_Marco\<close> says which environments each
    operation can change; \<open>Kern_Syscall_Contrato\<close> has isolation, identifiers, messages, and the inputs on
    which a call breaks its documented contract.

  \<^bold>\<open>Bounds and fuel.\<close> Machine integers are words of their width where the code can overflow; indices into arrays,
  frame numbers and lengths are naturals. The loops of the console take one turn more than the device
  has bytes; the parsers and main loops take the length of their input. Both are proved to be enough
  where a property speaks of the result. Page loops are lists of the values of their counter.

  \<^bold>\<open>Not modelled.\<close> Boot code and tables (\<open>entrypgdir.c\<close>, the assembler files), the APIC, interrupt controller and
  multiprocessor tables, trap entry, the monitor and the debugging tables, the loading of programs, the
  user library that calls the kernel (\<open>fork.c\<close>, \<open>ipc.c\<close>, \<open>pgfault.c\<close>) and the user programs; the bodies of
  Linux calls, of the processor and of the devices. What the kernel prints while it runs is not part of
  its state.
\<close>

end
